(* ===== verification/Prelude.thy ===== *)
theory Prelude
  imports Main "HOL-Library.Word"
begin

text \<open>
  Shared vocabulary of the development.

  \<^item> \<open>('e, 'a) result\<close> is Rust's \<open>Result\<close> with \<open>Inl\<close> for \<open>Err\<close> and \<open>Inr\<close> for
    \<open>Ok\<close>; \<open>and_then\<close> is the \<open>?\<close> operator (an early return of the error).
  \<^item> \<open>u64\<close> values keep their width; \<open>rstr\<close> is a Rust string as its list of Unicode
    scalar values, \<open>utf8_len\<close> the number of bytes \<open>str::len\<close> counts.
  \<^item> \<open>time\<close> is a UTC instant (nanoseconds since the epoch): the code only compares
    instants, and where it adds a duration the addition is a parameter.
  \<^item> The collections \<open>result_simps\<close> and \<open>fence_simps\<close> carry the proofs of the components.
\<close>

named_theorems result_simps \<open>inversion of early returns\<close>
named_theorems fence_simps \<open>order facts on generation counters\<close>

section \<open>Results and early returns\<close>

type_synonym ('e, 'a) result = "'e + 'a"
type_synonym u64 = "64 word"
type_synonym uuid = "128 word"
type_synonym time = int
type_synonym rchar = nat
type_synonym rstr = "rchar list"

definition and_then :: "('e, 'a) result \<Rightarrow> ('a \<Rightarrow> ('e, 'b) result) \<Rightarrow> ('e, 'b) result" where
  "and_then r f = (case r of Inl e \<Rightarrow> Inl e | Inr x \<Rightarrow> f x)"

definition guard_err :: "bool \<Rightarrow> 'e \<Rightarrow> ('e, unit) result" where
  "guard_err bad e = (if bad then Inl e else Inr ())"

definition is_ok :: "('e, 'a) result \<Rightarrow> bool" where
  "is_ok r = (case r of Inl _ \<Rightarrow> False | Inr _ \<Rightarrow> True)"

section \<open>Strings\<close>

definition lit :: "string \<Rightarrow> rstr" where
  "lit s = map of_char s"

text \<open>Bytes of one scalar value in UTF-8.\<close>

definition utf8_char_len :: "rchar \<Rightarrow> nat" where
  "utf8_char_len c = (if c < 128 then 1 else if c < 2048 then 2 else if c < 65536 then 3 else 4)"

definition utf8_len :: "rstr \<Rightarrow> nat" where
  "utf8_len s = sum_list (map utf8_char_len s)"

definition ascii_lowercase :: "rchar \<Rightarrow> bool" where
  "ascii_lowercase c \<longleftrightarrow> 97 \<le> c \<and> c \<le> 122"

definition ascii_uppercase :: "rchar \<Rightarrow> bool" where
  "ascii_uppercase c \<longleftrightarrow> 65 \<le> c \<and> c \<le> 90"

definition ascii_digit :: "rchar \<Rightarrow> bool" where
  "ascii_digit c \<longleftrightarrow> 48 \<le> c \<and> c \<le> 57"

definition ascii_alphanumeric :: "rchar \<Rightarrow> bool" where
  "ascii_alphanumeric c \<longleftrightarrow> ascii_lowercase c \<or> ascii_uppercase c \<or> ascii_digit c"

text \<open>\<open>char::to_ascii_lowercase\<close> leaves everything but \<open>A\<close> to \<open>Z\<close> alone.\<close>

definition to_ascii_lowercase :: "rchar \<Rightarrow> rchar" where
  "to_ascii_lowercase c = (if ascii_uppercase c then c + 32 else c)"

text \<open>\<open>char::is_control\<close>: general category Cc.\<close>

definition is_control :: "rchar \<Rightarrow> bool" where
  "is_control c \<longleftrightarrow> c < 32 \<or> (127 \<le> c \<and> c \<le> 159)"

text \<open>\<open>char::is_whitespace\<close>: the Unicode property White_Space.\<close>

definition is_whitespace :: "rchar \<Rightarrow> bool" where
  "is_whitespace c \<longleftrightarrow>
     (9 \<le> c \<and> c \<le> 13) \<or> c = 32 \<or> c = 133 \<or> c = 160 \<or> c = 5760 \<or> (8192 \<le> c \<and> c \<le> 8202) \<or>
     c = 8232 \<or> c = 8233 \<or> c = 8239 \<or> c = 8287 \<or> c = 12288"

text \<open>\<open>str::trim_matches\<close> with a predicate.\<close>

definition trim_matches :: "(rchar \<Rightarrow> bool) \<Rightarrow> rstr \<Rightarrow> rstr" where
  "trim_matches p s = rev (dropWhile p (rev (dropWhile p s)))"

section \<open>Lemmas on results\<close>

lemma and_then_Inl [simp]: "and_then (Inl e) f = Inl e"
  by (simp add: and_then_def)

lemma and_then_Inr [simp]: "and_then (Inr x) f = f x"
  by (simp add: and_then_def)

lemma and_then_eq_Inr [result_simps]:
  "and_then r f = Inr y \<longleftrightarrow> (\<exists>x. r = Inr x \<and> f x = Inr y)"
  by (cases r) auto

lemma and_then_eq_Inl [result_simps]:
  "and_then r f = Inl e \<longleftrightarrow> r = Inl e \<or> (\<exists>x. r = Inr x \<and> f x = Inl e)"
  by (cases r) auto

lemma guard_err_Inr [simp, result_simps]: "guard_err b e = Inr u \<longleftrightarrow> \<not> b"
  by (simp add: guard_err_def)

lemma guard_err_Inl [simp, result_simps]: "guard_err b e = Inl e' \<longleftrightarrow> b \<and> e' = e"
  by (auto simp: guard_err_def)

lemma and_then_guard [simp]: "and_then (guard_err b e) f = (if b then Inl e else f ())"
  by (simp add: guard_err_def)

lemma ex_unit: "(\<exists>u :: unit. P u) \<longleftrightarrow> P ()"
  by auto

lemma is_ok_simps [simp]: "is_ok (Inr x)" "\<not> is_ok (Inl e)"
  by (simp_all add: is_ok_def)

section \<open>Lemmas on strings\<close>

lemma utf8_len_simps [simp]:
  "utf8_len [] = 0" "utf8_len (c # s) = utf8_char_len c + utf8_len s"
  "utf8_len (s @ t) = utf8_len s + utf8_len t"
  by (simp_all add: utf8_len_def)

lemma utf8_len_ascii: "\<forall>c \<in> set s. c < 128 \<Longrightarrow> utf8_len s = length s"
  by (induction s) (auto simp: utf8_char_len_def)

lemma trim_matches_subset: "set (trim_matches p s) \<subseteq> set s"
  by (auto simp: trim_matches_def dest!: set_dropWhileD)

lemma length_trim_matches: "length (trim_matches p s) \<le> length s"
proof -
  have "length (dropWhile p (rev (dropWhile p s))) \<le> length (dropWhile p s)"
    using length_dropWhile_le [of p "rev (dropWhile p s)"] by simp
  also have "\<dots> \<le> length s" by (rule length_dropWhile_le)
  finally show ?thesis by (simp add: trim_matches_def)
qed

lemma trim_matches_hd: "trim_matches p s \<noteq> [] \<Longrightarrow> \<not> p (hd (trim_matches p s))"
proof -
  assume ne: "trim_matches p s \<noteq> []"
  let ?d = "dropWhile p s"
  have split: "rev (dropWhile p (rev ?d)) @ rev (takeWhile p (rev ?d)) = ?d"
    by (metis rev_append rev_rev_ident takeWhile_dropWhile_id)
  have dne: "?d \<noteq> []" using ne by (metis dropWhile.simps(1) rev.simps(1) trim_matches_def)
  have "hd (trim_matches p s) = hd ?d"
    using ne split by (metis hd_append2 trim_matches_def)
  with dne show ?thesis using hd_dropWhile by metis
qed

lemma trim_matches_last: "trim_matches p s \<noteq> [] \<Longrightarrow> \<not> p (last (trim_matches p s))"
  by (metis hd_dropWhile last_rev rev_is_Nil_conv trim_matches_def)

lemma trim_matches_id:
  "s = [] \<or> (\<not> p (hd s) \<and> \<not> p (last s)) \<Longrightarrow> trim_matches p s = s"
proof (cases "s = []")
  case False
  assume "s = [] \<or> (\<not> p (hd s) \<and> \<not> p (last s))"
  with False have h: "\<not> p (hd s)" and l: "\<not> p (hd (rev s))" by (auto simp: hd_rev)
  from h False have "dropWhile p s = s" by (metis dropWhile_eq_self_iff)
  moreover from l False have "dropWhile p (rev s) = rev s"
    by (metis dropWhile_eq_self_iff)
  ultimately show ?thesis by (simp add: trim_matches_def)
qed (simp add: trim_matches_def)

lemma trim_matches_idem [simp]: "trim_matches p (trim_matches p s) = trim_matches p s"
  using trim_matches_id trim_matches_hd trim_matches_last by metis

end
