(* ===== verification/Call_Types.thy ===== *)
theory Call_Types
  imports Prelude
begin

text \<open>
  The data of the call aggregate (\<open>src/call_engine/domain.rs\<close>): identifiers, the three
  monotonic counters, the enumerations, failure details, legs, deadlines, commands, effect
  intents and errors. The constructors carry the source's names and are written qualified
  (\<open>CallState.Pending\<close>, \<open>LegState.Pending\<close>) wherever they are used; record fields carry
  the name of their struct as a prefix. The fixed array of two legs is a pair.
\<close>

section \<open>Identifiers\<close>

datatype CallId = CallId (call_uuid: uuid)
datatype LegId = LegId (leg_uuid: uuid)
datatype TenantId = TenantId (tenant_str: rstr)

section \<open>Generation counters\<close>

definition MAX_PERSISTED_GENERATION :: u64 where
  "MAX_PERSISTED_GENERATION = 9223372036854775807"

datatype AggregateVersion = AggregateVersion (version_value: u64)
datatype BindingGeneration = BindingGeneration (binding_value: u64)
datatype DeadlineGeneration = DeadlineGeneration (deadline_value: u64)

instantiation AggregateVersion :: linorder
begin
definition less_eq_AggregateVersion :: "AggregateVersion \<Rightarrow> AggregateVersion \<Rightarrow> bool" where
  "less_eq_AggregateVersion a b \<longleftrightarrow> version_value a \<le> version_value b"
definition less_AggregateVersion :: "AggregateVersion \<Rightarrow> AggregateVersion \<Rightarrow> bool" where
  "less_AggregateVersion a b \<longleftrightarrow> version_value a < version_value b"
instance
  by standard
    (auto simp: less_eq_AggregateVersion_def less_AggregateVersion_def AggregateVersion.expand)
end

instantiation BindingGeneration :: linorder
begin
definition less_eq_BindingGeneration :: "BindingGeneration \<Rightarrow> BindingGeneration \<Rightarrow> bool" where
  "less_eq_BindingGeneration a b \<longleftrightarrow> binding_value a \<le> binding_value b"
definition less_BindingGeneration :: "BindingGeneration \<Rightarrow> BindingGeneration \<Rightarrow> bool" where
  "less_BindingGeneration a b \<longleftrightarrow> binding_value a < binding_value b"
instance
  by standard
    (auto simp: less_eq_BindingGeneration_def less_BindingGeneration_def BindingGeneration.expand)
end

instantiation DeadlineGeneration :: linorder
begin
definition less_eq_DeadlineGeneration :: "DeadlineGeneration \<Rightarrow> DeadlineGeneration \<Rightarrow> bool" where
  "less_eq_DeadlineGeneration a b \<longleftrightarrow> deadline_value a \<le> deadline_value b"
definition less_DeadlineGeneration :: "DeadlineGeneration \<Rightarrow> DeadlineGeneration \<Rightarrow> bool" where
  "less_DeadlineGeneration a b \<longleftrightarrow> deadline_value a < deadline_value b"
instance
  by standard
    (auto simp: less_eq_DeadlineGeneration_def less_DeadlineGeneration_def
      DeadlineGeneration.expand)
end

section \<open>Enumerations\<close>

datatype LegDirection = Inbound | Outbound

datatype SignalingInitiator = Bridgefu | Remote

datatype MediaFlow = SendReceive | SendOnly | ReceiveOnly | Inactive

datatype LegKind =
  Sip | InteractiveWebRtc | Whip | Whep | AmazonConnect | Twilio | Telnyx | Vonage

datatype CallState = Pending | Connecting | Active | Transferring | Ending | Ended | Failed

datatype LegState =
  Pending | AwaitingAttach | Signaling | Connected | Held | Ending | Ended | Failed

datatype DeadlineKind = Setup | Media | Transfer | Ending

datatype SourceBeforeAnswerTermination = Cancelled | RemoteEnded | Failed

datatype StopLegReason = Requested | PeerEnded | Failure | DeadlineExpired

datatype CommandDisposition = Applied | IgnoredNoop | IgnoredStaleGeneration

section \<open>Structures\<close>

record FailureDetails =
  failure_code :: rstr
  failure_message :: rstr
  failure_retryable :: bool

datatype TerminalOutcome = Ended | Failed FailureDetails
datatype TransferResult = Completed | Rejected FailureDetails
datatype LegReplacementResult = Connected | Rejected FailureDetails

record LegSpec =
  spec_direction :: LegDirection
  spec_kind :: LegKind

record LegSemantics =
  sem_signaling_initiator :: SignalingInitiator
  sem_media_flow :: MediaFlow

record Leg =
  leg_id :: LegId
  leg_direction :: LegDirection
  leg_kind :: LegKind
  leg_signaling_initiator :: "SignalingInitiator option"
  leg_media_flow :: MediaFlow
  leg_state :: LegState
  leg_binding_generation :: BindingGeneration
  leg_replacement_generation_cursor :: "BindingGeneration option"
  leg_created_at :: time
  leg_state_changed_at :: time
  leg_connected_at :: "time option"
  leg_ended_at :: "time option"
  leg_failure :: "FailureDetails option"

record DeadlineSlot =
  slot_generation :: DeadlineGeneration
  slot_due_at :: "time option"

record CallDeadlines =
  deadline_setup :: DeadlineSlot
  deadline_media :: DeadlineSlot
  deadline_transfer :: DeadlineSlot
  deadline_ending :: DeadlineSlot

record LegReplacement =
  repl_leg_id :: LegId
  repl_previous_binding_generation :: BindingGeneration
  repl_pending_binding_generation :: BindingGeneration
  repl_pending_kind :: LegKind

record CallAggregate =
  call_id :: CallId
  call_tenant_id :: TenantId
  call_version :: AggregateVersion
  call_state :: CallState
  call_legs :: "Leg \<times> Leg"
  call_deadlines :: CallDeadlines
  call_terminal_outcome :: "TerminalOutcome option"
  call_replacement :: "LegReplacement option"
  call_created_at :: time
  call_updated_at :: time
  call_state_changed_at :: time

section \<open>Commands, effects, decisions, errors\<close>

datatype CallCommand =
  StartConnecting time time
| SetLegState time LegId BindingGeneration LegState "FailureDetails option"
| SourceTerminatedBeforeAnswer time LegId BindingGeneration SourceBeforeAnswerTermination
| ProviderMediaStarted time LegId BindingGeneration
| ProviderMediaAttached time LegId BindingGeneration
| RotateLegBinding time LegId BindingGeneration
| ArmDeadline time DeadlineKind time
| BeginTransfer time time
| BeginLegReplacement time LegId LegKind time
| FinishTransfer time DeadlineGeneration TransferResult
| FinishLegReplacement time DeadlineGeneration BindingGeneration LegReplacementResult
| BeginEnding time "time option" StopLegReason
| DeadlineElapsed time DeadlineKind DeadlineGeneration "time option"

text \<open>\<open>CallCommand::at\<close>.\<close>

fun command_at :: "CallCommand \<Rightarrow> time" where
  "command_at (StartConnecting at _) = at"
| "command_at (SetLegState at _ _ _ _) = at"
| "command_at (SourceTerminatedBeforeAnswer at _ _ _) = at"
| "command_at (ProviderMediaStarted at _ _) = at"
| "command_at (ProviderMediaAttached at _ _) = at"
| "command_at (RotateLegBinding at _ _) = at"
| "command_at (ArmDeadline at _ _) = at"
| "command_at (BeginTransfer at _) = at"
| "command_at (BeginLegReplacement at _ _ _) = at"
| "command_at (FinishTransfer at _ _) = at"
| "command_at (FinishLegReplacement at _ _ _) = at"
| "command_at (BeginEnding at _ _) = at"
| "command_at (DeadlineElapsed at _ _ _) = at"

datatype EffectIntent =
  StartLeg LegId BindingGeneration LegKind LegDirection
| ConnectProviderDestination LegId BindingGeneration
| AwaitLegAttachment LegId BindingGeneration
| BridgeMedia LegId LegId
| UnbridgeMedia LegId LegId
| StopLeg LegId BindingGeneration StopLegReason
| ScheduleDeadline DeadlineKind DeadlineGeneration time
| CancelDeadline DeadlineKind DeadlineGeneration
| ExecuteTransfer DeadlineGeneration
| StartLegReplacement LegId BindingGeneration BindingGeneration LegKind DeadlineGeneration
| AbortLegReplacement LegId BindingGeneration
| CompensateTransfer FailureDetails

record CommandResult =
  result_at :: time
  result_effects :: "EffectIntent list"
  result_disposition :: CommandDisposition

record CallDecision =
  decision_aggregate :: CallAggregate
  decision_effects :: "EffectIntent list"
  decision_disposition :: CommandDisposition

datatype DomainError =
  InvalidIdentifier string
| InvalidTenantId
| UnsafeFailureDetails
| DuplicateLegId LegId
| UnknownLeg LegId
| InvalidCallTransition CallState string
| InvalidLegTransition LegState LegState
| FailureRequired
| UnexpectedFailure
| TimestampRegression
| DeadlineNotFuture
| DeadlineNotElapsed
| FutureBindingGeneration LegId u64 u64
| FutureDeadlineGeneration DeadlineKind u64 u64
| GenerationExhausted string
| InvalidSnapshot string
| InvalidMediaPlan string

section \<open>Operations on the small types\<close>

definition CallId_from_uuid :: "uuid \<Rightarrow> (DomainError, CallId) result" where
  "CallId_from_uuid v = (if v = 0 then Inl (InvalidIdentifier ''call'') else Inr (CallId v))"

definition LegId_from_uuid :: "uuid \<Rightarrow> (DomainError, LegId) result" where
  "LegId_from_uuid v = (if v = 0 then Inl (InvalidIdentifier ''leg'') else Inr (LegId v))"

definition MAX_TENANT_ID_BYTES :: nat where
  "MAX_TENANT_ID_BYTES = 128"

text \<open>The byte test of \<open>TenantId::parse\<close>: a byte of a multi-byte sequence is never ASCII,
  so testing the scalar values is the same.\<close>

definition TenantId_parse :: "rstr \<Rightarrow> (DomainError, TenantId) result" where
  "TenantId_parse v =
     (if v \<noteq> [] \<and> utf8_len v \<le> MAX_TENANT_ID_BYTES \<and>
         list_all (\<lambda>b. ascii_alphanumeric b \<or> b \<in> set (lit ''._:-'')) v
      then Inr (TenantId v) else Inl InvalidTenantId)"

definition version_next :: "AggregateVersion \<Rightarrow> (DomainError, AggregateVersion) result" where
  "version_next v =
     (if version_value v \<ge> MAX_PERSISTED_GENERATION
      then Inl (GenerationExhausted ''aggregate_version'')
      else Inr (AggregateVersion (version_value v + 1)))"

definition binding_initial :: BindingGeneration where
  "binding_initial = BindingGeneration 1"

definition binding_next :: "BindingGeneration \<Rightarrow> (DomainError, BindingGeneration) result" where
  "binding_next g =
     (if binding_value g \<ge> MAX_PERSISTED_GENERATION
      then Inl (GenerationExhausted ''binding_generation'')
      else Inr (BindingGeneration (binding_value g + 1)))"

definition deadline_next :: "DeadlineGeneration \<Rightarrow> (DomainError, DeadlineGeneration) result" where
  "deadline_next g =
     (if deadline_value g \<ge> MAX_PERSISTED_GENERATION
      then Inl (GenerationExhausted ''deadline_generation'')
      else Inr (DeadlineGeneration (deadline_value g + 1)))"

text \<open>The three \<open>Deserialize\<close> implementations reject values outside the signed range; a
  binding generation is also nonzero.\<close>

definition version_decode :: "u64 \<Rightarrow> AggregateVersion option" where
  "version_decode v = (if v > MAX_PERSISTED_GENERATION then None else Some (AggregateVersion v))"

definition binding_decode :: "u64 \<Rightarrow> BindingGeneration option" where
  "binding_decode v =
     (if v = 0 \<or> v > MAX_PERSISTED_GENERATION then None else Some (BindingGeneration v))"

definition deadline_decode :: "u64 \<Rightarrow> DeadlineGeneration option" where
  "deadline_decode v =
     (if v > MAX_PERSISTED_GENERATION then None else Some (DeadlineGeneration v))"

fun initiator_legacy_default :: "LegDirection \<Rightarrow> SignalingInitiator" where
  "initiator_legacy_default Inbound = Remote"
| "initiator_legacy_default Outbound = Bridgefu"

fun source_enabled :: "MediaFlow \<Rightarrow> bool" where
  "source_enabled SendReceive = True"
| "source_enabled ReceiveOnly = True"
| "source_enabled SendOnly = False"
| "source_enabled Inactive = False"

fun sink_enabled :: "MediaFlow \<Rightarrow> bool" where
  "sink_enabled SendReceive = True"
| "sink_enabled SendOnly = True"
| "sink_enabled ReceiveOnly = False"
| "sink_enabled Inactive = False"

definition call_is_terminal :: "CallState \<Rightarrow> bool" where
  "call_is_terminal s \<longleftrightarrow> s \<in> {CallState.Ended, CallState.Failed}"

definition leg_is_terminal :: "LegState \<Rightarrow> bool" where
  "leg_is_terminal s \<longleftrightarrow> s \<in> {LegState.Ended, LegState.Failed}"

definition semantics_legacy_default :: "LegDirection \<Rightarrow> LegSemantics" where
  "semantics_legacy_default d =
     \<lparr>sem_signaling_initiator = initiator_legacy_default d, sem_media_flow = SendReceive\<rparr>"

definition slot_default :: DeadlineSlot where
  "slot_default = \<lparr>slot_generation = DeadlineGeneration 0, slot_due_at = None\<rparr>"

definition deadlines_default :: CallDeadlines where
  "deadlines_default =
     \<lparr>deadline_setup = slot_default, deadline_media = slot_default,
      deadline_transfer = slot_default, deadline_ending = slot_default\<rparr>"

text \<open>\<open>CallDeadlines::get\<close> and the write through \<open>CallDeadlines::get_mut\<close>.\<close>

fun deadlines_get :: "CallDeadlines \<Rightarrow> DeadlineKind \<Rightarrow> DeadlineSlot" where
  "deadlines_get d Setup = deadline_setup d"
| "deadlines_get d Media = deadline_media d"
| "deadlines_get d Transfer = deadline_transfer d"
| "deadlines_get d DeadlineKind.Ending = deadline_ending d"

fun deadlines_put :: "CallDeadlines \<Rightarrow> DeadlineKind \<Rightarrow> DeadlineSlot \<Rightarrow> CallDeadlines" where
  "deadlines_put d Setup s = d\<lparr>deadline_setup := s\<rparr>"
| "deadlines_put d Media s = d\<lparr>deadline_media := s\<rparr>"
| "deadlines_put d Transfer s = d\<lparr>deadline_transfer := s\<rparr>"
| "deadlines_put d DeadlineKind.Ending s = d\<lparr>deadline_ending := s\<rparr>"

section \<open>Lemmas\<close>

lemma deadlines_get_put [simp]:
  "deadlines_get (deadlines_put d k s) k' = (if k' = k then s else deadlines_get d k')"
  by (cases k; cases k') auto

lemma deadlines_eqI:
  fixes d e :: CallDeadlines
  assumes "\<And>k. deadlines_get d k = deadlines_get e k"
  shows "d = e"
  using assms [of Setup] assms [of Media] assms [of Transfer] assms [of DeadlineKind.Ending]
  by simp

lemma deadlines_put_same [simp]: "deadlines_put d k (deadlines_get d k) = d"
  by (cases k) auto

lemma deadlines_default_due [simp]: "slot_due_at (deadlines_get deadlines_default k) = None"
  by (cases k) (auto simp: deadlines_default_def slot_default_def)

lemma word_succ_below_max:
  fixes v :: u64
  assumes "\<not> v \<ge> MAX_PERSISTED_GENERATION"
  shows "unat (v + 1) = Suc (unat v)" and "v < v + 1" and "v + 1 \<le> MAX_PERSISTED_GENERATION"
    and "v + 1 \<noteq> 0"
proof -
  have lt: "unat v < 9223372036854775807"
    using assms by (simp add: MAX_PERSISTED_GENERATION_def word_less_nat_alt not_le)
  show eq: "unat (v + 1) = Suc (unat v)"
    using lt by (simp add: unat_word_ariths)
  show "v < v + 1" using eq by (simp add: word_less_nat_alt)
  show "v + 1 \<le> MAX_PERSISTED_GENERATION"
    using eq lt by (simp add: word_le_nat_alt MAX_PERSISTED_GENERATION_def)
  show "v + 1 \<noteq> 0" using eq by (metis nat.distinct(1) unat_0)
qed

lemma version_next_Inr:
  "version_next v = Inr v' \<Longrightarrow>
     unat (version_value v') = Suc (unat (version_value v)) \<and> v < v' \<and>
     version_value v' \<le> MAX_PERSISTED_GENERATION"
  by (auto simp: version_next_def less_AggregateVersion_def word_succ_below_max split: if_splits)

lemma binding_next_Inr:
  "binding_next g = Inr g' \<Longrightarrow>
     unat (binding_value g') = Suc (unat (binding_value g)) \<and> g < g' \<and>
     binding_value g' \<le> MAX_PERSISTED_GENERATION \<and> binding_value g' \<noteq> 0"
  by (auto simp: binding_next_def less_BindingGeneration_def word_succ_below_max split: if_splits)

lemma deadline_next_Inr:
  "deadline_next g = Inr g' \<Longrightarrow>
     unat (deadline_value g') = Suc (unat (deadline_value g)) \<and> g < g' \<and>
     deadline_value g' \<le> MAX_PERSISTED_GENERATION"
  by (auto simp: deadline_next_def less_DeadlineGeneration_def word_succ_below_max
      split: if_splits)

end
