(* ===== verification/Failure_Details.thy ===== *)
theory Failure_Details
  imports Call_Types
begin

text \<open>
  \<open>FailureDetails\<close> of \<open>src/call_engine/domain.rs\<close>: the checked constructor, the
  normalisation of untrusted provider text, and the two validity tests. The lemmas show that
  normalised text always passes the checks of the constructor and that normalising twice
  changes nothing.
\<close>

section \<open>Definitions\<close>

definition MAX_FAILURE_CODE_BYTES :: nat where
  "MAX_FAILURE_CODE_BYTES = 64"

definition MAX_FAILURE_MESSAGE_CHARS :: nat where
  "MAX_FAILURE_MESSAGE_CHARS = 256"

definition valid_failure_code :: "rstr \<Rightarrow> bool" where
  "valid_failure_code v \<longleftrightarrow>
     v \<noteq> [] \<and> utf8_len v \<le> MAX_FAILURE_CODE_BYTES \<and>
     list_all (\<lambda>b. ascii_lowercase b \<or> ascii_digit b \<or> b \<in> set (lit ''._-'')) v"

definition valid_failure_message :: "rstr \<Rightarrow> bool" where
  "valid_failure_message v \<longleftrightarrow>
     v \<noteq> [] \<and> length v \<le> MAX_FAILURE_MESSAGE_CHARS \<and> \<not> list_ex is_control v"

definition FailureDetails_new ::
    "rstr \<Rightarrow> rstr \<Rightarrow> bool \<Rightarrow> (DomainError, FailureDetails) result" where
  "FailureDetails_new code message retryable =
     (if \<not> valid_failure_code code \<or> \<not> valid_failure_message message
      then Inl UnsafeFailureDetails
      else Inr \<lparr>failure_code = code, failure_message = message, failure_retryable = retryable\<rparr>)"

text \<open>One character of the code, after \<open>to_ascii_lowercase\<close>.\<close>

definition safe_code_char :: "rchar \<Rightarrow> rchar" where
  "safe_code_char c =
     (if ascii_alphanumeric c \<or> c \<in> set (lit ''._-'') then c else of_char CHR ''_'')"

definition sanitize_code :: "rstr \<Rightarrow> rstr" where
  "sanitize_code code =
     (let safe_code = take MAX_FAILURE_CODE_BYTES
            (map safe_code_char (map to_ascii_lowercase code));
          safe_code = trim_matches (\<lambda>c. c = of_char CHR ''_'') safe_code
      in if safe_code = [] then lit ''unknown_failure'' else safe_code)"

text \<open>The loop over the characters of the message, with its early \<open>break\<close>.\<close>

fun sanitize_loop :: "rstr \<Rightarrow> rstr \<Rightarrow> bool \<Rightarrow> rstr" where
  "sanitize_loop [] safe_message previous_whitespace = safe_message"
| "sanitize_loop (character # rest) safe_message previous_whitespace =
     (let character = (if is_control character then 32 else character);
          (safe_message, previous_whitespace) =
            (if is_whitespace character
             then (if \<not> previous_whitespace \<and> safe_message \<noteq> [] then safe_message @ [32]
                   else safe_message, True)
             else (safe_message @ [character], False))
      in if length safe_message \<ge> MAX_FAILURE_MESSAGE_CHARS then safe_message
         else sanitize_loop rest safe_message previous_whitespace)"

definition sanitize_message :: "rstr \<Rightarrow> rstr" where
  "sanitize_message message =
     (let safe_message = trim_matches is_whitespace (sanitize_loop message [] False)
      in if safe_message = [] then lit ''operation failed'' else safe_message)"

definition FailureDetails_sanitized :: "rstr \<Rightarrow> rstr \<Rightarrow> bool \<Rightarrow> FailureDetails" where
  "FailureDetails_sanitized code message retryable =
     \<lparr>failure_code = sanitize_code code, failure_message = sanitize_message message,
      failure_retryable = retryable\<rparr>"

section \<open>Normal forms\<close>

text \<open>A normalised message: no control characters, single blanks only.\<close>

definition squeezed :: "rstr \<Rightarrow> bool" where
  "squeezed s \<longleftrightarrow>
     (\<forall>c \<in> set s. \<not> is_control c \<and> (is_whitespace c \<longrightarrow> c = 32)) \<and>
     successively (\<lambda>a b. \<not> (a = 32 \<and> b = 32)) s"

declare sanitize_loop.simps(2) [simp del]

lemma of_char_underscore [simp]: "(of_char CHR ''_'' :: nat) = 95"
  by simp

lemma lit_code_chars [simp]: "set (lit ''._-'') = {46, 95, 45}"
  by (simp add: lit_def)

lemmas ascii_defs = ascii_alphanumeric_def ascii_lowercase_def ascii_uppercase_def ascii_digit_def
lemmas char_defs = is_control_def is_whitespace_def

lemma blank_facts [simp]: "is_whitespace 32" "\<not> is_control 32"
  by (simp_all add: char_defs)

lemma safe_code_char_lower:
  "ascii_lowercase (safe_code_char (to_ascii_lowercase c)) \<or>
   ascii_digit (safe_code_char (to_ascii_lowercase c)) \<or>
   safe_code_char (to_ascii_lowercase c) \<in> {46, 95, 45}"
  by (auto simp: safe_code_char_def to_ascii_lowercase_def ascii_defs)

lemma sanitize_code_chars:
  assumes "c \<in> set (sanitize_code code)"
  shows "ascii_lowercase c \<or> ascii_digit c \<or> c \<in> {46, 95, 45}"
proof -
  let ?raw = "take MAX_FAILURE_CODE_BYTES (map safe_code_char (map to_ascii_lowercase code))"
  have "c \<in> set ?raw \<or> c \<in> set (lit ''unknown_failure'')"
    using assms trim_matches_subset
    by (fastforce simp: sanitize_code_def Let_def split: if_splits)
  then show ?thesis
  proof
    assume "c \<in> set ?raw"
    then have "c \<in> set (map safe_code_char (map to_ascii_lowercase code))"
      using set_take_subset by fastforce
    then show ?thesis using safe_code_char_lower by auto
  qed (auto simp: lit_def ascii_defs)
qed

lemma sanitize_code_length: "length (sanitize_code code) \<le> MAX_FAILURE_CODE_BYTES"
proof -
  let ?raw = "take MAX_FAILURE_CODE_BYTES (map safe_code_char (map to_ascii_lowercase code))"
  have "length (trim_matches (\<lambda>c. c = 95) ?raw) \<le> length ?raw" by (rule length_trim_matches)
  also have "\<dots> \<le> MAX_FAILURE_CODE_BYTES" by simp
  finally show ?thesis
    by (simp add: sanitize_code_def Let_def MAX_FAILURE_CODE_BYTES_def lit_def)
qed

lemma sanitize_code_nonempty: "sanitize_code code \<noteq> []"
  by (simp add: sanitize_code_def Let_def lit_def)

lemma sanitize_code_valid: "valid_failure_code (sanitize_code code)"
proof -
  have "\<forall>c \<in> set (sanitize_code code). c < 128"
    using sanitize_code_chars by (fastforce simp: ascii_defs)
  then have "utf8_len (sanitize_code code) \<le> MAX_FAILURE_CODE_BYTES"
    using sanitize_code_length by (simp add: utf8_len_ascii)
  then show ?thesis
    using sanitize_code_chars sanitize_code_nonempty
    by (auto simp: valid_failure_code_def list_all_iff)
qed

text \<open>The loop keeps a normalised prefix that does not start with a blank.\<close>

lemma squeezed_snoc:
  "squeezed (s @ [c]) \<longleftrightarrow>
     squeezed s \<and> \<not> is_control c \<and> (is_whitespace c \<longrightarrow> c = 32) \<and>
     \<not> (s \<noteq> [] \<and> last s = 32 \<and> c = 32)"
  by (auto simp: squeezed_def successively_append_iff)

definition loop_inv :: "rstr \<Rightarrow> bool \<Rightarrow> bool" where
  "loop_inv acc prev \<longleftrightarrow>
     squeezed acc \<and> (acc \<noteq> [] \<longrightarrow> hd acc \<noteq> 32 \<and> prev = (last acc = 32))"

lemma loop_inv_step:
  assumes "loop_inv acc prev" "\<not> is_control c"
  shows "loop_inv (if is_whitespace c then (if \<not> prev \<and> acc \<noteq> [] then acc @ [32] else acc)
    else acc @ [c]) (is_whitespace c)"
proof (cases "acc = []")
  case True
  have "c \<noteq> 32" if "\<not> is_whitespace c" using that blank_facts(1) by metis
  with True assms(2) show ?thesis by (auto simp: loop_inv_def squeezed_def)
next
  case False
  have "c \<noteq> 32" if "\<not> is_whitespace c" using that blank_facts(1) by metis
  with False assms show ?thesis by (simp add: loop_inv_def squeezed_snoc)
qed

lemma sanitize_loop_inv:
  assumes "loop_inv acc prev" "length acc < MAX_FAILURE_MESSAGE_CHARS"
  shows "squeezed (sanitize_loop cs acc prev) \<and>
    (sanitize_loop cs acc prev \<noteq> [] \<longrightarrow> hd (sanitize_loop cs acc prev) \<noteq> 32) \<and>
    length (sanitize_loop cs acc prev) \<le> MAX_FAILURE_MESSAGE_CHARS"
  using assms
proof (induction cs arbitrary: acc prev)
  case Nil
  then show ?case by (simp add: loop_inv_def)
next
  case (Cons c cs)
  define c' where "c' = (if is_control c then 32 else c)"
  define acc' where "acc' = (if is_whitespace c'
     then (if \<not> prev \<and> acc \<noteq> [] then acc @ [32] else acc) else acc @ [c'])"
  have step: "sanitize_loop (c # cs) acc prev =
     (if length acc' \<ge> MAX_FAILURE_MESSAGE_CHARS then acc'
      else sanitize_loop cs acc' (is_whitespace c'))"
    by (simp add: c'_def acc'_def sanitize_loop.simps(2) Let_def)
  have inv: "loop_inv acc' (is_whitespace c')"
    unfolding acc'_def by (rule loop_inv_step) (use Cons.prems in \<open>simp_all add: c'_def\<close>)
  have len: "length acc' \<le> MAX_FAILURE_MESSAGE_CHARS"
    using Cons.prems(2) by (simp add: acc'_def)
  show ?case
    using Cons.IH [OF inv] inv len unfolding step loop_inv_def by (cases "length acc' < MAX_FAILURE_MESSAGE_CHARS") auto
qed

lemma loop_inv_start: "loop_inv [] False"
  by (simp add: loop_inv_def squeezed_def)

lemma max_message_pos: "length [] < MAX_FAILURE_MESSAGE_CHARS"
  by (simp add: MAX_FAILURE_MESSAGE_CHARS_def)

lemmas sanitize_loop_start = sanitize_loop_inv [OF loop_inv_start max_message_pos]

lemma squeezed_appendD: "squeezed (s @ t) \<Longrightarrow> squeezed s \<and> squeezed t"
  by (auto simp: squeezed_def successively_append_iff)

lemma squeezed_trim: "squeezed s \<Longrightarrow> squeezed (trim_matches p s)"
proof -
  assume s: "squeezed s"
  let ?d = "dropWhile p s"
  have "squeezed (takeWhile p s @ ?d)" using s by simp
  then have d: "squeezed ?d" using squeezed_appendD by blast
  have "?d = rev (dropWhile p (rev ?d)) @ rev (takeWhile p (rev ?d))"
    by (metis rev_append rev_rev_ident takeWhile_dropWhile_id)
  with d have "squeezed (rev (dropWhile p (rev ?d)) @ rev (takeWhile p (rev ?d)))"
    by metis
  then show ?thesis using squeezed_appendD unfolding trim_matches_def by blast
qed

lemma sanitize_message_norm:
  "squeezed (sanitize_message m) \<and> sanitize_message m \<noteq> [] \<and>
   length (sanitize_message m) \<le> MAX_FAILURE_MESSAGE_CHARS \<and>
   \<not> is_whitespace (hd (sanitize_message m)) \<and> \<not> is_whitespace (last (sanitize_message m))"
proof (cases "trim_matches is_whitespace (sanitize_loop m [] False) = []")
  case True
  then have "sanitize_message m = lit ''operation failed''"
    by (simp add: sanitize_message_def)
  then show ?thesis
    by (simp add: lit_def squeezed_def char_defs MAX_FAILURE_MESSAGE_CHARS_def)
next
  case False
  then have eq: "sanitize_message m = trim_matches is_whitespace (sanitize_loop m [] False)"
    by (simp add: sanitize_message_def)
  have "length (sanitize_message m) \<le> length (sanitize_loop m [] False)"
    unfolding eq by (rule length_trim_matches)
  then show ?thesis
    using False squeezed_trim sanitize_loop_start [of m]
      trim_matches_hd [of is_whitespace "sanitize_loop m [] False"]
      trim_matches_last [of is_whitespace "sanitize_loop m [] False"]
    by (simp add: eq)
qed

lemma sanitize_message_valid: "valid_failure_message (sanitize_message m)"
  using sanitize_message_norm [of m]
  by (auto simp: valid_failure_message_def squeezed_def list_ex_iff)

text \<open>A normalised message runs through the loop unchanged.\<close>

lemma sanitize_loop_fixed:
  assumes "squeezed (acc @ cs)" "length (acc @ cs) \<le> MAX_FAILURE_MESSAGE_CHARS"
    and "acc = [] \<Longrightarrow> \<not> prev \<and> (cs \<noteq> [] \<longrightarrow> hd cs \<noteq> 32)"
    and "acc \<noteq> [] \<Longrightarrow> prev = (last acc = 32)"
  shows "sanitize_loop cs acc prev = acc @ cs"
  using assms
proof (induction cs arbitrary: acc prev)
  case Nil
  then show ?case by simp
next
  case (Cons c cs)
  have nc: "\<not> is_control c" and blank: "is_whitespace c \<longrightarrow> c = 32"
    using Cons.prems(1) by (auto simp: squeezed_def)
  have gap: "c = 32 \<Longrightarrow> acc \<noteq> [] \<and> \<not> prev"
    using Cons.prems by (cases "acc = []") (auto simp: squeezed_def successively_append_iff)
  have step: "sanitize_loop (c # cs) acc prev =
    (if length (acc @ [c]) \<ge> MAX_FAILURE_MESSAGE_CHARS then acc @ [c]
     else sanitize_loop cs (acc @ [c]) (is_whitespace c))"
    using nc blank gap by (auto simp: sanitize_loop.simps(2) Let_def)
  have "sanitize_loop cs (acc @ [c]) (is_whitespace c) = (acc @ [c]) @ cs"
    using Cons.prems(1,2) blank by (intro Cons.IH) auto
  then show ?case
    using step Cons.prems(2) by (cases cs) (auto split: if_splits)
qed

lemma sanitize_message_idem: "sanitize_message (sanitize_message m) = sanitize_message m"
proof -
  let ?s = "sanitize_message m"
  have n: "squeezed ?s" "?s \<noteq> []" "length ?s \<le> MAX_FAILURE_MESSAGE_CHARS"
    "\<not> is_whitespace (hd ?s)" "\<not> is_whitespace (last ?s)"
    using sanitize_message_norm by blast+
  have "hd ?s \<noteq> 32" using n(4) by (metis blank_facts(1))
  then have "sanitize_loop ?s [] False = ?s"
    using sanitize_loop_fixed [of "[]" ?s False] n by simp
  moreover have "trim_matches is_whitespace ?s = ?s"
    using trim_matches_id n(4,5) by blast
  ultimately show ?thesis using n(2) by (simp add: sanitize_message_def)
qed

lemma sanitize_code_idem: "sanitize_code (sanitize_code code) = sanitize_code code"
proof -
  let ?s = "sanitize_code code"
  have chars: "map safe_code_char (map to_ascii_lowercase ?s) = ?s"
    by (auto simp: safe_code_char_def to_ascii_lowercase_def ascii_defs intro!: map_idI
        dest!: sanitize_code_chars)
  have "trim_matches (\<lambda>c. c = 95) ?s = ?s"
  proof (cases "?s = lit ''unknown_failure''")
    case True
    then show ?thesis by (simp add: lit_def trim_matches_def)
  next
    case False
    then show ?thesis
      by (auto simp: sanitize_code_def Let_def split: if_splits)
  qed
  then show ?thesis
    using chars sanitize_code_length [of code] sanitize_code_nonempty [of code]
    by (subst sanitize_code_def) (simp add: Let_def)
qed

text \<open>
  Whatever a provider reports, the normalised failure passes the checks of the constructor,
  and normalising it again changes nothing.
\<close>

theorem sanitized_failure_accepted:
  fixes code message :: rstr and retryable :: bool
  defines "f \<equiv> FailureDetails_sanitized code message retryable"
  shows "FailureDetails_new (failure_code f) (failure_message f) retryable = Inr f \<and>
    FailureDetails_sanitized (failure_code f) (failure_message f) retryable = f"
  by (simp add: f_def FailureDetails_new_def FailureDetails_sanitized_def sanitize_code_valid
      sanitize_message_valid sanitize_code_idem sanitize_message_idem)

end
