(* ===== verification/Call_Aggregate.thy ===== *)
theory Call_Aggregate
  imports Failure_Details
begin

text \<open>
  Legs and the call aggregate of \<open>src/call_engine/domain.rs\<close>: construction, the accessors
  the transitions use, and \<open>CallAggregate::validate\<close> with its checks in the source's order.
  \<open>valid\<close> is the well-formedness invariant of the aggregate (\<open>validate\<close> returns \<open>Ok\<close>);
  \<open>valid_iff\<close> splits it into the named conjuncts the later proofs use.
\<close>

section \<open>Legs\<close>

definition Leg_new :: "LegId \<Rightarrow> LegSpec \<Rightarrow> LegSemantics \<Rightarrow> time \<Rightarrow> Leg" where
  "Leg_new i spec semantics now =
     \<lparr>leg_id = i, leg_direction = spec_direction spec, leg_kind = spec_kind spec,
      leg_signaling_initiator = Some (sem_signaling_initiator semantics),
      leg_media_flow = sem_media_flow semantics, leg_state = LegState.Pending,
      leg_binding_generation = binding_initial, leg_replacement_generation_cursor = None,
      leg_created_at = now, leg_state_changed_at = now, leg_connected_at = None,
      leg_ended_at = None, leg_failure = None\<rparr>"

definition signaling_initiator :: "Leg \<Rightarrow> SignalingInitiator" where
  "signaling_initiator l =
     (case leg_signaling_initiator l of
        Some initiator \<Rightarrow> initiator
      | None \<Rightarrow> initiator_legacy_default (leg_direction l))"

definition leg_semantics :: "Leg \<Rightarrow> LegSemantics" where
  "leg_semantics l =
     \<lparr>sem_signaling_initiator = signaling_initiator l, sem_media_flow = leg_media_flow l\<rparr>"

definition replacement_generation_cursor :: "Leg \<Rightarrow> BindingGeneration" where
  "replacement_generation_cursor l =
     (case leg_replacement_generation_cursor l of
        Some generation \<Rightarrow> generation
      | None \<Rightarrow> leg_binding_generation l)"

definition next_replacement_binding_generation ::
    "Leg \<Rightarrow> (DomainError, BindingGeneration) result" where
  "next_replacement_binding_generation l = binding_next (replacement_generation_cursor l)"

section \<open>The two leg slots\<close>

datatype LegSlot = Slot0 | Slot1

definition legs_of :: "CallAggregate \<Rightarrow> Leg list" where
  "legs_of a = [fst (call_legs a), snd (call_legs a)]"

fun leg_at :: "CallAggregate \<Rightarrow> LegSlot \<Rightarrow> Leg" where
  "leg_at a Slot0 = fst (call_legs a)"
| "leg_at a Slot1 = snd (call_legs a)"

fun put_leg :: "CallAggregate \<Rightarrow> LegSlot \<Rightarrow> Leg \<Rightarrow> CallAggregate" where
  "put_leg a Slot0 l = a\<lparr>call_legs := (l, snd (call_legs a))\<rparr>"
| "put_leg a Slot1 l = a\<lparr>call_legs := (fst (call_legs a), l)\<rparr>"

definition find_leg :: "CallAggregate \<Rightarrow> LegId \<Rightarrow> Leg option" where
  "find_leg a i = find (\<lambda>l. leg_id l = i) (legs_of a)"

definition leg_index :: "CallAggregate \<Rightarrow> LegId \<Rightarrow> (DomainError, LegSlot) result" where
  "leg_index a i =
     (if leg_id (leg_at a Slot0) = i then Inr Slot0
      else if leg_id (leg_at a Slot1) = i then Inr Slot1
      else Inl (UnknownLeg i))"

section \<open>Validation\<close>

definition validate_media_flows :: "MediaFlow \<Rightarrow> MediaFlow \<Rightarrow> (DomainError, unit) result" where
  "validate_media_flows left right =
     (let left_to_right = source_enabled left \<and> sink_enabled right;
          right_to_left = source_enabled right \<and> sink_enabled left
      in if source_enabled left \<noteq> sink_enabled right \<or> source_enabled right \<noteq> sink_enabled left
         then Inl (InvalidMediaPlan ''each enabled source requires exactly one peer sink'')
         else if \<not> left_to_right \<and> \<not> right_to_left
         then Inl (InvalidMediaPlan ''at least one media direction must be enabled'')
         else Inr ())"

definition outside :: "time \<Rightarrow> time \<Rightarrow> time option \<Rightarrow> bool" where
  "outside lo hi t = (case t of None \<Rightarrow> False | Some at \<Rightarrow> at < lo \<or> at > hi)"

definition validate_leg :: "CallAggregate \<Rightarrow> Leg \<Rightarrow> (DomainError, unit) result" where
  "validate_leg a l =
     (if binding_value (leg_binding_generation l) = 0
      then Inl (InvalidSnapshot ''leg binding generation must be nonzero'')
      else if replacement_generation_cursor l < leg_binding_generation l
      then Inl (InvalidSnapshot ''leg replacement generation cursor precedes current binding'')
      else if leg_created_at l < call_created_at a
         \<or> leg_state_changed_at l < leg_created_at l
         \<or> leg_state_changed_at l > call_updated_at a
         \<or> outside (leg_created_at l) (call_updated_at a) (leg_connected_at l)
         \<or> outside (leg_created_at l) (call_updated_at a) (leg_ended_at l)
      then Inl (InvalidSnapshot ''invalid leg timestamps'')
      else if leg_state l = LegState.Failed \<and> leg_failure l = None
      then Inl (InvalidSnapshot ''failed leg must contain failure details'')
      else if leg_state l \<noteq> LegState.Failed \<and> leg_failure l \<noteq> None
      then Inl (InvalidSnapshot ''only failed leg may contain failure details'')
      else if leg_is_terminal (leg_state l) \<noteq> (leg_ended_at l \<noteq> None)
      then Inl (InvalidSnapshot ''terminal leg timestamp does not match state'')
      else Inr ())"

definition is_failed_outcome :: "TerminalOutcome option \<Rightarrow> bool" where
  "is_failed_outcome t = (case t of Some (TerminalOutcome.Failed _) \<Rightarrow> True | _ \<Rightarrow> False)"

fun validate_state :: "CallState \<Rightarrow> CallAggregate \<Rightarrow> (DomainError, unit) result" where
  "validate_state CallState.Pending a =
     guard_err (list_ex (\<lambda>l. leg_state l \<noteq> LegState.Pending) (legs_of a))
       (InvalidSnapshot ''pending call must contain pending legs'')"
| "validate_state CallState.Connecting a =
     guard_err (list_ex (\<lambda>l. leg_state l \<notin>
         {LegState.Pending, LegState.AwaitingAttach, LegState.Signaling, LegState.Connected})
       (legs_of a))
       (InvalidSnapshot ''connecting call contains an incompatible leg state'')"
| "validate_state CallState.Active a =
     guard_err (list_ex (\<lambda>l. leg_state l \<notin> {LegState.Connected, LegState.Held}) (legs_of a))
       (InvalidSnapshot ''active call legs must be connected or held'')"
| "validate_state CallState.Transferring a =
     guard_err (list_ex (\<lambda>l. leg_state l \<notin> {LegState.Connected, LegState.Held}) (legs_of a))
       (InvalidSnapshot ''active call legs must be connected or held'')"
| "validate_state CallState.Ending a =
     (if call_terminal_outcome a = None \<or>
         list_ex (\<lambda>l. leg_state l \<notin> {LegState.Ending, LegState.Ended, LegState.Failed}) (legs_of a)
      then Inl (InvalidSnapshot ''ending call requires an outcome and ending or terminal legs'')
      else guard_err (list_ex (\<lambda>l. leg_state l = LegState.Failed) (legs_of a)
             \<and> \<not> is_failed_outcome (call_terminal_outcome a))
           (InvalidSnapshot ''failed ending leg requires failed terminal outcome''))"
| "validate_state CallState.Ended a =
     guard_err (call_terminal_outcome a \<noteq> Some TerminalOutcome.Ended \<or>
         list_ex (\<lambda>l. leg_state l \<noteq> LegState.Ended) (legs_of a))
       (InvalidSnapshot ''ended call requires two normally ended legs and normal outcome'')"
| "validate_state CallState.Failed a =
     guard_err (\<not> is_failed_outcome (call_terminal_outcome a) \<or>
         list_ex (\<lambda>l. \<not> leg_is_terminal (leg_state l)) (legs_of a))
       (InvalidSnapshot ''failed call requires two terminal legs and failed outcome'')"

definition due_at :: "CallAggregate \<Rightarrow> DeadlineKind \<Rightarrow> time option" where
  "due_at a k = slot_due_at (deadlines_get (call_deadlines a) k)"

definition generation_of :: "CallAggregate \<Rightarrow> DeadlineKind \<Rightarrow> DeadlineGeneration" where
  "generation_of a k = slot_generation (deadlines_get (call_deadlines a) k)"

definition replacement_mismatch :: "CallAggregate \<Rightarrow> Leg \<Rightarrow> LegReplacement \<Rightarrow> bool" where
  "replacement_mismatch a l r \<longleftrightarrow>
     call_state a \<noteq> CallState.Transferring
     \<or> leg_state l \<noteq> LegState.Held
     \<or> leg_binding_generation l \<noteq> repl_previous_binding_generation r
     \<or> repl_pending_binding_generation r \<noteq> replacement_generation_cursor l
     \<or> repl_pending_binding_generation r \<le> repl_previous_binding_generation r
     \<or> due_at a Transfer = None"

definition validate_replacement :: "CallAggregate \<Rightarrow> (DomainError, unit) result" where
  "validate_replacement a =
     (case call_replacement a of
        None \<Rightarrow> Inr ()
      | Some r \<Rightarrow>
          (case find_leg a (repl_leg_id r) of
             None \<Rightarrow> Inl (InvalidSnapshot ''replacement leg does not belong to call'')
           | Some l \<Rightarrow> guard_err (replacement_mismatch a l r)
               (InvalidSnapshot
                 ''replacement state does not match held leg and transfer deadline'')))"

text \<open>\<open>CallAggregate::deadline_allowed\<close>; \<open>validate\<close> repeats the same table.\<close>

fun deadline_allowed :: "CallState \<Rightarrow> DeadlineKind \<Rightarrow> bool" where
  "deadline_allowed s Setup \<longleftrightarrow> s = CallState.Connecting"
| "deadline_allowed s Media \<longleftrightarrow> s \<in> {CallState.Active, CallState.Transferring}"
| "deadline_allowed s Transfer \<longleftrightarrow> s = CallState.Transferring"
| "deadline_allowed s DeadlineKind.Ending \<longleftrightarrow> s = CallState.Ending"

definition deadline_kinds :: "DeadlineKind list" where
  "deadline_kinds = [Setup, Media, Transfer, DeadlineKind.Ending]"

definition validate :: "CallAggregate \<Rightarrow> (DomainError, unit) result" where
  "validate a =
     (let (l0, l1) = call_legs a in
      and_then (guard_err (leg_id l0 = leg_id l1) (DuplicateLegId (leg_id l0))) (\<lambda>_.
      and_then (validate_media_flows (leg_media_flow l0) (leg_media_flow l1)) (\<lambda>_.
      and_then (guard_err (call_updated_at a < call_created_at a
                  \<or> call_state_changed_at a > call_updated_at a)
                (InvalidSnapshot ''invalid call timestamps'')) (\<lambda>_.
      and_then (validate_leg a l0) (\<lambda>_.
      and_then (validate_leg a l1) (\<lambda>_.
      and_then (validate_state (call_state a) a) (\<lambda>_.
      and_then (validate_replacement a) (\<lambda>_.
      and_then (guard_err (call_state a \<noteq> CallState.Transferring \<and> call_replacement a \<noteq> None)
                (InvalidSnapshot ''replacement exists outside transferring state'')) (\<lambda>_.
      and_then (guard_err (call_state a \<notin> {CallState.Ending, CallState.Ended, CallState.Failed}
                  \<and> call_terminal_outcome a \<noteq> None)
                (InvalidSnapshot ''non-ending call cannot have a terminal outcome'')) (\<lambda>_.
      and_then (guard_err (list_ex (\<lambda>k. due_at a k \<noteq> None \<and> \<not> deadline_allowed (call_state a) k)
                  deadline_kinds)
                (InvalidSnapshot ''deadline is armed in an incompatible call state'')) (\<lambda>_.
      guard_err (call_is_terminal (call_state a)
                  \<and> list_ex (\<lambda>k. due_at a k \<noteq> None) deadline_kinds)
                (InvalidSnapshot ''terminal call cannot have armed deadlines''))))))))))))"

definition valid :: "CallAggregate \<Rightarrow> bool" where
  "valid a \<longleftrightarrow> validate a = Inr ()"

section \<open>Construction\<close>

definition with_ids_and_semantics ::
    "CallId \<Rightarrow> TenantId \<Rightarrow> (LegId \<times> LegSpec) \<times> (LegId \<times> LegSpec) \<Rightarrow>
     LegSemantics \<times> LegSemantics \<Rightarrow> time \<Rightarrow> (DomainError, CallAggregate) result" where
  "with_ids_and_semantics i tenant legs semantics now =
     (if fst (fst legs) = fst (snd legs) then Inl (DuplicateLegId (fst (fst legs)))
      else
        let aggregate =
          \<lparr>call_id = i, call_tenant_id = tenant, call_version = AggregateVersion 0,
           call_state = CallState.Pending,
           call_legs =
             (Leg_new (fst (fst legs)) (snd (fst legs)) (fst semantics) now,
              Leg_new (fst (snd legs)) (snd (snd legs)) (snd semantics) now),
           call_deadlines = deadlines_default, call_terminal_outcome = None,
           call_replacement = None, call_created_at = now, call_updated_at = now,
           call_state_changed_at = now\<rparr>
        in and_then (validate aggregate) (\<lambda>_. Inr aggregate))"

definition with_ids ::
    "CallId \<Rightarrow> TenantId \<Rightarrow> (LegId \<times> LegSpec) \<times> (LegId \<times> LegSpec) \<Rightarrow> time \<Rightarrow>
     (DomainError, CallAggregate) result" where
  "with_ids i tenant legs now =
     with_ids_and_semantics i tenant legs
       (semantics_legacy_default (spec_direction (snd (fst legs))),
        semantics_legacy_default (spec_direction (snd (snd legs)))) now"

section \<open>Lemmas on the leg slots\<close>

lemma legs_of_slots: "legs_of a = [leg_at a Slot0, leg_at a Slot1]"
  by (simp add: legs_of_def)

lemma slot_cases [case_names Slot0 Slot1]: "(i = Slot0 \<Longrightarrow> P) \<Longrightarrow> (i = Slot1 \<Longrightarrow> P) \<Longrightarrow> P"
  by (cases i) auto

lemma all_slots: "(\<forall>i. P i) \<longleftrightarrow> P Slot0 \<and> P Slot1"
proof (intro iffI allI)
  fix i assume "P Slot0 \<and> P Slot1"
  then show "P i" by (cases i) simp_all
qed simp

lemma ex_slots: "(\<exists>i. P i) \<longleftrightarrow> P Slot0 \<or> P Slot1"
  using all_slots [of "\<lambda>i. \<not> P i"] by blast

lemma leg_at_put [simp]: "leg_at (put_leg a i l) j = (if j = i then l else leg_at a j)"
  by (cases i; cases j) auto

lemma put_leg_frame [simp]:
  "call_id (put_leg a i l) = call_id a" "call_tenant_id (put_leg a i l) = call_tenant_id a"
  "call_version (put_leg a i l) = call_version a" "call_state (put_leg a i l) = call_state a"
  "call_deadlines (put_leg a i l) = call_deadlines a"
  "call_terminal_outcome (put_leg a i l) = call_terminal_outcome a"
  "call_replacement (put_leg a i l) = call_replacement a"
  "call_created_at (put_leg a i l) = call_created_at a"
  "call_updated_at (put_leg a i l) = call_updated_at a"
  "call_state_changed_at (put_leg a i l) = call_state_changed_at a"
  by (cases i; simp)+

lemma leg_at_update [simp]:
  "leg_at (a\<lparr>call_version := v\<rparr>) i = leg_at a i"
  "leg_at (a\<lparr>call_state := s\<rparr>) i = leg_at a i"
  "leg_at (a\<lparr>call_deadlines := d\<rparr>) i = leg_at a i"
  "leg_at (a\<lparr>call_terminal_outcome := t\<rparr>) i = leg_at a i"
  "leg_at (a\<lparr>call_replacement := r\<rparr>) i = leg_at a i"
  "leg_at (a\<lparr>call_updated_at := u\<rparr>) i = leg_at a i"
  "leg_at (a\<lparr>call_state_changed_at := u\<rparr>) i = leg_at a i"
  by (cases i; simp)+

lemma list_ex_legs [simp]: "list_ex P (legs_of a) \<longleftrightarrow> (\<exists>i. P (leg_at a i))"
  by (simp add: legs_of_slots ex_slots)

lemma leg_index_Inr: "leg_index a i = Inr j \<Longrightarrow> leg_id (leg_at a j) = i"
  by (auto simp: leg_index_def split: if_splits)

lemma leg_index_at:
  "leg_id (leg_at a Slot0) \<noteq> leg_id (leg_at a Slot1) \<Longrightarrow> leg_index a (leg_id (leg_at a j)) = Inr j"
  by (cases j) (auto simp: leg_index_def)

lemma find_leg_eq:
  "find_leg a i = (case leg_index a i of Inl _ \<Rightarrow> None | Inr j \<Rightarrow> Some (leg_at a j))"
  by (auto simp: find_leg_def leg_index_def legs_of_slots)

lemma due_at_update [simp]:
  "due_at (a\<lparr>call_version := v\<rparr>) k = due_at a k"
  "due_at (a\<lparr>call_state := s\<rparr>) k = due_at a k"
  "due_at (a\<lparr>call_terminal_outcome := t\<rparr>) k = due_at a k"
  "due_at (a\<lparr>call_replacement := r\<rparr>) k = due_at a k"
  "due_at (a\<lparr>call_updated_at := u\<rparr>) k = due_at a k"
  "due_at (a\<lparr>call_state_changed_at := u\<rparr>) k = due_at a k"
  "due_at (put_leg a i l) k = due_at a k"
  by (simp_all add: due_at_def)

lemma generation_of_update [simp]:
  "generation_of (a\<lparr>call_version := v\<rparr>) k = generation_of a k"
  "generation_of (a\<lparr>call_state := s\<rparr>) k = generation_of a k"
  "generation_of (a\<lparr>call_terminal_outcome := t\<rparr>) k = generation_of a k"
  "generation_of (a\<lparr>call_replacement := r\<rparr>) k = generation_of a k"
  "generation_of (a\<lparr>call_updated_at := u\<rparr>) k = generation_of a k"
  "generation_of (a\<lparr>call_state_changed_at := u\<rparr>) k = generation_of a k"
  "generation_of (put_leg a i l) k = generation_of a k"
  by (simp_all add: generation_of_def)

text \<open>From here on legs are addressed by slot.\<close>

lemma leg_at_fst_snd: "fst (call_legs a) = leg_at a Slot0" "snd (call_legs a) = leg_at a Slot1"
  by simp_all

declare leg_at.simps [simp del] put_leg.simps [simp del]

lemma with_updated_legs [simp]:
  "leg_at (a\<lparr>call_legs := (l0, l1)\<rparr>) i = (case i of Slot0 \<Rightarrow> l0 | Slot1 \<Rightarrow> l1)"
  by (cases i) (simp_all add: leg_at.simps)

section \<open>The invariant, conjunct by conjunct\<close>

definition within :: "time \<Rightarrow> time \<Rightarrow> time option \<Rightarrow> bool" where
  "within lo hi t \<longleftrightarrow> \<not> outside lo hi t"

definition leg_ok :: "CallAggregate \<Rightarrow> Leg \<Rightarrow> bool" where
  "leg_ok a l \<longleftrightarrow>
     binding_value (leg_binding_generation l) \<noteq> 0 \<and>
     leg_binding_generation l \<le> replacement_generation_cursor l \<and>
     call_created_at a \<le> leg_created_at l \<and> leg_created_at l \<le> leg_state_changed_at l \<and>
     leg_state_changed_at l \<le> call_updated_at a \<and>
     within (leg_created_at l) (call_updated_at a) (leg_connected_at l) \<and>
     within (leg_created_at l) (call_updated_at a) (leg_ended_at l) \<and>
     (leg_state l = LegState.Failed) = (leg_failure l \<noteq> None) \<and>
     leg_is_terminal (leg_state l) = (leg_ended_at l \<noteq> None)"

fun leg_states_ok :: "CallState \<Rightarrow> LegState \<Rightarrow> bool" where
  "leg_states_ok CallState.Pending s \<longleftrightarrow> s = LegState.Pending"
| "leg_states_ok CallState.Connecting s \<longleftrightarrow>
     s \<in> {LegState.Pending, LegState.AwaitingAttach, LegState.Signaling, LegState.Connected}"
| "leg_states_ok CallState.Active s \<longleftrightarrow> s \<in> {LegState.Connected, LegState.Held}"
| "leg_states_ok CallState.Transferring s \<longleftrightarrow> s \<in> {LegState.Connected, LegState.Held}"
| "leg_states_ok CallState.Ending s \<longleftrightarrow> s \<in> {LegState.Ending, LegState.Ended, LegState.Failed}"
| "leg_states_ok CallState.Ended s \<longleftrightarrow> s = LegState.Ended"
| "leg_states_ok CallState.Failed s \<longleftrightarrow> s \<in> {LegState.Ended, LegState.Failed}"

text \<open>Which outcomes a call state allows, given whether some leg has failed.\<close>

fun outcome_ok :: "CallState \<Rightarrow> bool \<Rightarrow> TerminalOutcome option \<Rightarrow> bool" where
  "outcome_ok CallState.Ending leg_failed t \<longleftrightarrow> t \<noteq> None \<and> (leg_failed \<longrightarrow> is_failed_outcome t)"
| "outcome_ok CallState.Ended leg_failed t \<longleftrightarrow> t = Some TerminalOutcome.Ended"
| "outcome_ok CallState.Failed leg_failed t \<longleftrightarrow> is_failed_outcome t"
| "outcome_ok _ leg_failed t \<longleftrightarrow> t = None"

definition some_leg_failed :: "CallAggregate \<Rightarrow> bool" where
  "some_leg_failed a \<longleftrightarrow> (\<exists>i. leg_state (leg_at a i) = LegState.Failed)"

definition replacement_ok :: "CallAggregate \<Rightarrow> bool" where
  "replacement_ok a \<longleftrightarrow>
     (\<forall>r. call_replacement a = Some r \<longrightarrow>
        (\<exists>i. leg_index a (repl_leg_id r) = Inr i \<and> \<not> replacement_mismatch a (leg_at a i) r))"

lemma validate_leg_ok: "validate_leg a l = Inr () \<longleftrightarrow> leg_ok a l"
  by (auto simp: validate_leg_def leg_ok_def within_def not_less)

lemma validate_state_ok:
  "(validate_state s a = Inr () \<and>
    \<not> (s \<notin> {CallState.Ending, CallState.Ended, CallState.Failed} \<and> call_terminal_outcome a \<noteq> None))
   \<longleftrightarrow> (\<forall>i. leg_states_ok s (leg_state (leg_at a i))) \<and>
       outcome_ok s (some_leg_failed a) (call_terminal_outcome a)"
  by (cases s) (auto simp: some_leg_failed_def leg_is_terminal_def)

lemma validate_replacement_ok:
  "validate_replacement a = Inr () \<and>
   \<not> (call_state a \<noteq> CallState.Transferring \<and> call_replacement a \<noteq> None) \<longleftrightarrow> replacement_ok a"
  by (auto simp: validate_replacement_def replacement_ok_def find_leg_eq replacement_mismatch_def
      split: option.splits sum.splits)

lemma validate_deadlines_ok:
  "\<not> list_ex (\<lambda>k. due_at a k \<noteq> None \<and> \<not> deadline_allowed (call_state a) k) deadline_kinds \<and>
   \<not> (call_is_terminal (call_state a) \<and> list_ex (\<lambda>k. due_at a k \<noteq> None) deadline_kinds)
   \<longleftrightarrow> (\<forall>k. due_at a k \<noteq> None \<longrightarrow> deadline_allowed (call_state a) k)"
proof -
  have all: "(\<forall>k. P k) \<longleftrightarrow> P Setup \<and> P Media \<and> P Transfer \<and> P DeadlineKind.Ending"
    for P :: "DeadlineKind \<Rightarrow> bool"
    by (metis DeadlineKind.exhaust)
  show ?thesis
    by (auto simp: deadline_kinds_def all call_is_terminal_def)
qed

theorem valid_iff:
  "valid a \<longleftrightarrow>
     leg_id (leg_at a Slot0) \<noteq> leg_id (leg_at a Slot1) \<and>
     validate_media_flows (leg_media_flow (leg_at a Slot0)) (leg_media_flow (leg_at a Slot1)) = Inr () \<and>
     call_created_at a \<le> call_updated_at a \<and> call_state_changed_at a \<le> call_updated_at a \<and>
     (\<forall>i. leg_ok a (leg_at a i)) \<and>
     (\<forall>i. leg_states_ok (call_state a) (leg_state (leg_at a i))) \<and>
     outcome_ok (call_state a) (some_leg_failed a) (call_terminal_outcome a) \<and>
     replacement_ok a \<and>
     (\<forall>k. due_at a k \<noteq> None \<longrightarrow> deadline_allowed (call_state a) k)"
proof -
  have "valid a \<longleftrightarrow>
     leg_id (leg_at a Slot0) \<noteq> leg_id (leg_at a Slot1) \<and>
     validate_media_flows (leg_media_flow (leg_at a Slot0)) (leg_media_flow (leg_at a Slot1)) = Inr () \<and>
     \<not> (call_updated_at a < call_created_at a \<or> call_state_changed_at a > call_updated_at a) \<and>
     validate_leg a (leg_at a Slot0) = Inr () \<and> validate_leg a (leg_at a Slot1) = Inr () \<and>
     (validate_state (call_state a) a = Inr () \<and>
      \<not> (call_state a \<notin> {CallState.Ending, CallState.Ended, CallState.Failed}
         \<and> call_terminal_outcome a \<noteq> None)) \<and>
     (validate_replacement a = Inr () \<and>
      \<not> (call_state a \<noteq> CallState.Transferring \<and> call_replacement a \<noteq> None)) \<and>
     (\<not> list_ex (\<lambda>k. due_at a k \<noteq> None \<and> \<not> deadline_allowed (call_state a) k) deadline_kinds \<and>
      \<not> (call_is_terminal (call_state a) \<and> list_ex (\<lambda>k. due_at a k \<noteq> None) deadline_kinds))"
    by (simp only: valid_def validate_def Let_def case_prod_beta leg_at_fst_snd result_simps
        ex_unit) blast
  then show ?thesis
    unfolding validate_leg_ok validate_state_ok validate_replacement_ok validate_deadlines_ok
    by (auto simp: all_slots)
qed

lemma valid_with_ids_and_semantics:
  "with_ids_and_semantics i t legs sem now = Inr a \<Longrightarrow> valid a"
  by (auto simp: with_ids_and_semantics_def Let_def valid_def result_simps split: if_splits)

end
