(* ===== verification/Call_Decide.thy ===== *)
theory Call_Decide
  imports Call_Aggregate
begin

text \<open>
  The transitions of the call aggregate (\<open>CallAggregate::apply_command\<close> and
  \<open>CallAggregate::decide\<close> in \<open>src/call_engine/domain.rs\<close>), one definition per handler, with
  the guards in the source's order. A handler works on a private copy of the aggregate, so it
  returns the new aggregate with its \<open>CommandResult\<close>, or the error that discards the copy;
  the vector of effects that the source threads by mutable reference is threaded as a pair.
\<close>

type_synonym with_effects = "CallAggregate \<times> EffectIntent list"
type_synonym handled = "(DomainError, CallAggregate \<times> CommandResult) result"

section \<open>Helpers\<close>

definition applied :: "time \<Rightarrow> EffectIntent list \<Rightarrow> CommandResult" where
  "applied at effects =
     \<lparr>result_at = at, result_effects = effects, result_disposition = Applied\<rparr>"

definition ignored :: "time \<Rightarrow> CommandDisposition \<Rightarrow> CommandResult" where
  "ignored at disposition =
     \<lparr>result_at = at, result_effects = [], result_disposition = disposition\<rparr>"

definition ensure_timestamp :: "CallAggregate \<Rightarrow> time \<Rightarrow> (DomainError, unit) result" where
  "ensure_timestamp a at = (if at < call_updated_at a then Inl TimestampRegression else Inr ())"

definition set_call_state :: "CallState \<Rightarrow> time \<Rightarrow> CallAggregate \<Rightarrow> CallAggregate" where
  "set_call_state s at a =
     (if call_state a \<noteq> s then a\<lparr>call_state := s, call_state_changed_at := at\<rparr> else a)"

definition bridge_media_effect :: "CallAggregate \<Rightarrow> EffectIntent" where
  "bridge_media_effect a = BridgeMedia (leg_id (leg_at a Slot0)) (leg_id (leg_at a Slot1))"

definition unbridge_media_effect :: "CallAggregate \<Rightarrow> EffectIntent" where
  "unbridge_media_effect a = UnbridgeMedia (leg_id (leg_at a Slot0)) (leg_id (leg_at a Slot1))"

definition compare_binding_generation ::
    "LegId \<Rightarrow> BindingGeneration \<Rightarrow> BindingGeneration \<Rightarrow> time \<Rightarrow>
     (DomainError, CommandResult option) result" where
  "compare_binding_generation leg current supplied at =
     (if supplied < current then Inr (Some (ignored at IgnoredStaleGeneration))
      else if supplied > current
      then Inl (FutureBindingGeneration leg (binding_value current) (binding_value supplied))
      else Inr None)"

definition compare_deadline_generation ::
    "CallAggregate \<Rightarrow> DeadlineKind \<Rightarrow> DeadlineGeneration \<Rightarrow> time \<Rightarrow>
     (DomainError, CommandResult option) result" where
  "compare_deadline_generation a kind supplied at =
     (let current = generation_of a kind in
      if supplied < current then Inr (Some (ignored at IgnoredStaleGeneration))
      else if supplied > current
      then Inl (FutureDeadlineGeneration kind (deadline_value current) (deadline_value supplied))
      else Inr None)"

text \<open>\<open>if let Some(result) = ...? { return Ok(result); }\<close>\<close>

definition return_some ::
    "CallAggregate \<Rightarrow> (DomainError, CommandResult option) result \<Rightarrow> handled \<Rightarrow> handled" where
  "return_some a early rest =
     and_then early (\<lambda>r. case r of Some result \<Rightarrow> Inr (a, result) | None \<Rightarrow> rest)"

fun valid_leg_transition :: "LegState \<Rightarrow> LegState \<Rightarrow> bool" where
  "valid_leg_transition LegState.Pending to \<longleftrightarrow>
     to \<in> {LegState.AwaitingAttach, LegState.Signaling, LegState.Ending, LegState.Failed}"
| "valid_leg_transition LegState.AwaitingAttach to \<longleftrightarrow>
     to \<in> {LegState.Signaling, LegState.Ending, LegState.Failed}"
| "valid_leg_transition LegState.Signaling to \<longleftrightarrow>
     to \<in> {LegState.Connected, LegState.Ending, LegState.Failed}"
| "valid_leg_transition LegState.Connected to \<longleftrightarrow>
     to \<in> {LegState.Held, LegState.Ending, LegState.Ended, LegState.Failed}"
| "valid_leg_transition LegState.Held to \<longleftrightarrow>
     to \<in> {LegState.Connected, LegState.Ending, LegState.Ended, LegState.Failed}"
| "valid_leg_transition LegState.Ending to \<longleftrightarrow> to \<in> {LegState.Ended, LegState.Failed}"
| "valid_leg_transition LegState.Ended to \<longleftrightarrow> False"
| "valid_leg_transition LegState.Failed to \<longleftrightarrow> False"

section \<open>Deadlines\<close>

definition put_slot :: "CallAggregate \<Rightarrow> DeadlineKind \<Rightarrow> DeadlineSlot \<Rightarrow> CallAggregate" where
  "put_slot a kind s = a\<lparr>call_deadlines := deadlines_put (call_deadlines a) kind s\<rparr>"

definition cancel_deadline_internal :: "DeadlineKind \<Rightarrow> with_effects \<Rightarrow> with_effects" where
  "cancel_deadline_internal kind = (\<lambda>(a, effects).
     let slot = deadlines_get (call_deadlines a) kind in
     case slot_due_at slot of
       None \<Rightarrow> (a, effects)
     | Some _ \<Rightarrow>
         (put_slot a kind (slot\<lparr>slot_due_at := None\<rparr>),
          effects @ [CancelDeadline kind (slot_generation slot)]))"

definition arm_deadline_internal ::
    "DeadlineKind \<Rightarrow> time \<Rightarrow> with_effects \<Rightarrow>
     (DomainError, DeadlineGeneration \<times> with_effects) result" where
  "arm_deadline_internal kind due s =
     (let (a, effects) = cancel_deadline_internal kind s;
          slot = deadlines_get (call_deadlines a) kind
      in and_then (deadline_next (slot_generation slot)) (\<lambda>g.
           Inr (g, put_slot a kind \<lparr>slot_generation = g, slot_due_at = Some due\<rparr>,
                effects @ [ScheduleDeadline kind g due])))"

section \<open>Teardown\<close>

definition first_leg_failure :: "CallAggregate \<Rightarrow> FailureDetails option" where
  "first_leg_failure a =
     (case leg_failure (leg_at a Slot0) of
        Some f \<Rightarrow> Some f
      | None \<Rightarrow> leg_failure (leg_at a Slot1))"

definition finalize_terminal :: "time \<Rightarrow> with_effects \<Rightarrow> with_effects" where
  "finalize_terminal at s =
     (let (a, effects) =
            cancel_deadline_internal DeadlineKind.Ending
              (cancel_deadline_internal Transfer
                (cancel_deadline_internal Media
                  (cancel_deadline_internal Setup s)));
          a = (case first_leg_failure a of
                 Some failure \<Rightarrow> a\<lparr>call_terminal_outcome := Some (TerminalOutcome.Failed failure)\<rparr>
               | None \<Rightarrow> a)
      in case call_terminal_outcome a of
           Some (TerminalOutcome.Failed _) \<Rightarrow> (set_call_state CallState.Failed at a, effects)
         | _ \<Rightarrow> (set_call_state CallState.Ended at
                  (a\<lparr>call_terminal_outcome := Some TerminalOutcome.Ended\<rparr>), effects))"

text \<open>One iteration of the loop that stops the legs.\<close>

definition stop_leg :: "time \<Rightarrow> StopLegReason \<Rightarrow> Leg \<Rightarrow> Leg \<times> EffectIntent list" where
  "stop_leg at reason l =
     (if \<not> leg_is_terminal (leg_state l) \<and> leg_state l \<noteq> LegState.Ending
      then (l\<lparr>leg_state := LegState.Ending, leg_state_changed_at := at\<rparr>,
            [StopLeg (leg_id l) (leg_binding_generation l) reason])
      else (l, []))"

definition all_legs_terminal :: "CallAggregate \<Rightarrow> bool" where
  "all_legs_terminal a \<longleftrightarrow> list_all (\<lambda>l. leg_is_terminal (leg_state l)) (legs_of a)"

fun merge_outcome :: "TerminalOutcome option \<Rightarrow> TerminalOutcome \<Rightarrow> TerminalOutcome option" where
  "merge_outcome (Some (TerminalOutcome.Failed existing)) _ =
     Some (TerminalOutcome.Failed existing)"
| "merge_outcome _ replacement = Some replacement"

definition stop_all_legs :: "time \<Rightarrow> StopLegReason \<Rightarrow> with_effects \<Rightarrow> with_effects" where
  "stop_all_legs at reason = (\<lambda>(a, effects).
     let (l0, e0) = stop_leg at reason (leg_at a Slot0);
         (l1, e1) = stop_leg at reason (leg_at a Slot1)
     in (a\<lparr>call_legs := (l0, l1)\<rparr>, effects @ e0 @ e1))"

definition take_replacement :: "with_effects \<Rightarrow> with_effects" where
  "take_replacement = (\<lambda>(a, effects).
     case call_replacement a of
       None \<Rightarrow> (a, effects)
     | Some r \<Rightarrow>
         (a\<lparr>call_replacement := None\<rparr>,
          effects @ [AbortLegReplacement (repl_leg_id r) (repl_pending_binding_generation r)]))"

definition begin_ending_internal ::
    "time \<Rightarrow> TerminalOutcome \<Rightarrow> StopLegReason \<Rightarrow> time option \<Rightarrow> with_effects \<Rightarrow>
     (DomainError, with_effects) result" where
  "begin_ending_internal at outcome reason ending_deadline s =
     (let (a, effects) = s;
          effects = (if call_state a \<in> {CallState.Active, CallState.Transferring}
                     then effects @ [unbridge_media_effect a] else effects);
          s = take_replacement (a, effects);
          (a, effects) =
            cancel_deadline_internal Transfer
              (cancel_deadline_internal Media
                (cancel_deadline_internal Setup s));
          a = a\<lparr>call_terminal_outcome := merge_outcome (call_terminal_outcome a) outcome\<rparr>;
          a = set_call_state CallState.Ending at a;
          (a, effects) = stop_all_legs at reason (a, effects)
      in if all_legs_terminal a then Inr (finalize_terminal at (a, effects))
         else case ending_deadline of
                Some deadline \<Rightarrow>
                  and_then (arm_deadline_internal DeadlineKind.Ending deadline (a, effects))
                    (\<lambda>(_, s). Inr s)
              | None \<Rightarrow> Inr (a, effects))"

definition reconcile_leg_state ::
    "LegSlot \<Rightarrow> time \<Rightarrow> CallAggregate \<Rightarrow> (DomainError, with_effects) result" where
  "reconcile_leg_state changed_index at a =
     (let changed = leg_at a changed_index in
      if call_state a = CallState.Connecting \<and>
         list_all (\<lambda>l. leg_state l = LegState.Connected) (legs_of a)
      then (let (a, effects) = cancel_deadline_internal Setup (a, []);
                a = set_call_state CallState.Active at a
            in Inr (a, effects @ [bridge_media_effect a]))
      else if call_state a = CallState.Ending
      then (let a = (case leg_failure changed of
                       Some failure \<Rightarrow>
                         a\<lparr>call_terminal_outcome := Some (TerminalOutcome.Failed failure)\<rparr>
                     | None \<Rightarrow> a)
            in if all_legs_terminal a then Inr (finalize_terminal at (a, [])) else Inr (a, []))
      else if leg_state changed \<in> {LegState.Ending, LegState.Ended, LegState.Failed}
      then begin_ending_internal at
             (case leg_failure changed of
                Some failure \<Rightarrow> TerminalOutcome.Failed failure
              | None \<Rightarrow> TerminalOutcome.Ended)
             (if leg_failure changed \<noteq> None then StopLegReason.Failure else PeerEnded)
             None (a, [])
      else Inr (a, []))"

section \<open>Command handlers\<close>

definition finish_applied :: "time \<Rightarrow> (DomainError, with_effects) result \<Rightarrow> handled" where
  "finish_applied at r = and_then r (\<lambda>(a, effects). Inr (a, applied at effects))"

definition start_leg :: "time \<Rightarrow> Leg \<Rightarrow> Leg \<times> EffectIntent" where
  "start_leg at l =
     (if signaling_initiator l = Remote
      then (l\<lparr>leg_state := LegState.AwaitingAttach, leg_state_changed_at := at\<rparr>,
            AwaitLegAttachment (leg_id l) (leg_binding_generation l))
      else (l, StartLeg (leg_id l) (leg_binding_generation l) (leg_kind l) (leg_direction l)))"

definition start_connecting :: "CallAggregate \<Rightarrow> time \<Rightarrow> time \<Rightarrow> handled" where
  "start_connecting a at setup_deadline =
     and_then (ensure_timestamp a at) (\<lambda>_.
     if call_state a \<noteq> CallState.Pending
     then Inl (InvalidCallTransition (call_state a) ''start_connecting'')
     else if setup_deadline \<le> at then Inl DeadlineNotFuture
     else
       let a = set_call_state CallState.Connecting at a;
           (l0, e0) = start_leg at (leg_at a Slot0);
           (l1, e1) = start_leg at (leg_at a Slot1);
           a = a\<lparr>call_legs := (l0, l1)\<rparr>
       in finish_applied at
            (and_then (arm_deadline_internal Setup setup_deadline (a, [e0, e1]))
               (\<lambda>(_, s). Inr s)))"

definition set_leg_state ::
    "CallAggregate \<Rightarrow> time \<Rightarrow> LegId \<Rightarrow> BindingGeneration \<Rightarrow> LegState \<Rightarrow>
     FailureDetails option \<Rightarrow> handled" where
  "set_leg_state a at leg supplied_generation next_state failure =
     and_then (leg_index a leg) (\<lambda>index.
     return_some a (compare_binding_generation leg (leg_binding_generation (leg_at a index))
                      supplied_generation at)
     (and_then (ensure_timestamp a at) (\<lambda>_.
     if call_is_terminal (call_state a) \<or> call_state a = CallState.Pending
     then Inl (InvalidCallTransition (call_state a) ''set_leg_state'')
     else if next_state = LegState.Failed \<and> failure = None then Inl FailureRequired
     else if next_state \<noteq> LegState.Failed \<and> failure \<noteq> None then Inl UnexpectedFailure
     else
       let current_state = leg_state (leg_at a index) in
       if current_state = next_state then Inr (a, ignored at IgnoredNoop)
       else if \<not> valid_leg_transition current_state next_state
       then Inl (InvalidLegTransition current_state next_state)
       else if call_state a = CallState.Ending \<and> current_state \<noteq> LegState.Ending
       then Inl (InvalidLegTransition current_state next_state)
       else
         let l = (leg_at a index)\<lparr>leg_state := next_state, leg_state_changed_at := at\<rparr>;
             l = (if next_state = LegState.Connected \<and> leg_connected_at l = None
                  then l\<lparr>leg_connected_at := Some at\<rparr> else l);
             l = (if leg_is_terminal next_state then l\<lparr>leg_ended_at := Some at\<rparr> else l);
             l = l\<lparr>leg_failure := failure\<rparr>
         in finish_applied at (reconcile_leg_state index at (put_leg a index l)))))"

definition source_terminated_before_answer ::
    "CallAggregate \<Rightarrow> time \<Rightarrow> LegId \<Rightarrow> BindingGeneration \<Rightarrow> SourceBeforeAnswerTermination \<Rightarrow>
     handled" where
  "source_terminated_before_answer a at source_leg supplied_generation reason =
     and_then (leg_index a source_leg) (\<lambda>index.
     return_some a (compare_binding_generation source_leg
                      (leg_binding_generation (leg_at a index)) supplied_generation at)
     (and_then (ensure_timestamp a at) (\<lambda>_.
     let source = leg_at a index in
     if signaling_initiator source \<noteq> Remote
     then Inl (InvalidCallTransition (call_state a) ''source_terminated_before_answer'')
     else if leg_is_terminal (leg_state source) then Inr (a, ignored at IgnoredNoop)
     else if call_state a \<notin> {CallState.Connecting, CallState.Ending} \<or>
             leg_state source \<notin> {LegState.Pending, LegState.AwaitingAttach, LegState.Signaling,
               LegState.Ending}
     then Inl (InvalidCallTransition (call_state a) ''source_terminated_before_answer'')
     else
       let failure =
             (if reason = SourceBeforeAnswerTermination.Failed
              then Some (FailureDetails_sanitized (lit ''source_failed_before_answer'')
                (lit ''the remotely initiated source failed before final answer'') False)
              else None);
           source = source\<lparr>
             leg_state := (if failure \<noteq> None then LegState.Failed else LegState.Ended),
             leg_state_changed_at := at, leg_ended_at := Some at, leg_failure := failure\<rparr>
       in finish_applied at (reconcile_leg_state index at (put_leg a index source)))))"

definition provider_media_started ::
    "CallAggregate \<Rightarrow> time \<Rightarrow> LegId \<Rightarrow> BindingGeneration \<Rightarrow> handled" where
  "provider_media_started a at leg supplied_generation =
     and_then (leg_index a leg) (\<lambda>index.
     return_some a (compare_binding_generation leg (leg_binding_generation (leg_at a index))
                      supplied_generation at)
     (and_then (ensure_timestamp a at) (\<lambda>_.
     let l = leg_at a index in
     if call_state a \<noteq> CallState.Connecting \<or> leg_direction l \<noteq> Outbound \<or> leg_kind l \<noteq> Telnyx \<or>
        leg_state l \<notin> {LegState.Pending, LegState.Signaling}
     then Inl (InvalidCallTransition (call_state a) ''provider_media_started'')
     else
       let a = (if leg_state l = LegState.Pending
                then put_leg a index
                       (l\<lparr>leg_state := LegState.Signaling, leg_state_changed_at := at\<rparr>)
                else a)
       in Inr (a, applied at [ConnectProviderDestination leg supplied_generation]))))"

definition provider_media_attached ::
    "CallAggregate \<Rightarrow> time \<Rightarrow> LegId \<Rightarrow> BindingGeneration \<Rightarrow> handled" where
  "provider_media_attached a at leg supplied_generation =
     and_then (ensure_timestamp a at) (\<lambda>_.
     and_then (leg_index a leg) (\<lambda>index.
     let l = leg_at a index;
         ordinary =
           (call_state a = CallState.Connecting \<and> leg_direction l = Outbound \<and>
            leg_kind l = Telnyx \<and> leg_binding_generation l = supplied_generation \<and>
            leg_state l \<in> {LegState.Pending, LegState.Signaling});
         replacement =
           (call_state a = CallState.Transferring \<and>
            (case call_replacement a of
               None \<Rightarrow> False
             | Some r \<Rightarrow> repl_leg_id r = leg \<and> repl_pending_kind r = Telnyx \<and>
                 repl_pending_binding_generation r = supplied_generation))
     in if \<not> ordinary \<and> \<not> replacement
        then Inl (InvalidCallTransition (call_state a) ''provider_media_attached'')
        else
          let a = (if ordinary \<and> leg_state l = LegState.Pending
                   then put_leg a index
                          (l\<lparr>leg_state := LegState.Signaling, leg_state_changed_at := at\<rparr>)
                   else a)
          in Inr (a, applied at [])))"

definition rotate_leg_binding ::
    "CallAggregate \<Rightarrow> time \<Rightarrow> LegId \<Rightarrow> BindingGeneration \<Rightarrow> handled" where
  "rotate_leg_binding a at leg supplied_generation =
     and_then (leg_index a leg) (\<lambda>index.
     return_some a (compare_binding_generation leg (leg_binding_generation (leg_at a index))
                      supplied_generation at)
     (and_then (ensure_timestamp a at) (\<lambda>_.
     let l = leg_at a index in
     if call_state a \<noteq> CallState.Connecting \<or>
        leg_state l \<notin> {LegState.AwaitingAttach, LegState.Signaling}
     then Inl (InvalidCallTransition (call_state a) ''rotate_leg_binding'')
     else
       and_then (binding_next (leg_binding_generation l)) (\<lambda>g.
         let l = l\<lparr>leg_binding_generation := g\<rparr>;
             l = (case leg_replacement_generation_cursor l of
                    Some cursor \<Rightarrow>
                      if cursor < g then l\<lparr>leg_replacement_generation_cursor := Some g\<rparr> else l
                  | None \<Rightarrow> l);
             l = l\<lparr>leg_state := LegState.AwaitingAttach, leg_state_changed_at := at\<rparr>
         in Inr (put_leg a index l, applied at [AwaitLegAttachment leg g])))))"

definition arm_deadline_command ::
    "CallAggregate \<Rightarrow> time \<Rightarrow> DeadlineKind \<Rightarrow> time \<Rightarrow> handled" where
  "arm_deadline_command a at kind due =
     and_then (ensure_timestamp a at) (\<lambda>_.
     if \<not> deadline_allowed (call_state a) kind
     then Inl (InvalidCallTransition (call_state a) ''arm_deadline'')
     else if due \<le> at then Inl DeadlineNotFuture
     else finish_applied at
            (and_then (arm_deadline_internal kind due (a, [])) (\<lambda>(_, s). Inr s)))"

definition begin_transfer :: "CallAggregate \<Rightarrow> time \<Rightarrow> time \<Rightarrow> handled" where
  "begin_transfer a at transfer_deadline =
     and_then (ensure_timestamp a at) (\<lambda>_.
     if call_state a \<noteq> CallState.Active
     then Inl (InvalidCallTransition (call_state a) ''begin_transfer'')
     else if transfer_deadline \<le> at then Inl DeadlineNotFuture
     else
       finish_applied at
         (and_then (arm_deadline_internal Transfer transfer_deadline
                     (set_call_state CallState.Transferring at a, []))
            (\<lambda>(generation, a, effects). Inr (a, effects @ [ExecuteTransfer generation]))))"

definition begin_leg_replacement ::
    "CallAggregate \<Rightarrow> time \<Rightarrow> LegId \<Rightarrow> LegKind \<Rightarrow> time \<Rightarrow> handled" where
  "begin_leg_replacement a at leg pending_kind transfer_deadline =
     and_then (ensure_timestamp a at) (\<lambda>_.
     if call_state a \<noteq> CallState.Active \<or> call_replacement a \<noteq> None
     then Inl (InvalidCallTransition (call_state a) ''begin_leg_replacement'')
     else if transfer_deadline \<le> at then Inl DeadlineNotFuture
     else
       and_then (leg_index a leg) (\<lambda>index.
       let l = leg_at a index in
       if leg_state l \<noteq> LegState.Connected
       then Inl (InvalidLegTransition (leg_state l) LegState.Held)
       else
         let previous = leg_binding_generation l in
         and_then (next_replacement_binding_generation l) (\<lambda>pending.
           let l = l\<lparr>leg_state := LegState.Held, leg_state_changed_at := at,
                     leg_replacement_generation_cursor := Some pending\<rparr>;
               a = set_call_state CallState.Transferring at (put_leg a index l)
           in finish_applied at
                (and_then (arm_deadline_internal Transfer transfer_deadline
                            (a, [unbridge_media_effect a]))
                   (\<lambda>(generation, a, effects).
                      Inr (a\<lparr>call_replacement := Some
                               \<lparr>repl_leg_id = leg, repl_previous_binding_generation = previous,
                                repl_pending_binding_generation = pending,
                                repl_pending_kind = pending_kind\<rparr>\<rparr>,
                           effects @ [StartLegReplacement leg previous pending pending_kind
                                        generation]))))))"

definition finish_transfer ::
    "CallAggregate \<Rightarrow> time \<Rightarrow> DeadlineGeneration \<Rightarrow> TransferResult \<Rightarrow> handled" where
  "finish_transfer a at supplied_generation result =
     return_some a (compare_deadline_generation a Transfer supplied_generation at)
     (and_then (ensure_timestamp a at) (\<lambda>_.
     if call_replacement a \<noteq> None
     then Inl (InvalidCallTransition (call_state a) ''finish_transfer'')
     else if due_at a Transfer = None \<and> call_state a = CallState.Active
     then Inr (a, ignored at IgnoredNoop)
     else if call_state a \<noteq> CallState.Transferring \<or> due_at a Transfer = None
     then Inl (InvalidCallTransition (call_state a) ''finish_transfer'')
     else
       let (a, effects) = cancel_deadline_internal Transfer (a, []);
           effects = (case result of
                        TransferResult.Rejected failure \<Rightarrow> effects @ [CompensateTransfer failure]
                      | TransferResult.Completed \<Rightarrow> effects)
       in Inr (set_call_state CallState.Active at a, applied at effects)))"

definition finish_leg_replacement ::
    "CallAggregate \<Rightarrow> time \<Rightarrow> DeadlineGeneration \<Rightarrow> BindingGeneration \<Rightarrow>
     LegReplacementResult \<Rightarrow> handled" where
  "finish_leg_replacement a at supplied_deadline_generation supplied_binding_generation result =
     return_some a (compare_deadline_generation a Transfer supplied_deadline_generation at)
     (and_then (ensure_timestamp a at) (\<lambda>_.
     case call_replacement a of
       None \<Rightarrow>
         if call_state a = CallState.Active then Inr (a, ignored at IgnoredNoop)
         else Inl (InvalidCallTransition (call_state a) ''finish_leg_replacement'')
     | Some r \<Rightarrow>
         if call_state a \<noteq> CallState.Transferring \<or> due_at a Transfer = None
         then Inl (InvalidCallTransition (call_state a) ''finish_leg_replacement'')
         else if supplied_binding_generation < repl_pending_binding_generation r
         then Inr (a, ignored at IgnoredStaleGeneration)
         else if supplied_binding_generation > repl_pending_binding_generation r
         then Inl (FutureBindingGeneration (repl_leg_id r)
                     (binding_value (repl_pending_binding_generation r))
                     (binding_value supplied_binding_generation))
         else
           and_then (leg_index a (repl_leg_id r)) (\<lambda>index.
           let (a, effects) = cancel_deadline_internal Transfer (a, []);
               l = leg_at a index;
               (l, effects) =
                 (case result of
                    LegReplacementResult.Connected \<Rightarrow>
                      (l\<lparr>leg_kind := repl_pending_kind r,
                         leg_binding_generation := repl_pending_binding_generation r,
                         leg_state := LegState.Connected, leg_state_changed_at := at,
                         leg_failure := None\<rparr>,
                       effects @ [StopLeg (repl_leg_id r) (repl_previous_binding_generation r)
                                    Requested])
                  | LegReplacementResult.Rejected _ \<Rightarrow>
                      (l\<lparr>leg_state := LegState.Connected, leg_state_changed_at := at\<rparr>,
                       effects @ [AbortLegReplacement (repl_leg_id r)
                                    (repl_pending_binding_generation r)]));
               a = set_call_state CallState.Active at
                     ((put_leg a index l)\<lparr>call_replacement := None\<rparr>)
           in Inr (a, applied at (effects @ [bridge_media_effect a])))))"

text \<open>\<open>deadline.is_some_and(|deadline| deadline <= at)\<close>\<close>

definition not_future :: "time \<Rightarrow> time option \<Rightarrow> bool" where
  "not_future at d = (case d of None \<Rightarrow> False | Some deadline \<Rightarrow> deadline \<le> at)"

definition begin_ending_command ::
    "CallAggregate \<Rightarrow> time \<Rightarrow> time option \<Rightarrow> StopLegReason \<Rightarrow> handled" where
  "begin_ending_command a at ending_deadline reason =
     and_then (ensure_timestamp a at) (\<lambda>_.
     if call_is_terminal (call_state a)
     then Inl (InvalidCallTransition (call_state a) ''begin_ending'')
     else if call_state a = CallState.Ending \<and> ending_deadline = None
     then Inr (a, ignored at IgnoredNoop)
     else if not_future at ending_deadline then Inl DeadlineNotFuture
     else finish_applied at
            (begin_ending_internal at TerminalOutcome.Ended reason ending_deadline (a, [])))"

definition expire_leg :: "time \<Rightarrow> FailureDetails \<Rightarrow> Leg \<Rightarrow> Leg" where
  "expire_leg at failure l =
     (if \<not> leg_is_terminal (leg_state l)
      then l\<lparr>leg_state := LegState.Failed, leg_failure := Some failure, leg_ended_at := Some at,
             leg_state_changed_at := at\<rparr>
      else l)"

text \<open>The failure a deadline kind selects; the source treats \<open>Ending\<close> before this table.\<close>

fun timeout_failure :: "DeadlineKind \<Rightarrow> FailureDetails" where
  "timeout_failure Setup =
     FailureDetails_sanitized (lit ''setup_timeout'') (lit ''call setup deadline elapsed'') True"
| "timeout_failure Media =
     FailureDetails_sanitized (lit ''media_timeout'') (lit ''media activity deadline elapsed'') True"
| "timeout_failure Transfer =
     FailureDetails_sanitized (lit ''transfer_timeout'') (lit ''call transfer deadline elapsed'') True"
| "timeout_failure DeadlineKind.Ending =
     FailureDetails_sanitized (lit ''ending_timeout'') (lit ''leg teardown deadline elapsed'') False"

definition deadline_elapsed ::
    "CallAggregate \<Rightarrow> time \<Rightarrow> DeadlineKind \<Rightarrow> DeadlineGeneration \<Rightarrow> time option \<Rightarrow> handled" where
  "deadline_elapsed a at kind supplied_generation ending_deadline =
     return_some a (compare_deadline_generation a kind supplied_generation at)
     (case due_at a kind of
        None \<Rightarrow> Inr (a, ignored at IgnoredStaleGeneration)
      | Some due \<Rightarrow>
          and_then (ensure_timestamp a at) (\<lambda>_.
          if at < due then Inl DeadlineNotElapsed
          else if not_future at ending_deadline then Inl DeadlineNotFuture
          else
            let a = put_slot a kind
                      ((deadlines_get (call_deadlines a) kind)\<lparr>slot_due_at := None\<rparr>);
                failure = timeout_failure kind
            in if kind = DeadlineKind.Ending
               then
                 let a = a\<lparr>call_legs := (expire_leg at failure (leg_at a Slot0),
                                          expire_leg at failure (leg_at a Slot1)),
                           call_terminal_outcome := Some (TerminalOutcome.Failed failure)\<rparr>;
                     (a, effects) = finalize_terminal at (a, [])
                 in Inr (a, applied at effects)
               else
                 case (if kind = Transfer then call_replacement a else None) of
                   Some r \<Rightarrow>
                     and_then (leg_index a (repl_leg_id r)) (\<lambda>index.
                     let l = (leg_at a index)\<lparr>leg_state := LegState.Connected,
                               leg_state_changed_at := at\<rparr>;
                         a = set_call_state CallState.Active at
                               ((put_leg a index l)\<lparr>call_replacement := None\<rparr>)
                     in Inr (a, applied at
                          [AbortLegReplacement (repl_leg_id r) (repl_pending_binding_generation r),
                           bridge_media_effect a]))
                 | None \<Rightarrow>
                     finish_applied at
                       (begin_ending_internal at (TerminalOutcome.Failed failure) DeadlineExpired
                          ending_deadline
                          (a, if kind = Transfer then [CompensateTransfer failure] else []))))"

section \<open>Deciding a command\<close>

fun apply_command :: "CallAggregate \<Rightarrow> CallCommand \<Rightarrow> handled" where
  "apply_command a (StartConnecting at setup_deadline) = start_connecting a at setup_deadline"
| "apply_command a (SetLegState at leg g s failure) = set_leg_state a at leg g s failure"
| "apply_command a (SourceTerminatedBeforeAnswer at leg g reason) =
     source_terminated_before_answer a at leg g reason"
| "apply_command a (ProviderMediaStarted at leg g) = provider_media_started a at leg g"
| "apply_command a (ProviderMediaAttached at leg g) = provider_media_attached a at leg g"
| "apply_command a (RotateLegBinding at leg g) = rotate_leg_binding a at leg g"
| "apply_command a (ArmDeadline at kind due) = arm_deadline_command a at kind due"
| "apply_command a (BeginTransfer at transfer_deadline) = begin_transfer a at transfer_deadline"
| "apply_command a (BeginLegReplacement at leg kind transfer_deadline) =
     begin_leg_replacement a at leg kind transfer_deadline"
| "apply_command a (FinishTransfer at g result) = finish_transfer a at g result"
| "apply_command a (FinishLegReplacement at dg bg result) =
     finish_leg_replacement a at dg bg result"
| "apply_command a (BeginEnding at ending_deadline reason) =
     begin_ending_command a at ending_deadline reason"
| "apply_command a (DeadlineElapsed at kind g ending_deadline) =
     deadline_elapsed a at kind g ending_deadline"

text \<open>The version and update time of an applied command, before validation.\<close>

definition stamp_applied ::
    "CallAggregate \<times> CommandResult \<Rightarrow> (DomainError, CallAggregate) result" where
  "stamp_applied = (\<lambda>(a, r).
     if result_disposition r = Applied
     then and_then (version_next (call_version a)) (\<lambda>v.
            Inr (a\<lparr>call_version := v, call_updated_at := result_at r\<rparr>))
     else Inr a)"

definition decide :: "CallAggregate \<Rightarrow> CallCommand \<Rightarrow> (DomainError, CallDecision) result" where
  "decide a command =
     and_then (apply_command a command) (\<lambda>(a, r).
     and_then (stamp_applied (a, r)) (\<lambda>a.
     and_then (validate a) (\<lambda>_.
       Inr \<lparr>decision_aggregate = a, decision_effects = result_effects r,
            decision_disposition = result_disposition r\<rparr>)))"

end
