(* ===== verification/Call_Lemmas.thy ===== *)
theory Call_Lemmas
  imports Call_Decide
begin

text \<open>
  What the handlers of \<open>Call_Decide\<close> compute, in a form the property proofs can use: the
  threaded helpers as a state change and an appended list of effects, the fields each helper
  leaves alone, and one inversion lemma per handler that lists its guards and its result.
\<close>

section \<open>Clearing and arming deadlines\<close>

definition clear_due :: "DeadlineKind \<Rightarrow> CallAggregate \<Rightarrow> CallAggregate" where
  "clear_due k a = put_slot a k ((deadlines_get (call_deadlines a) k)\<lparr>slot_due_at := None\<rparr>)"

definition arm_due :: "DeadlineKind \<Rightarrow> DeadlineGeneration \<Rightarrow> time \<Rightarrow> CallAggregate \<Rightarrow> CallAggregate" where
  "arm_due k g due a = put_slot a k \<lparr>slot_generation = g, slot_due_at = Some due\<rparr>"

definition cancel_effects :: "CallAggregate \<Rightarrow> DeadlineKind \<Rightarrow> EffectIntent list" where
  "cancel_effects a k =
     (case due_at a k of None \<Rightarrow> [] | Some _ \<Rightarrow> [CancelDeadline k (generation_of a k)])"

lemma put_slot_frame [simp]:
  "call_id (put_slot a k s) = call_id a" "call_tenant_id (put_slot a k s) = call_tenant_id a"
  "call_version (put_slot a k s) = call_version a" "call_state (put_slot a k s) = call_state a"
  "call_legs (put_slot a k s) = call_legs a" "leg_at (put_slot a k s) i = leg_at a i"
  "call_terminal_outcome (put_slot a k s) = call_terminal_outcome a"
  "call_replacement (put_slot a k s) = call_replacement a"
  "call_created_at (put_slot a k s) = call_created_at a"
  "call_updated_at (put_slot a k s) = call_updated_at a"
  "call_state_changed_at (put_slot a k s) = call_state_changed_at a"
  by (simp_all add: put_slot_def)

lemma put_slot_due [simp]:
  "due_at (put_slot a k s) k' = (if k' = k then slot_due_at s else due_at a k')"
  "generation_of (put_slot a k s) k' = (if k' = k then slot_generation s else generation_of a k')"
  by (simp_all add: due_at_def generation_of_def put_slot_def)

lemma clear_due_slots [simp]:
  "due_at (clear_due k a) k' = (if k' = k then None else due_at a k')"
  "generation_of (clear_due k a) k' = generation_of a k'"
  by (simp_all add: clear_due_def) (simp add: generation_of_def)

lemma arm_due_slots [simp]:
  "due_at (arm_due k g due a) k' = (if k' = k then Some due else due_at a k')"
  "generation_of (arm_due k g due a) k' = (if k' = k then g else generation_of a k')"
  by (simp_all add: arm_due_def)

lemma due_frame [simp]:
  "call_id (clear_due k a) = call_id a" "call_tenant_id (clear_due k a) = call_tenant_id a"
  "call_version (clear_due k a) = call_version a" "call_state (clear_due k a) = call_state a"
  "call_legs (clear_due k a) = call_legs a" "leg_at (clear_due k a) i = leg_at a i"
  "call_terminal_outcome (clear_due k a) = call_terminal_outcome a"
  "call_replacement (clear_due k a) = call_replacement a"
  "call_created_at (clear_due k a) = call_created_at a"
  "call_updated_at (clear_due k a) = call_updated_at a"
  "call_state_changed_at (clear_due k a) = call_state_changed_at a"
  "call_id (arm_due k g due a) = call_id a" "call_tenant_id (arm_due k g due a) = call_tenant_id a"
  "call_version (arm_due k g due a) = call_version a" "call_state (arm_due k g due a) = call_state a"
  "call_legs (arm_due k g due a) = call_legs a" "leg_at (arm_due k g due a) i = leg_at a i"
  "call_terminal_outcome (arm_due k g due a) = call_terminal_outcome a"
  "call_replacement (arm_due k g due a) = call_replacement a"
  "call_created_at (arm_due k g due a) = call_created_at a"
  "call_updated_at (arm_due k g due a) = call_updated_at a"
  "call_state_changed_at (arm_due k g due a) = call_state_changed_at a"
  by (simp_all add: clear_due_def arm_due_def)

lemma clear_due_id: "due_at a k = None \<Longrightarrow> clear_due k a = a"
proof -
  assume "due_at a k = None"
  then have "(deadlines_get (call_deadlines a) k)\<lparr>slot_due_at := None\<rparr>
      = deadlines_get (call_deadlines a) k"
    by (simp add: due_at_def)
  then show ?thesis by (simp add: clear_due_def put_slot_def)
qed

lemma cancel_deadline_internal_eq:
  "cancel_deadline_internal k (a, es) = (clear_due k a, es @ cancel_effects a k)"
proof (cases "due_at a k")
  case None
  then show ?thesis
    by (simp add: cancel_deadline_internal_def cancel_effects_def clear_due_id)
      (simp add: due_at_def)
next
  case (Some d)
  then show ?thesis
    by (simp add: cancel_deadline_internal_def cancel_effects_def clear_due_def generation_of_def)
      (simp add: due_at_def Let_def)
qed

lemma arm_deadline_internal_eq:
  "arm_deadline_internal k due (a, es) =
     and_then (deadline_next (generation_of a k)) (\<lambda>g.
       Inr (g, arm_due k g due a, es @ cancel_effects a k @ [ScheduleDeadline k g due]))"
proof -
  have "put_slot (clear_due k a) k s = put_slot a k s" for s
    by (cases k) (simp_all add: put_slot_def clear_due_def)
  then show ?thesis
    by (simp add: arm_deadline_internal_def cancel_deadline_internal_eq arm_due_def Let_def
        generation_of_def [symmetric])
qed

lemma set_call_state_frame [simp]:
  "call_id (set_call_state s t a) = call_id a"
  "call_tenant_id (set_call_state s t a) = call_tenant_id a"
  "call_version (set_call_state s t a) = call_version a"
  "call_state (set_call_state s t a) = s"
  "call_legs (set_call_state s t a) = call_legs a"
  "leg_at (set_call_state s t a) i = leg_at a i"
  "call_deadlines (set_call_state s t a) = call_deadlines a"
  "call_terminal_outcome (set_call_state s t a) = call_terminal_outcome a"
  "call_replacement (set_call_state s t a) = call_replacement a"
  "call_created_at (set_call_state s t a) = call_created_at a"
  "call_updated_at (set_call_state s t a) = call_updated_at a"
  "due_at (set_call_state s t a) k = due_at a k"
  "generation_of (set_call_state s t a) k = generation_of a k"
  by (simp_all add: set_call_state_def due_at_def generation_of_def)

lemma set_call_state_changed:
  "call_state_changed_at (set_call_state s t a) =
     (if call_state a = s then call_state_changed_at a else t)"
  by (simp add: set_call_state_def)

lemma due_at_legs [simp]:
  "due_at (a\<lparr>call_legs := ls\<rparr>) k = due_at a k"
  "generation_of (a\<lparr>call_legs := ls\<rparr>) k = generation_of a k"
  by (simp_all add: due_at_def generation_of_def)

lemma all_legs_terminal_iff: "all_legs_terminal a \<longleftrightarrow> (\<forall>i. leg_is_terminal (leg_state (leg_at a i)))"
  by (simp add: all_legs_terminal_def legs_of_slots all_slots)

lemma leg_index_cong:
  "(\<And>j. leg_id (leg_at a j) = leg_id (leg_at b j)) \<Longrightarrow> leg_index a i = leg_index b i"
  by (simp add: leg_index_def)

lemma leg_index_put_slot [simp]: "leg_index (put_slot a k s) i = leg_index a i"
  by (rule leg_index_cong) simp

section \<open>Finalisation and teardown as state changes\<close>

definition clear_all_due :: "CallAggregate \<Rightarrow> CallAggregate" where
  "clear_all_due a = clear_due DeadlineKind.Ending (clear_due Transfer (clear_due Media (clear_due Setup a)))"

definition cancel_all_effects :: "CallAggregate \<Rightarrow> EffectIntent list" where
  "cancel_all_effects a =
     cancel_effects a Setup @ cancel_effects a Media @ cancel_effects a Transfer @
     cancel_effects a DeadlineKind.Ending"

definition final_outcome :: "CallAggregate \<Rightarrow> TerminalOutcome" where
  "final_outcome a =
     (case first_leg_failure a of
        Some f \<Rightarrow> TerminalOutcome.Failed f
      | None \<Rightarrow> (case call_terminal_outcome a of Some t \<Rightarrow> t | None \<Rightarrow> TerminalOutcome.Ended))"

definition final_state :: "TerminalOutcome \<Rightarrow> CallState" where
  "final_state t =
     (case t of TerminalOutcome.Failed _ \<Rightarrow> CallState.Failed | TerminalOutcome.Ended \<Rightarrow> CallState.Ended)"

definition finalized :: "time \<Rightarrow> CallAggregate \<Rightarrow> CallAggregate" where
  "finalized at a =
     set_call_state (final_state (final_outcome a)) at
       ((clear_all_due a)\<lparr>call_terminal_outcome := Some (final_outcome a)\<rparr>)"

lemma cancel_effects_frame [simp]:
  "cancel_effects (a\<lparr>call_version := v\<rparr>) k = cancel_effects a k"
  "cancel_effects (a\<lparr>call_state := s\<rparr>) k = cancel_effects a k"
  "cancel_effects (a\<lparr>call_terminal_outcome := t\<rparr>) k = cancel_effects a k"
  "cancel_effects (a\<lparr>call_replacement := r\<rparr>) k = cancel_effects a k"
  "cancel_effects (a\<lparr>call_updated_at := u\<rparr>) k = cancel_effects a k"
  "cancel_effects (a\<lparr>call_state_changed_at := u\<rparr>) k = cancel_effects a k"
  "cancel_effects (a\<lparr>call_legs := ls\<rparr>) k = cancel_effects a k"
  "cancel_effects (put_leg a i l) k = cancel_effects a k"
  "cancel_effects (set_call_state s u a) k = cancel_effects a k"
  "k' \<noteq> k \<Longrightarrow> cancel_effects (clear_due k' a) k = cancel_effects a k"
  by (simp_all add: cancel_effects_def split: option.split)

lemma clear_all_due_simps [simp]:
  "due_at (clear_all_due a) k = None" "generation_of (clear_all_due a) k = generation_of a k"
  "call_id (clear_all_due a) = call_id a" "call_tenant_id (clear_all_due a) = call_tenant_id a"
  "call_version (clear_all_due a) = call_version a" "call_state (clear_all_due a) = call_state a"
  "call_legs (clear_all_due a) = call_legs a" "leg_at (clear_all_due a) i = leg_at a i"
  "call_terminal_outcome (clear_all_due a) = call_terminal_outcome a"
  "call_replacement (clear_all_due a) = call_replacement a"
  "call_created_at (clear_all_due a) = call_created_at a"
  "call_updated_at (clear_all_due a) = call_updated_at a"
  "call_state_changed_at (clear_all_due a) = call_state_changed_at a"
  by (cases k; simp add: clear_all_due_def)+

lemma first_leg_failure_clear [simp]: "first_leg_failure (clear_all_due a) = first_leg_failure a"
  by (simp add: first_leg_failure_def split: option.split)

lemma finalize_terminal_eq:
  "finalize_terminal at (a, es) = (finalized at a, es @ cancel_all_effects a)"
proof -
  have c: "cancel_deadline_internal DeadlineKind.Ending
      (cancel_deadline_internal Transfer
        (cancel_deadline_internal Media (cancel_deadline_internal Setup (a, es))))
    = (clear_all_due a, es @ cancel_all_effects a)"
    by (simp add: cancel_deadline_internal_eq clear_all_due_def cancel_all_effects_def)
  have upd: "call_terminal_outcome a = Some t \<Longrightarrow> (clear_all_due a)\<lparr>call_terminal_outcome := Some t\<rparr>
    = clear_all_due a" for t
    by simp
  show ?thesis
    unfolding finalize_terminal_def c finalized_def final_outcome_def final_state_def
    by (auto simp: upd split: option.splits TerminalOutcome.splits)
qed

text \<open>The aggregate after \<open>begin_ending_internal\<close> has stopped the legs.\<close>

definition stopped_leg :: "time \<Rightarrow> Leg \<Rightarrow> Leg" where
  "stopped_leg at l = fst (stop_leg at Requested l)"

definition stop_effects :: "StopLegReason \<Rightarrow> Leg \<Rightarrow> EffectIntent list" where
  "stop_effects reason l = snd (stop_leg 0 reason l)"

definition ending_core :: "time \<Rightarrow> TerminalOutcome \<Rightarrow> CallAggregate \<Rightarrow> CallAggregate" where
  "ending_core at outcome a =
     (set_call_state CallState.Ending at
        ((clear_due Transfer (clear_due Media (clear_due Setup (a\<lparr>call_replacement := None\<rparr>))))
           \<lparr>call_terminal_outcome := merge_outcome (call_terminal_outcome a) outcome\<rparr>))
       \<lparr>call_legs := (stopped_leg at (leg_at a Slot0), stopped_leg at (leg_at a Slot1))\<rparr>"

definition abort_effects :: "CallAggregate \<Rightarrow> EffectIntent list" where
  "abort_effects a =
     (case call_replacement a of
        None \<Rightarrow> []
      | Some r \<Rightarrow> [AbortLegReplacement (repl_leg_id r) (repl_pending_binding_generation r)])"

definition ending_effects :: "StopLegReason \<Rightarrow> CallAggregate \<Rightarrow> EffectIntent list" where
  "ending_effects reason a =
     (if call_state a \<in> {CallState.Active, CallState.Transferring}
      then [unbridge_media_effect a] else []) @ abort_effects a @
     cancel_effects a Setup @ cancel_effects a Media @ cancel_effects a Transfer @
     stop_effects reason (leg_at a Slot0) @ stop_effects reason (leg_at a Slot1)"

lemma stop_leg_eq: "stop_leg at reason l = (stopped_leg at l, stop_effects reason l)"
  by (simp add: stop_leg_def stopped_leg_def stop_effects_def)

lemma take_replacement_eq:
  "take_replacement (a, es) = (a\<lparr>call_replacement := None\<rparr>, es @ abort_effects a)"
  by (auto simp: take_replacement_def abort_effects_def split: option.split)

lemma begin_ending_internal_eq:
  "begin_ending_internal at outcome reason ending_deadline (a, es) =
     (let b = ending_core at outcome a; fs = es @ ending_effects reason a in
      if all_legs_terminal b then Inr (finalized at b, fs @ cancel_all_effects b)
      else case ending_deadline of
             None \<Rightarrow> Inr (b, fs)
           | Some d \<Rightarrow>
               and_then (deadline_next (generation_of a DeadlineKind.Ending)) (\<lambda>g.
                 Inr (arm_due DeadlineKind.Ending g d b,
                      fs @ cancel_effects a DeadlineKind.Ending @
                        [ScheduleDeadline DeadlineKind.Ending g d])))"
proof -
  have core: "stop_all_legs at reason
      (set_call_state CallState.Ending at
         ((clear_due Transfer (clear_due Media (clear_due Setup (a\<lparr>call_replacement := None\<rparr>))))
           \<lparr>call_terminal_outcome := merge_outcome (call_terminal_outcome a) outcome\<rparr>), gs)
    = (ending_core at outcome a,
       gs @ stop_effects reason (leg_at a Slot0) @ stop_effects reason (leg_at a Slot1))" for gs
    by (simp add: stop_all_legs_def stop_leg_eq ending_core_def)
  have ends: "cancel_effects (ending_core at outcome a) DeadlineKind.Ending
      = cancel_effects a DeadlineKind.Ending"
    "generation_of (ending_core at outcome a) DeadlineKind.Ending
      = generation_of a DeadlineKind.Ending"
    by (simp_all add: ending_core_def)
  show ?thesis
    unfolding begin_ending_internal_def Let_def split take_replacement_eq
      cancel_deadline_internal_eq
    by (auto simp: core finalize_terminal_eq arm_deadline_internal_eq ends ending_effects_def
        and_then_def split: option.split sum.split)
qed

lemma stopped_leg_frame [simp]:
  "leg_id (stopped_leg at l) = leg_id l" "leg_direction (stopped_leg at l) = leg_direction l"
  "leg_kind (stopped_leg at l) = leg_kind l"
  "leg_signaling_initiator (stopped_leg at l) = leg_signaling_initiator l"
  "leg_media_flow (stopped_leg at l) = leg_media_flow l"
  "leg_binding_generation (stopped_leg at l) = leg_binding_generation l"
  "leg_replacement_generation_cursor (stopped_leg at l) = leg_replacement_generation_cursor l"
  "leg_created_at (stopped_leg at l) = leg_created_at l"
  "leg_connected_at (stopped_leg at l) = leg_connected_at l"
  "leg_ended_at (stopped_leg at l) = leg_ended_at l"
  "leg_failure (stopped_leg at l) = leg_failure l"
  "leg_state (stopped_leg at l) =
     (if leg_is_terminal (leg_state l) then leg_state l else LegState.Ending)"
  by (auto simp: stopped_leg_def stop_leg_def)

lemma ending_core_frame [simp]:
  "call_id (ending_core at t a) = call_id a" "call_tenant_id (ending_core at t a) = call_tenant_id a"
  "call_version (ending_core at t a) = call_version a"
  "call_state (ending_core at t a) = CallState.Ending"
  "call_replacement (ending_core at t a) = None"
  "call_terminal_outcome (ending_core at t a) = merge_outcome (call_terminal_outcome a) t"
  "call_created_at (ending_core at t a) = call_created_at a"
  "call_updated_at (ending_core at t a) = call_updated_at a"
  "call_state_changed_at (ending_core at t a) =
     (if call_state a = CallState.Ending then call_state_changed_at a else at)"
  "leg_at (ending_core at t a) i = stopped_leg at (leg_at a i)"
  "generation_of (ending_core at t a) k = generation_of a k"
  "due_at (ending_core at t a) k =
     (if k = DeadlineKind.Ending then due_at a DeadlineKind.Ending else None)"
  by (cases i; cases k; simp add: ending_core_def set_call_state_changed)+

lemma finalized_frame [simp]:
  "call_id (finalized at a) = call_id a" "call_tenant_id (finalized at a) = call_tenant_id a"
  "call_version (finalized at a) = call_version a"
  "call_state (finalized at a) = final_state (final_outcome a)"
  "call_replacement (finalized at a) = call_replacement a"
  "call_terminal_outcome (finalized at a) = Some (final_outcome a)"
  "call_created_at (finalized at a) = call_created_at a"
  "call_updated_at (finalized at a) = call_updated_at a"
  "call_state_changed_at (finalized at a) =
     (if call_state a = final_state (final_outcome a) then call_state_changed_at a else at)"
  "leg_at (finalized at a) i = leg_at a i"
  "generation_of (finalized at a) k = generation_of a k" "due_at (finalized at a) k = None"
  by (simp_all add: finalized_def set_call_state_changed)

end
