(* ===== verification/Call_Step.thy ===== *)
theory Call_Step
  imports Call_Lemmas
begin

text \<open>
  The applied transitions as a step relation \<open>call_step a c b es\<close>: command \<open>c\<close> takes
  aggregate \<open>a\<close> to \<open>b\<close> (version and update time not yet stamped) and emits \<open>es\<close>. One rule
  per way a command can change a call. \<open>apply_command_step\<close> shows that every command the
  handlers apply is a step of this relation, and \<open>apply_command_ignored\<close> that every other
  successful command leaves the aggregate alone; the properties of the aggregate are then
  proved by cases on the rules.
\<close>

section \<open>Leg reports\<close>

text \<open>The leg value a state report writes.\<close>

definition reported_leg :: "Leg \<Rightarrow> time \<Rightarrow> LegState \<Rightarrow> FailureDetails option \<Rightarrow> Leg" where
  "reported_leg l at s failure =
     l\<lparr>leg_state := s, leg_state_changed_at := at,
       leg_connected_at :=
         (if s = LegState.Connected \<and> leg_connected_at l = None then Some at
          else leg_connected_at l),
       leg_ended_at := (if leg_is_terminal s then Some at else leg_ended_at l),
       leg_failure := failure\<rparr>"

definition source_failure :: "SourceBeforeAnswerTermination \<Rightarrow> FailureDetails option" where
  "source_failure reason =
     (if reason = SourceBeforeAnswerTermination.Failed
      then Some (FailureDetails_sanitized (lit ''source_failed_before_answer'')
        (lit ''the remotely initiated source failed before final answer'') False)
      else None)"

text \<open>\<open>leg_report a c at i s failure\<close>: command \<open>c\<close> moves the leg in slot \<open>i\<close> to state \<open>s\<close>.\<close>

inductive leg_report ::
    "CallAggregate \<Rightarrow> CallCommand \<Rightarrow> time \<Rightarrow> LegSlot \<Rightarrow> LegState \<Rightarrow> FailureDetails option \<Rightarrow> bool"
  for a :: CallAggregate where
  state_report:
    "\<lbrakk>leg_index a leg = Inr i; leg_binding_generation (leg_at a i) = g; call_updated_at a \<le> at;
      \<not> call_is_terminal (call_state a); call_state a \<noteq> CallState.Pending;
      (s = LegState.Failed) = (failure \<noteq> None);
      valid_leg_transition (leg_state (leg_at a i)) s;
      call_state a = CallState.Ending \<longrightarrow> leg_state (leg_at a i) = LegState.Ending\<rbrakk>
     \<Longrightarrow> leg_report a (SetLegState at leg g s failure) at i s failure"
| source_gone:
    "\<lbrakk>leg_index a leg = Inr i; leg_binding_generation (leg_at a i) = g; call_updated_at a \<le> at;
      signaling_initiator (leg_at a i) = Remote;
      call_state a \<in> {CallState.Connecting, CallState.Ending};
      leg_state (leg_at a i) \<in>
        {LegState.Pending, LegState.AwaitingAttach, LegState.Signaling, LegState.Ending};
      failure = source_failure reason;
      s = (if failure \<noteq> None then LegState.Failed else LegState.Ended)\<rbrakk>
     \<Longrightarrow> leg_report a (SourceTerminatedBeforeAnswer at leg g reason) at i s failure"

definition outcome_of_report :: "FailureDetails option \<Rightarrow> TerminalOutcome" where
  "outcome_of_report failure =
     (case failure of Some f \<Rightarrow> TerminalOutcome.Failed f | None \<Rightarrow> TerminalOutcome.Ended)"

text \<open>In an ending call a failed report replaces the selected outcome.\<close>

definition note_failure :: "FailureDetails option \<Rightarrow> CallAggregate \<Rightarrow> CallAggregate" where
  "note_failure failure a =
     (case failure of
        Some f \<Rightarrow> a\<lparr>call_terminal_outcome := Some (TerminalOutcome.Failed f)\<rparr>
      | None \<Rightarrow> a)"

section \<open>Teardown\<close>

inductive teardown ::
    "CallAggregate \<Rightarrow> time \<Rightarrow> TerminalOutcome \<Rightarrow> StopLegReason \<Rightarrow> time option \<Rightarrow>
     CallAggregate \<Rightarrow> EffectIntent list \<Rightarrow> bool" where
  teardown_final:
    "all_legs_terminal (ending_core at outcome a) \<Longrightarrow>
     teardown a at outcome reason deadline (finalized at (ending_core at outcome a))
       (ending_effects reason a @ cancel_all_effects (ending_core at outcome a))"
| teardown_untimed:
    "\<not> all_legs_terminal (ending_core at outcome a) \<Longrightarrow>
     teardown a at outcome reason None (ending_core at outcome a) (ending_effects reason a)"
| teardown_timed:
    "\<lbrakk>\<not> all_legs_terminal (ending_core at outcome a);
      deadline_next (generation_of a DeadlineKind.Ending) = Inr g\<rbrakk>
     \<Longrightarrow> teardown a at outcome reason (Some d)
          (arm_due DeadlineKind.Ending g d (ending_core at outcome a))
          (ending_effects reason a @ cancel_effects a DeadlineKind.Ending @
             [ScheduleDeadline DeadlineKind.Ending g d])"

lemma begin_ending_internal_iff:
  "begin_ending_internal at outcome reason deadline (a, es) = Inr (b, fs) \<longleftrightarrow>
     (\<exists>gs. teardown a at outcome reason deadline b gs \<and> fs = es @ gs)"
  by (auto simp: begin_ending_internal_eq Let_def teardown.simps result_simps
      split: if_splits option.splits)

section \<open>The step relation\<close>

definition started :: "time \<Rightarrow> CallAggregate \<Rightarrow> CallAggregate" where
  "started at a =
     (set_call_state CallState.Connecting at a)
       \<lparr>call_legs := (fst (start_leg at (leg_at a Slot0)), fst (start_leg at (leg_at a Slot1)))\<rparr>"

definition signal_leg :: "time \<Rightarrow> LegSlot \<Rightarrow> CallAggregate \<Rightarrow> CallAggregate" where
  "signal_leg at i a =
     (if leg_state (leg_at a i) = LegState.Pending
      then put_leg a i ((leg_at a i)\<lparr>leg_state := LegState.Signaling, leg_state_changed_at := at\<rparr>)
      else a)"

definition rotated_leg :: "time \<Rightarrow> BindingGeneration \<Rightarrow> Leg \<Rightarrow> Leg" where
  "rotated_leg at g l =
     l\<lparr>leg_binding_generation := g,
       leg_replacement_generation_cursor :=
         map_option (\<lambda>cursor. max cursor g) (leg_replacement_generation_cursor l),
       leg_state := LegState.AwaitingAttach, leg_state_changed_at := at\<rparr>"

definition held_leg :: "time \<Rightarrow> BindingGeneration \<Rightarrow> Leg \<Rightarrow> Leg" where
  "held_leg at pending l =
     l\<lparr>leg_state := LegState.Held, leg_state_changed_at := at,
       leg_replacement_generation_cursor := Some pending\<rparr>"

definition resumed_leg :: "time \<Rightarrow> Leg \<Rightarrow> Leg" where
  "resumed_leg at l = l\<lparr>leg_state := LegState.Connected, leg_state_changed_at := at\<rparr>"

definition switched_leg :: "time \<Rightarrow> LegReplacement \<Rightarrow> Leg \<Rightarrow> Leg" where
  "switched_leg at r l =
     l\<lparr>leg_kind := repl_pending_kind r, leg_binding_generation := repl_pending_binding_generation r,
       leg_state := LegState.Connected, leg_state_changed_at := at, leg_failure := None\<rparr>"

definition after_replacement :: "time \<Rightarrow> LegSlot \<Rightarrow> Leg \<Rightarrow> CallAggregate \<Rightarrow> CallAggregate" where
  "after_replacement at i l a =
     set_call_state CallState.Active at
       ((put_leg (clear_due Transfer a) i l)\<lparr>call_replacement := None\<rparr>)"

definition expired :: "time \<Rightarrow> CallAggregate \<Rightarrow> CallAggregate" where
  "expired at a =
     (clear_due DeadlineKind.Ending a)
       \<lparr>call_legs := (expire_leg at (timeout_failure DeadlineKind.Ending) (leg_at a Slot0),
                      expire_leg at (timeout_failure DeadlineKind.Ending) (leg_at a Slot1)),
        call_terminal_outcome := Some (TerminalOutcome.Failed (timeout_failure DeadlineKind.Ending))\<rparr>"

inductive call_step ::
    "CallAggregate \<Rightarrow> CallCommand \<Rightarrow> CallAggregate \<Rightarrow> EffectIntent list \<Rightarrow> bool"
  for a :: CallAggregate where
  start:
    "\<lbrakk>call_state a = CallState.Pending; call_updated_at a \<le> at; at < due;
      deadline_next (generation_of a Setup) = Inr g\<rbrakk>
     \<Longrightarrow> call_step a (StartConnecting at due) (arm_due Setup g due (started at a))
          ([snd (start_leg at (leg_at a Slot0)), snd (start_leg at (leg_at a Slot1))] @
           cancel_effects a Setup @ [ScheduleDeadline Setup g due])"
| connect:
    "\<lbrakk>leg_report a c at i s failure; b = put_leg a i (reported_leg (leg_at a i) at s failure);
      call_state a = CallState.Connecting; \<forall>j. leg_state (leg_at b j) = LegState.Connected\<rbrakk>
     \<Longrightarrow> call_step a c (set_call_state CallState.Active at (clear_due Setup b))
          (cancel_effects a Setup @ [bridge_media_effect b])"
| leg_ending:
    "\<lbrakk>leg_report a c at i s failure;
      b = note_failure failure (put_leg a i (reported_leg (leg_at a i) at s failure));
      call_state a = CallState.Ending; \<not> all_legs_terminal b\<rbrakk>
     \<Longrightarrow> call_step a c b []"
| last_leg:
    "\<lbrakk>leg_report a c at i s failure;
      b = note_failure failure (put_leg a i (reported_leg (leg_at a i) at s failure));
      call_state a = CallState.Ending; all_legs_terminal b\<rbrakk>
     \<Longrightarrow> call_step a c (finalized at b) (cancel_all_effects b)"
| leg_down:
    "\<lbrakk>leg_report a c at i s failure; b = put_leg a i (reported_leg (leg_at a i) at s failure);
      call_state a \<noteq> CallState.Ending; s \<in> {LegState.Ending, LegState.Ended, LegState.Failed};
      teardown b at (outcome_of_report failure)
        (if failure \<noteq> None then StopLegReason.Failure else PeerEnded) None b' es\<rbrakk>
     \<Longrightarrow> call_step a c b' es"
| leg_progress:
    "\<lbrakk>leg_report a c at i s failure; b = put_leg a i (reported_leg (leg_at a i) at s failure);
      call_state a \<noteq> CallState.Ending; s \<notin> {LegState.Ending, LegState.Ended, LegState.Failed};
      \<not> (call_state a = CallState.Connecting \<and> (\<forall>j. leg_state (leg_at b j) = LegState.Connected))\<rbrakk>
     \<Longrightarrow> call_step a c b []"
| media_started:
    "\<lbrakk>leg_index a leg = Inr i; leg_binding_generation (leg_at a i) = g; call_updated_at a \<le> at;
      call_state a = CallState.Connecting; leg_direction (leg_at a i) = Outbound;
      leg_kind (leg_at a i) = Telnyx;
      leg_state (leg_at a i) \<in> {LegState.Pending, LegState.Signaling}\<rbrakk>
     \<Longrightarrow> call_step a (ProviderMediaStarted at leg g) (signal_leg at i a)
          [ConnectProviderDestination leg g]"
| media_attached:
    "\<lbrakk>leg_index a leg = Inr i; leg_binding_generation (leg_at a i) = g; call_updated_at a \<le> at;
      call_state a = CallState.Connecting; leg_direction (leg_at a i) = Outbound;
      leg_kind (leg_at a i) = Telnyx;
      leg_state (leg_at a i) \<in> {LegState.Pending, LegState.Signaling}\<rbrakk>
     \<Longrightarrow> call_step a (ProviderMediaAttached at leg g) (signal_leg at i a) []"
| pending_media_attached:
    "\<lbrakk>leg_index a leg = Inr i; call_updated_at a \<le> at; call_state a = CallState.Transferring;
      call_replacement a = Some r; repl_leg_id r = leg; repl_pending_kind r = Telnyx;
      repl_pending_binding_generation r = g\<rbrakk>
     \<Longrightarrow> call_step a (ProviderMediaAttached at leg g) a []"
| rotate:
    "\<lbrakk>leg_index a leg = Inr i; leg_binding_generation (leg_at a i) = g; call_updated_at a \<le> at;
      call_state a = CallState.Connecting;
      leg_state (leg_at a i) \<in> {LegState.AwaitingAttach, LegState.Signaling};
      binding_next g = Inr g'\<rbrakk>
     \<Longrightarrow> call_step a (RotateLegBinding at leg g) (put_leg a i (rotated_leg at g' (leg_at a i)))
          [AwaitLegAttachment leg g']"
| arm:
    "\<lbrakk>call_updated_at a \<le> at; deadline_allowed (call_state a) kind; at < due;
      deadline_next (generation_of a kind) = Inr g\<rbrakk>
     \<Longrightarrow> call_step a (ArmDeadline at kind due) (arm_due kind g due a)
          (cancel_effects a kind @ [ScheduleDeadline kind g due])"
| transfer:
    "\<lbrakk>call_updated_at a \<le> at; call_state a = CallState.Active; at < due;
      deadline_next (generation_of a Transfer) = Inr g\<rbrakk>
     \<Longrightarrow> call_step a (BeginTransfer at due)
          (arm_due Transfer g due (set_call_state CallState.Transferring at a))
          (cancel_effects a Transfer @ [ScheduleDeadline Transfer g due, ExecuteTransfer g])"
| replace:
    "\<lbrakk>call_updated_at a \<le> at; call_state a = CallState.Active; call_replacement a = None; at < due;
      leg_index a leg = Inr i; leg_state (leg_at a i) = LegState.Connected;
      next_replacement_binding_generation (leg_at a i) = Inr pending;
      deadline_next (generation_of a Transfer) = Inr g;
      b = set_call_state CallState.Transferring at (put_leg a i (held_leg at pending (leg_at a i)))\<rbrakk>
     \<Longrightarrow> call_step a (BeginLegReplacement at leg kind due)
          ((arm_due Transfer g due b)\<lparr>call_replacement := Some
             \<lparr>repl_leg_id = leg,
              repl_previous_binding_generation = leg_binding_generation (leg_at a i),
              repl_pending_binding_generation = pending, repl_pending_kind = kind\<rparr>\<rparr>)
          ([unbridge_media_effect b] @ cancel_effects a Transfer @
           [ScheduleDeadline Transfer g due,
            StartLegReplacement leg (leg_binding_generation (leg_at a i)) pending kind g])"
| transfer_done:
    "\<lbrakk>g = generation_of a Transfer; call_updated_at a \<le> at; call_replacement a = None;
      call_state a = CallState.Transferring; due_at a Transfer \<noteq> None\<rbrakk>
     \<Longrightarrow> call_step a (FinishTransfer at g result)
          (set_call_state CallState.Active at (clear_due Transfer a))
          (cancel_effects a Transfer @
           (case result of TransferResult.Rejected failure \<Rightarrow> [CompensateTransfer failure]
            | TransferResult.Completed \<Rightarrow> []))"
| switch:
    "\<lbrakk>g = generation_of a Transfer; call_updated_at a \<le> at; call_replacement a = Some r;
      call_state a = CallState.Transferring; due_at a Transfer \<noteq> None;
      leg_index a (repl_leg_id r) = Inr i\<rbrakk>
     \<Longrightarrow> call_step a
          (FinishLegReplacement at g (repl_pending_binding_generation r)
             LegReplacementResult.Connected)
          (after_replacement at i (switched_leg at r (leg_at a i)) a)
          (cancel_effects a Transfer @
           [StopLeg (repl_leg_id r) (repl_previous_binding_generation r) Requested,
            bridge_media_effect (after_replacement at i (switched_leg at r (leg_at a i)) a)])"
| restore:
    "\<lbrakk>g = generation_of a Transfer; call_updated_at a \<le> at; call_replacement a = Some r;
      call_state a = CallState.Transferring; due_at a Transfer \<noteq> None;
      leg_index a (repl_leg_id r) = Inr i\<rbrakk>
     \<Longrightarrow> call_step a
          (FinishLegReplacement at g (repl_pending_binding_generation r)
             (LegReplacementResult.Rejected f))
          (after_replacement at i (resumed_leg at (leg_at a i)) a)
          (cancel_effects a Transfer @
           [AbortLegReplacement (repl_leg_id r) (repl_pending_binding_generation r),
            bridge_media_effect (after_replacement at i (resumed_leg at (leg_at a i)) a)])"
| hang_up:
    "\<lbrakk>call_updated_at a \<le> at; \<not> call_is_terminal (call_state a);
      \<not> (call_state a = CallState.Ending \<and> deadline = None); \<not> not_future at deadline;
      teardown a at TerminalOutcome.Ended reason deadline b es\<rbrakk>
     \<Longrightarrow> call_step a (BeginEnding at deadline reason) b es"
| ending_timeout:
    "\<lbrakk>g = generation_of a DeadlineKind.Ending; due_at a DeadlineKind.Ending = Some due;
      call_updated_at a \<le> at; due \<le> at; \<not> not_future at deadline\<rbrakk>
     \<Longrightarrow> call_step a (DeadlineElapsed at DeadlineKind.Ending g deadline)
          (finalized at (expired at a)) (cancel_all_effects (expired at a))"
| replacement_timeout:
    "\<lbrakk>g = generation_of a Transfer; due_at a Transfer = Some due; call_updated_at a \<le> at;
      due \<le> at; \<not> not_future at deadline; call_replacement a = Some r;
      leg_index a (repl_leg_id r) = Inr i\<rbrakk>
     \<Longrightarrow> call_step a (DeadlineElapsed at Transfer g deadline)
          (after_replacement at i (resumed_leg at (leg_at a i)) a)
          [AbortLegReplacement (repl_leg_id r) (repl_pending_binding_generation r),
           bridge_media_effect (after_replacement at i (resumed_leg at (leg_at a i)) a)]"
| timeout:
    "\<lbrakk>g = generation_of a kind; due_at a kind = Some due; call_updated_at a \<le> at; due \<le> at;
      \<not> not_future at deadline; kind \<noteq> DeadlineKind.Ending;
      kind = Transfer \<longrightarrow> call_replacement a = None;
      teardown (clear_due kind a) at (TerminalOutcome.Failed (timeout_failure kind))
        DeadlineExpired deadline b es\<rbrakk>
     \<Longrightarrow> call_step a (DeadlineElapsed at kind g deadline) b
          ((if kind = Transfer then [CompensateTransfer (timeout_failure kind)] else []) @ es)"

inductive_cases teardownE: "teardown a at outcome reason deadline b es"
inductive_cases leg_reportE: "leg_report a c at i s failure"

section \<open>The handlers follow the step relation\<close>

definition follows :: "CallAggregate \<Rightarrow> CallCommand \<Rightarrow> CallAggregate \<times> CommandResult \<Rightarrow> bool" where
  "follows a c = (\<lambda>(b, r).
     if result_disposition r = Applied
     then call_step a c b (result_effects r) \<and> result_at r = command_at c
     else b = a \<and> result_effects r = [])"

lemma follows_applied [simp]:
  "follows a c (b, applied at es) \<longleftrightarrow> call_step a c b es \<and> at = command_at c"
  by (simp add: follows_def applied_def)

lemma follows_ignored [simp]: "d \<noteq> Applied \<Longrightarrow> follows a c (b, ignored at d) \<longleftrightarrow> b = a"
  by (simp add: follows_def ignored_def)

lemma ensure_timestamp_Inr [result_simps]: "ensure_timestamp a at = Inr u \<longleftrightarrow> call_updated_at a \<le> at"
  by (auto simp: ensure_timestamp_def)

lemma return_some_binding [result_simps]:
  "return_some a (compare_binding_generation leg current supplied at) rest = Inr x \<longleftrightarrow>
     supplied < current \<and> x = (a, ignored at IgnoredStaleGeneration) \<or>
     supplied = current \<and> rest = Inr x"
  by (auto simp: return_some_def compare_binding_generation_def)

lemma return_some_deadline [result_simps]:
  "return_some a (compare_deadline_generation a kind supplied at) rest = Inr x \<longleftrightarrow>
     supplied < generation_of a kind \<and> x = (a, ignored at IgnoredStaleGeneration) \<or>
     supplied = generation_of a kind \<and> rest = Inr x"
  by (auto simp: return_some_def compare_deadline_generation_def Let_def)

lemma finish_applied_Inr [result_simps]:
  "finish_applied at r = Inr x \<longleftrightarrow> (\<exists>a es. r = Inr (a, es) \<and> x = (a, applied at es))"
  by (cases r) (auto simp: finish_applied_def)

lemma arm_deadline_internal_Inr [result_simps]:
  "arm_deadline_internal k due (a, es) = Inr x \<longleftrightarrow>
     (\<exists>g. deadline_next (generation_of a k) = Inr g \<and>
        x = (g, arm_due k g due a, es @ cancel_effects a k @ [ScheduleDeadline k g due]))"
  by (auto simp: arm_deadline_internal_eq result_simps)

lemma start_connecting_follows:
  "start_connecting a at due = Inr x \<Longrightarrow> follows a (StartConnecting at due) x"
  using call_step.start [of a at due]
  by (auto simp: start_connecting_def started_def result_simps Let_def case_prod_beta
      split: if_splits)

lemma list_all_legs [simp]: "list_all P (legs_of a) \<longleftrightarrow> (\<forall>i. P (leg_at a i))"
  by (simp add: legs_of_slots all_slots)

lemma reconcile_follows:
  assumes r: "leg_report a c at i s failure"
    and e: "reconcile_leg_state i at (put_leg a i (reported_leg (leg_at a i) at s failure)) = Inr (b, es)"
  shows "call_step a c b es"
proof -
  let ?b = "put_leg a i (reported_leg (leg_at a i) at s failure)"
  have leg: "leg_failure (leg_at ?b i) = failure" "leg_state (leg_at ?b i) = s"
    by (simp_all add: reported_leg_def)
  have noted: "(case failure of None \<Rightarrow> ?b
       | Some f \<Rightarrow> ?b\<lparr>call_terminal_outcome := Some (TerminalOutcome.Failed f)\<rparr>)
     = note_failure failure ?b"
    by (simp add: note_failure_def split: option.split)
  consider
    (connect) "call_state a = CallState.Connecting" "\<forall>j. leg_state (leg_at ?b j) = LegState.Connected"
  | (ending) "call_state a = CallState.Ending"
  | (down) "call_state a \<noteq> CallState.Ending"
      "\<not> (call_state a = CallState.Connecting \<and> (\<forall>j. leg_state (leg_at ?b j) = LegState.Connected))"
      "s \<in> {LegState.Ending, LegState.Ended, LegState.Failed}"
  | (progress) "call_state a \<noteq> CallState.Ending"
      "\<not> (call_state a = CallState.Connecting \<and> (\<forall>j. leg_state (leg_at ?b j) = LegState.Connected))"
      "s \<notin> {LegState.Ending, LegState.Ended, LegState.Failed}"
    by blast
  then show ?thesis
  proof cases
    case connect
    with e have "b = set_call_state CallState.Active at (clear_due Setup ?b)"
      "es = cancel_effects a Setup @ [bridge_media_effect ?b]"
      by (auto simp: reconcile_leg_state_def Let_def cancel_deadline_internal_eq
          bridge_media_effect_def)
    with connect r show ?thesis using call_step.connect by metis
  next
    case ending
    with e have "Inr (b, es) = (if all_legs_terminal (note_failure failure ?b)
        then Inr (finalize_terminal at (note_failure failure ?b, []))
        else Inr (note_failure failure ?b, []))"
      unfolding reconcile_leg_state_def Let_def leg noted by (auto split: if_splits)
    then show ?thesis
      using ending r call_step.last_leg call_step.leg_ending
      by (auto simp: finalize_terminal_eq split: if_splits)
  next
    case down
    with e have "begin_ending_internal at (outcome_of_report failure)
        (if failure \<noteq> None then StopLegReason.Failure else PeerEnded) None (?b, []) = Inr (b, es)"
      unfolding reconcile_leg_state_def Let_def leg
      by (auto simp: outcome_of_report_def split: if_splits)
    then have "teardown ?b at (outcome_of_report failure)
        (if failure \<noteq> None then StopLegReason.Failure else PeerEnded) None b es"
      by (simp add: begin_ending_internal_iff)
    with down r show ?thesis using call_step.leg_down by metis
  next
    case progress
    with e have "b = ?b" "es = []"
      unfolding reconcile_leg_state_def Let_def leg by (auto split: if_splits)
    with progress r show ?thesis using call_step.leg_progress by metis
  qed
qed

lemma reported_leg_let:
  "(let l = l0\<lparr>leg_state := s, leg_state_changed_at := at\<rparr>;
        l = (if s = LegState.Connected \<and> leg_connected_at l = None
             then l\<lparr>leg_connected_at := Some at\<rparr> else l);
        l = (if leg_is_terminal s then l\<lparr>leg_ended_at := Some at\<rparr> else l);
        l = l\<lparr>leg_failure := failure\<rparr>
    in f l) = f (reported_leg l0 at s failure)"
  by (simp add: reported_leg_def Let_def)

lemma set_leg_state_follows:
  assumes "set_leg_state a at leg g s failure = Inr x"
  shows "follows a (SetLegState at leg g s failure) x"
proof -
  obtain i where i: "leg_index a leg = Inr i"
    using assms by (auto simp: set_leg_state_def result_simps)
  let ?l = "leg_at a i"
  consider "x = (a, ignored at IgnoredStaleGeneration)" | "x = (a, ignored at IgnoredNoop)"
    | b es where "leg_report a (SetLegState at leg g s failure) at i s failure"
      "reconcile_leg_state i at (put_leg a i (reported_leg ?l at s failure)) = Inr (b, es)"
      "x = (b, applied at es)"
    using assms i unfolding set_leg_state_def reported_leg_let
    by (auto simp: result_simps Let_def leg_report.simps split: if_splits)
  then show ?thesis
    by cases (auto dest: reconcile_follows)
qed

lemma source_terminated_follows:
  assumes "source_terminated_before_answer a at leg g reason = Inr x"
  shows "follows a (SourceTerminatedBeforeAnswer at leg g reason) x"
proof -
  obtain i where i: "leg_index a leg = Inr i"
    using assms by (auto simp: source_terminated_before_answer_def result_simps)
  let ?l = "leg_at a i" and ?f = "source_failure reason"
  let ?s = "if ?f \<noteq> None then LegState.Failed else LegState.Ended"
  have leg: "?l\<lparr>leg_state := ?s, leg_state_changed_at := at, leg_ended_at := Some at,
      leg_failure := ?f\<rparr> = reported_leg ?l at ?s ?f"
    by (simp add: reported_leg_def leg_is_terminal_def)
  consider "x = (a, ignored at IgnoredStaleGeneration)" | "x = (a, ignored at IgnoredNoop)"
    | b es where "leg_report a (SourceTerminatedBeforeAnswer at leg g reason) at i ?s ?f"
      "reconcile_leg_state i at (put_leg a i (reported_leg ?l at ?s ?f)) = Inr (b, es)"
      "x = (b, applied at es)"
    using assms i leg
    unfolding source_terminated_before_answer_def source_failure_def [symmetric]
    by (auto simp: result_simps Let_def leg_report.simps split: if_splits)
  then show ?thesis
    by cases (auto dest: reconcile_follows)
qed

lemma provider_media_started_follows:
  "provider_media_started a at leg g = Inr x \<Longrightarrow> follows a (ProviderMediaStarted at leg g) x"
  using call_step.media_started [of a leg _ g at]
  by (auto simp: provider_media_started_def signal_leg_def result_simps Let_def split: if_splits)

lemma provider_media_attached_follows:
  "provider_media_attached a at leg g = Inr x \<Longrightarrow> follows a (ProviderMediaAttached at leg g) x"
  using call_step.media_attached [of a leg _ g at] call_step.pending_media_attached [of a leg _ at _ g]
  by (auto simp: provider_media_attached_def signal_leg_def result_simps Let_def
      split: if_splits option.splits)

lemma rotated_leg_let:
  "(let l = l0\<lparr>leg_binding_generation := g\<rparr>;
        l = (case leg_replacement_generation_cursor l of
               Some cursor \<Rightarrow>
                 if cursor < g then l\<lparr>leg_replacement_generation_cursor := Some g\<rparr> else l
             | None \<Rightarrow> l);
        l = l\<lparr>leg_state := LegState.AwaitingAttach, leg_state_changed_at := at\<rparr>
    in f l) = f (rotated_leg at g l0)"
  by (cases "leg_replacement_generation_cursor l0")
    (auto simp: rotated_leg_def Let_def max_def not_less intro!: arg_cong [of _ _ f])

lemma rotate_leg_binding_follows:
  "rotate_leg_binding a at leg g = Inr x \<Longrightarrow> follows a (RotateLegBinding at leg g) x"
  unfolding rotate_leg_binding_def rotated_leg_let
  using call_step.rotate [of a leg _ g at]
  by (auto simp: result_simps Let_def split: if_splits)

lemma arm_deadline_command_follows:
  "arm_deadline_command a at kind due = Inr x \<Longrightarrow> follows a (ArmDeadline at kind due) x"
  using call_step.arm [of a at kind due]
  by (auto simp: arm_deadline_command_def result_simps split: if_splits)

lemma begin_transfer_follows:
  "begin_transfer a at due = Inr x \<Longrightarrow> follows a (BeginTransfer at due) x"
  using call_step.transfer [of a at due]
  by (auto simp: begin_transfer_def result_simps split: if_splits)

lemma begin_leg_replacement_follows:
  "begin_leg_replacement a at leg kind due = Inr x \<Longrightarrow>
   follows a (BeginLegReplacement at leg kind due) x"
  using call_step.replace [of a at due leg _ _ _ _ kind, OF _ _ _ _ _ _ _ _ refl]
  by (auto simp: begin_leg_replacement_def held_leg_def result_simps Let_def split: if_splits)

lemma finish_transfer_follows:
  "finish_transfer a at g result = Inr x \<Longrightarrow> follows a (FinishTransfer at g result) x"
  using call_step.transfer_done [of g a at result]
  by (auto simp: finish_transfer_def cancel_deadline_internal_eq result_simps Let_def
      split: if_splits TransferResult.splits)

lemma finish_leg_replacement_follows:
  "finish_leg_replacement a at dg bg result = Inr x \<Longrightarrow>
   follows a (FinishLegReplacement at dg bg result) x"
  using call_step.switch [of dg a at] call_step.restore [of dg a at]
  by (cases result; cases "call_replacement a")
    (auto simp: finish_leg_replacement_def after_replacement_def switched_leg_def resumed_leg_def
      cancel_deadline_internal_eq result_simps Let_def split: if_splits)

lemma begin_ending_command_follows:
  "begin_ending_command a at deadline reason = Inr x \<Longrightarrow>
   follows a (BeginEnding at deadline reason) x"
  using call_step.hang_up [of a at deadline reason]
  by (auto simp: begin_ending_command_def begin_ending_internal_iff result_simps split: if_splits)

lemma deadline_elapsed_follows:
  assumes "deadline_elapsed a at kind g deadline = Inr x"
  shows "follows a (DeadlineElapsed at kind g deadline) x"
proof (cases "kind = DeadlineKind.Ending")
  case True
  with assms show ?thesis
    using call_step.ending_timeout [of g a _ at deadline]
    by (auto simp: deadline_elapsed_def result_simps Let_def finalize_terminal_eq expired_def
        clear_due_def split: if_splits option.splits)
next
  case False
  with assms show ?thesis
    using call_step.timeout [of g a kind _ at deadline]
      call_step.replacement_timeout [of g a _ at deadline]
    by (auto simp: deadline_elapsed_def result_simps Let_def begin_ending_internal_iff
        after_replacement_def resumed_leg_def clear_due_def split: if_splits option.splits)
qed

theorem apply_command_follows: "apply_command a c = Inr x \<Longrightarrow> follows a c x"
  by (cases c)
    (simp_all add: start_connecting_follows set_leg_state_follows source_terminated_follows
      provider_media_started_follows provider_media_attached_follows rotate_leg_binding_follows
      arm_deadline_command_follows begin_transfer_follows begin_leg_replacement_follows
      finish_transfer_follows finish_leg_replacement_follows begin_ending_command_follows
      deadline_elapsed_follows)

end
