(* ===== verification/Call_Invariant.thy ===== *)
theory Call_Invariant
  imports Call_Step
begin

text \<open>
  The invariant of the call aggregate: every applied transition keeps every conjunct of
  \<open>validate\<close>, apart from two reports that the handlers accept and only the final check of
  \<open>decide\<close> rejects (\<open>snapshot_conflict\<close>). Then the frame, the counters and the state
  graph of a decision.
\<close>

section \<open>What a step leaves alone\<close>

definition stamp :: "AggregateVersion \<Rightarrow> time \<Rightarrow> CallAggregate \<Rightarrow> CallAggregate" where
  "stamp v at a = a\<lparr>call_version := v, call_updated_at := at\<rparr>"

lemma stamp_simps [simp]:
  "call_id (stamp v at a) = call_id a" "call_tenant_id (stamp v at a) = call_tenant_id a"
  "call_version (stamp v at a) = v" "call_state (stamp v at a) = call_state a"
  "call_legs (stamp v at a) = call_legs a" "leg_at (stamp v at a) i = leg_at a i"
  "call_terminal_outcome (stamp v at a) = call_terminal_outcome a"
  "call_replacement (stamp v at a) = call_replacement a"
  "call_created_at (stamp v at a) = call_created_at a" "call_updated_at (stamp v at a) = at"
  "call_state_changed_at (stamp v at a) = call_state_changed_at a"
  "due_at (stamp v at a) k = due_at a k" "generation_of (stamp v at a) k = generation_of a k"
  by (simp_all add: stamp_def)

lemma note_failure_frame [simp]:
  "call_id (note_failure f a) = call_id a" "call_tenant_id (note_failure f a) = call_tenant_id a"
  "call_version (note_failure f a) = call_version a" "call_state (note_failure f a) = call_state a"
  "leg_at (note_failure f a) i = leg_at a i"
  "call_replacement (note_failure f a) = call_replacement a"
  "call_created_at (note_failure f a) = call_created_at a"
  "call_updated_at (note_failure f a) = call_updated_at a"
  "call_state_changed_at (note_failure f a) = call_state_changed_at a"
  "due_at (note_failure f a) k = due_at a k" "generation_of (note_failure f a) k = generation_of a k"
  "call_terminal_outcome (note_failure f a) =
     (case f of Some x \<Rightarrow> Some (TerminalOutcome.Failed x) | None \<Rightarrow> call_terminal_outcome a)"
  by (simp_all add: note_failure_def split: option.split)

lemma started_frame [simp]:
  "call_id (started at a) = call_id a" "call_tenant_id (started at a) = call_tenant_id a"
  "call_version (started at a) = call_version a" "call_state (started at a) = CallState.Connecting"
  "leg_at (started at a) i = fst (start_leg at (leg_at a i))"
  "call_terminal_outcome (started at a) = call_terminal_outcome a"
  "call_replacement (started at a) = call_replacement a"
  "call_created_at (started at a) = call_created_at a"
  "call_updated_at (started at a) = call_updated_at a"
  "call_state a \<noteq> CallState.Connecting \<Longrightarrow> call_state_changed_at (started at a) = at"
  "due_at (started at a) k = due_at a k" "generation_of (started at a) k = generation_of a k"
  by (cases i; simp add: started_def set_call_state_changed)+

lemma signal_leg_frame [simp]:
  "call_id (signal_leg at j a) = call_id a" "call_tenant_id (signal_leg at j a) = call_tenant_id a"
  "call_version (signal_leg at j a) = call_version a" "call_state (signal_leg at j a) = call_state a"
  "call_terminal_outcome (signal_leg at j a) = call_terminal_outcome a"
  "call_replacement (signal_leg at j a) = call_replacement a"
  "call_created_at (signal_leg at j a) = call_created_at a"
  "call_updated_at (signal_leg at j a) = call_updated_at a"
  "call_state_changed_at (signal_leg at j a) = call_state_changed_at a"
  "due_at (signal_leg at j a) k = due_at a k"
  "generation_of (signal_leg at j a) k = generation_of a k"
  "leg_at (signal_leg at j a) i =
     (if i = j \<and> leg_state (leg_at a j) = LegState.Pending
      then (leg_at a j)\<lparr>leg_state := LegState.Signaling, leg_state_changed_at := at\<rparr>
      else leg_at a i)"
  by (simp_all add: signal_leg_def)

lemma after_replacement_frame [simp]:
  "call_id (after_replacement at j l a) = call_id a"
  "call_tenant_id (after_replacement at j l a) = call_tenant_id a"
  "call_version (after_replacement at j l a) = call_version a"
  "call_state (after_replacement at j l a) = CallState.Active"
  "call_terminal_outcome (after_replacement at j l a) = call_terminal_outcome a"
  "call_replacement (after_replacement at j l a) = None"
  "call_created_at (after_replacement at j l a) = call_created_at a"
  "call_updated_at (after_replacement at j l a) = call_updated_at a"
  "call_state_changed_at (after_replacement at j l a) =
     (if call_state a = CallState.Active then call_state_changed_at a else at)"
  "due_at (after_replacement at j l a) k = (if k = Transfer then None else due_at a k)"
  "generation_of (after_replacement at j l a) k = generation_of a k"
  "leg_at (after_replacement at j l a) i = (if i = j then l else leg_at a i)"
  by (simp_all add: after_replacement_def set_call_state_changed)

lemma expired_frame [simp]:
  "call_id (expired at a) = call_id a" "call_tenant_id (expired at a) = call_tenant_id a"
  "call_version (expired at a) = call_version a" "call_state (expired at a) = call_state a"
  "leg_at (expired at a) i = expire_leg at (timeout_failure DeadlineKind.Ending) (leg_at a i)"
  "call_terminal_outcome (expired at a) =
     Some (TerminalOutcome.Failed (timeout_failure DeadlineKind.Ending))"
  "call_replacement (expired at a) = call_replacement a"
  "call_created_at (expired at a) = call_created_at a"
  "call_updated_at (expired at a) = call_updated_at a"
  "call_state_changed_at (expired at a) = call_state_changed_at a"
  "due_at (expired at a) k = (if k = DeadlineKind.Ending then None else due_at a k)"
  "generation_of (expired at a) k = generation_of a k"
  by (cases i; simp add: expired_def)+

text \<open>The fields of a leg that no transition writes.\<close>

definition same_leg :: "Leg \<Rightarrow> Leg \<Rightarrow> bool" where
  "same_leg l m \<longleftrightarrow>
     leg_id m = leg_id l \<and> leg_direction m = leg_direction l \<and>
     leg_signaling_initiator m = leg_signaling_initiator l \<and>
     leg_media_flow m = leg_media_flow l \<and> leg_created_at m = leg_created_at l"

lemma same_leg_intros [simp, intro]:
  "same_leg l l" "same_leg l (stopped_leg at l)" "same_leg l (reported_leg l at s f)"
  "same_leg l (fst (start_leg at l))" "same_leg l (rotated_leg at g l)"
  "same_leg l (held_leg at g l)" "same_leg l (resumed_leg at l)" "same_leg l (switched_leg at r l)"
  "same_leg l (expire_leg at failure l)"
  "same_leg l (l\<lparr>leg_state := s, leg_state_changed_at := at\<rparr>)"
  by (simp_all add: same_leg_def reported_leg_def start_leg_def rotated_leg_def held_leg_def
      resumed_leg_def switched_leg_def expire_leg_def)

lemma same_leg_trans: "same_leg l m \<Longrightarrow> same_leg m n \<Longrightarrow> same_leg l n"
  by (simp add: same_leg_def)

definition same_call :: "CallAggregate \<Rightarrow> CallAggregate \<Rightarrow> bool" where
  "same_call a b \<longleftrightarrow>
     call_id b = call_id a \<and> call_tenant_id b = call_tenant_id a \<and>
     call_created_at b = call_created_at a \<and> (\<forall>i. same_leg (leg_at a i) (leg_at b i))"

lemma teardown_frame:
  assumes "teardown a at outcome reason deadline b es"
  shows "same_call a b" "call_version b = call_version a" "call_updated_at b = call_updated_at a"
    "leg_at b i = stopped_leg at (leg_at a i)" "call_replacement b = None"
  using assms by (auto elim!: teardownE simp: same_call_def)

lemma call_step_frame:
  assumes "call_step a c b es"
  shows "same_call a b \<and> call_version b = call_version a \<and> call_updated_at b = call_updated_at a"
  using assms
proof cases
  case (leg_down at i s failure b)
  then show ?thesis
    using teardown_frame [of b] by (auto simp: same_call_def intro: same_leg_trans)
next
  case (hang_up at deadline reason)
  then show ?thesis using teardown_frame [of a] by auto
next
  case (timeout g kind due at deadline es)
  then show ?thesis using teardown_frame [of "clear_due kind a"] by (auto simp: same_call_def)
qed (auto simp: same_call_def)

lemma call_step_at: "call_step a c b es \<Longrightarrow> call_updated_at a \<le> command_at c"
  by (auto elim!: call_step.cases leg_report.cases)

lemma leg_report_at: "leg_report a c at i s failure \<Longrightarrow> at = command_at c"
  by (auto elim!: leg_report.cases)

section \<open>The invariant of a leg\<close>

lemma leg_ok_mono:
  "leg_ok a l \<Longrightarrow> call_created_at b = call_created_at a \<Longrightarrow> call_updated_at a \<le> call_updated_at b \<Longrightarrow>
   leg_ok b l"
  by (auto simp: leg_ok_def within_def outside_def split: option.splits)

lemmas leg_ok_unfold = leg_ok_def within_def outside_def leg_is_terminal_def
  replacement_generation_cursor_def

lemma leg_ok_updates:
  assumes ok: "leg_ok a l" and same: "call_created_at b = call_created_at a"
    and at: "call_updated_at a \<le> at" "call_updated_at b = at"
  shows
    "leg_ok b (stopped_leg at l)"
    "leg_ok b (expire_leg at f l)"
    "\<not> leg_is_terminal (leg_state l) \<Longrightarrow> (s = LegState.Failed) = (failure \<noteq> None) \<Longrightarrow>
       leg_ok b (reported_leg l at s failure)"
    "\<not> leg_is_terminal (leg_state l) \<Longrightarrow> leg_ok b (fst (start_leg at l))"
    "\<not> leg_is_terminal (leg_state l) \<Longrightarrow> \<not> leg_is_terminal s \<Longrightarrow>
       leg_ok b (l\<lparr>leg_state := s, leg_state_changed_at := at\<rparr>)"
    "\<not> leg_is_terminal (leg_state l) \<Longrightarrow> binding_next (leg_binding_generation l) = Inr g \<Longrightarrow>
       leg_ok b (rotated_leg at g l)"
    "\<not> leg_is_terminal (leg_state l) \<Longrightarrow> binding_next (replacement_generation_cursor l) = Inr g \<Longrightarrow>
       leg_ok b (held_leg at g l)"
    "\<not> leg_is_terminal (leg_state l) \<Longrightarrow> leg_ok b (resumed_leg at l)"
    "\<not> leg_is_terminal (leg_state l) \<Longrightarrow>
       repl_pending_binding_generation r = replacement_generation_cursor l \<Longrightarrow>
       leg_ok b (switched_leg at r l)"
proof -
  note base = ok [unfolded leg_ok_def within_def] same at
  note split_opt = option.splits if_splits
  show "leg_ok b (stopped_leg at l)"
    using base by (auto simp: leg_ok_unfold stopped_leg_def stop_leg_def split: split_opt)
  show "leg_ok b (expire_leg at f l)"
    using base by (auto simp: leg_ok_unfold expire_leg_def split: split_opt)
  show "leg_ok b (reported_leg l at s failure)"
    if "\<not> leg_is_terminal (leg_state l)" "(s = LegState.Failed) = (failure \<noteq> None)"
    using base that by (auto simp: leg_ok_unfold reported_leg_def split: split_opt)
  show "leg_ok b (fst (start_leg at l))" if "\<not> leg_is_terminal (leg_state l)"
    using base that by (auto simp: leg_ok_unfold start_leg_def split: split_opt)
  show "leg_ok b (l\<lparr>leg_state := s, leg_state_changed_at := at\<rparr>)"
    if "\<not> leg_is_terminal (leg_state l)" "\<not> leg_is_terminal s"
    using base that by (auto simp: leg_ok_unfold split: split_opt)
  show "leg_ok b (rotated_leg at g l)"
    if "\<not> leg_is_terminal (leg_state l)" "binding_next (leg_binding_generation l) = Inr g"
    using base that binding_next_Inr [of "leg_binding_generation l" g]
    by (auto simp: leg_ok_unfold rotated_leg_def split: split_opt)
  show "leg_ok b (held_leg at g l)"
    if "\<not> leg_is_terminal (leg_state l)" "binding_next (replacement_generation_cursor l) = Inr g"
    using base that binding_next_Inr [of "replacement_generation_cursor l" g]
    by (auto simp: leg_ok_unfold held_leg_def split: split_opt)
  show "leg_ok b (resumed_leg at l)" if "\<not> leg_is_terminal (leg_state l)"
    using base that by (auto simp: leg_ok_unfold resumed_leg_def split: split_opt)
  show "leg_ok b (switched_leg at r l)"
    if "\<not> leg_is_terminal (leg_state l)"
      "repl_pending_binding_generation r = replacement_generation_cursor l"
    using base that by (auto simp: leg_ok_unfold switched_leg_def less_eq_BindingGeneration_def
        split: split_opt)
qed

section \<open>The invariant of a step\<close>

text \<open>Times and leg records.\<close>

definition times_ok :: "CallAggregate \<Rightarrow> bool" where
  "times_ok a \<longleftrightarrow>
     call_created_at a \<le> call_updated_at a \<and> call_state_changed_at a \<le> call_updated_at a \<and>
     (\<forall>i. leg_ok a (leg_at a i))"

text \<open>Leg states, outcome and deadlines against the call state.\<close>

definition states_ok :: "CallAggregate \<Rightarrow> bool" where
  "states_ok a \<longleftrightarrow>
     (\<forall>i. leg_states_ok (call_state a) (leg_state (leg_at a i))) \<and>
     outcome_ok (call_state a) (some_leg_failed a) (call_terminal_outcome a) \<and>
     (\<forall>k. due_at a k \<noteq> None \<longrightarrow> deadline_allowed (call_state a) k)"

definition plan_ok :: "CallAggregate \<Rightarrow> bool" where
  "plan_ok a \<longleftrightarrow>
     leg_id (leg_at a Slot0) \<noteq> leg_id (leg_at a Slot1) \<and>
     validate_media_flows (leg_media_flow (leg_at a Slot0)) (leg_media_flow (leg_at a Slot1)) = Inr ()"

lemma valid_split: "valid a \<longleftrightarrow> plan_ok a \<and> times_ok a \<and> states_ok a \<and> replacement_ok a"
  by (auto simp: valid_iff plan_ok_def times_ok_def states_ok_def)

lemma plan_ok_same: "same_call a b \<Longrightarrow> plan_ok a \<Longrightarrow> plan_ok b"
  by (simp add: plan_ok_def same_call_def same_leg_def)

lemma leg_transition_nonterminal:
  "valid_leg_transition s s' \<Longrightarrow> \<not> leg_is_terminal s"
  by (cases s) (auto simp: leg_is_terminal_def)

lemma leg_report_facts:
  assumes "leg_report a c at i s failure"
  shows "at = command_at c" "call_updated_at a \<le> at" "\<not> leg_is_terminal (leg_state (leg_at a i))"
    "(s = LegState.Failed) = (failure \<noteq> None)" "\<not> call_is_terminal (call_state a)"
    "call_state a \<noteq> CallState.Pending"
    "call_state a = CallState.Ending \<Longrightarrow> leg_is_terminal s"
  using assms
  by (auto elim!: leg_report.cases simp: leg_is_terminal_def call_is_terminal_def
      source_failure_def dest: leg_transition_nonterminal split: if_splits)

lemma stamp_leg_ok: "leg_ok (stamp v at b) l \<longleftrightarrow> leg_ok (b\<lparr>call_updated_at := at\<rparr>) l"
  by (simp add: leg_ok_def)

lemma teardown_times:
  assumes "teardown p at outcome reason deadline b es"
    and "\<forall>i. leg_ok (stamp v at p) (leg_at p i)" "call_created_at p \<le> at"
    "call_state_changed_at p \<le> at" "t = at"
  shows "times_ok (stamp v t b)"
proof -
  have frame: "call_created_at b = call_created_at p"
    using teardown_frame(1) [OF assms(1)] by (simp add: same_call_def)
  have "leg_ok (stamp v at b) (stopped_leg at (leg_at p i))" for i
    using assms(2) frame by (intro leg_ok_updates(1) [of "stamp v at p"]) auto
  moreover have "call_state_changed_at b \<le> at"
    using assms(1,4) by (auto elim!: teardownE)
  ultimately show ?thesis
    using teardown_frame(4) [OF assms(1)] frame assms(3,5) by (simp add: times_ok_def)
qed

lemma valid_replacement_state:
  "valid a \<Longrightarrow> call_replacement a \<noteq> None \<Longrightarrow> call_state a = CallState.Transferring"
  by (auto simp: valid_split replacement_ok_def replacement_mismatch_def)

lemma times_ok_step:
  assumes v: "valid a" and st: "call_step a c b es"
  shows "times_ok (stamp v (command_at c) b)"
proof -
  let ?at = "command_at c"
  have at: "call_updated_at a \<le> ?at" using st by (rule call_step_at)
  have ok: "leg_ok a (leg_at a i)" for i using v by (simp add: valid_iff)
  have times: "call_created_at a \<le> call_updated_at a" "call_state_changed_at a \<le> call_updated_at a"
    using v by (auto simp: valid_iff)
  have st_legs: "leg_states_ok (call_state a) (leg_state (leg_at a i))" for i
    using v by (simp add: valid_iff)
  have old: "leg_ok (stamp v ?at a) (leg_at a i)" for i
    using ok by (rule leg_ok_mono) (use at in auto)
  have upd: "leg_ok b' (leg_at a i)" if "call_created_at b' = call_created_at a"
    "call_updated_at b' = ?at" for b' i
    using ok by (rule leg_ok_mono) (use at that in auto)
  have report: "leg_ok b' (reported_leg (leg_at a i) ?at s failure)"
    if "leg_report a c at i s failure" "call_created_at b' = call_created_at a"
      "call_updated_at b' = ?at" for b' at i s failure
    using leg_report_facts [OF that(1)] that(2,3) at
    by (intro leg_ok_updates(3) [OF ok]) auto
  have transferring: "\<not> leg_is_terminal (leg_state (leg_at a i))"
    if "call_replacement a \<noteq> None" for i
    using valid_replacement_state [OF v that] st_legs [of i] by (auto simp: leg_is_terminal_def)
  note rules = leg_ok_updates [OF ok _ at]
  show ?thesis
    using st
  proof cases
    case (leg_down at' i s failure p)
    have "at' = ?at" using leg_down leg_report_facts(1) by blast
    moreover have "\<forall>j. leg_ok (stamp v ?at p) (leg_at p j)"
      using leg_down upd report \<open>at' = ?at\<close> by auto
    ultimately show ?thesis
      using leg_down times at by (intro teardown_times [of p at' _ _ _ b es]) auto
  next
    case (hang_up at' deadline reason)
    then show ?thesis
      using times at old by (intro teardown_times [of a at' _ _ _ b es]) auto
  next
    case (timeout g kind due at' deadline es')
    have "\<forall>i. leg_ok (stamp v ?at (clear_due kind a)) (leg_at a i)"
      using upd by simp
    then show ?thesis
      using timeout times at by (intro teardown_times [of "clear_due kind a" at' _ _ _ b es']) auto
  next
    case (connect at' i s failure p)
    then show ?thesis
      using leg_report_facts(1) [OF connect(3)] times at upd report
      by (auto simp: times_ok_def set_call_state_changed)
  next
    case (leg_ending at' i s failure)
    then show ?thesis
      using leg_report_facts(1) times at upd report by (auto simp: times_ok_def)
  next
    case (last_leg at' i s failure p)
    then show ?thesis
      using leg_report_facts(1) times at upd report by (auto simp: times_ok_def)
  next
    case (leg_progress at' i s failure)
    then show ?thesis
      using leg_report_facts(1) times at upd report by (auto simp: times_ok_def)
  next
    case (replace at' due leg i pending g p kind)
    then show ?thesis
      using times at upd rules(7) st_legs [of i]
      by (auto simp: times_ok_def set_call_state_changed next_replacement_binding_generation_def
          leg_is_terminal_def)
  next
    case (switch g at' r i)
    then show ?thesis
      using times at upd rules(9) st_legs v
      by (auto simp: times_ok_def valid_iff replacement_ok_def replacement_mismatch_def
          leg_is_terminal_def)
  next
    case (restore g at' f r i)
    then show ?thesis
      using times at upd rules(8) transferring by (auto simp: times_ok_def)
  next
    case (replacement_timeout g due at' deadline r i)
    then show ?thesis
      using times at upd rules(8) transferring by (auto simp: times_ok_def)
  qed (use times at upd rules st_legs in
      \<open>auto simp: times_ok_def set_call_state_changed leg_is_terminal_def\<close>)
qed

end
