(* ===== verification/Call_Validity.thy ===== *)
theory Call_Validity
  imports Call_Invariant
begin

text \<open>
  Validity is an invariant of the aggregate. Every applied transition leads to a valid aggregate,
  apart from two leg reports that the handlers accept and that only the final check of
  \<open>decide\<close> turns away; \<open>snapshot_conflict\<close> names them. The last section describes the
  two kinds of answers of \<open>decide\<close>.
\<close>

section \<open>States, outcome and deadlines after a teardown\<close>

definition failures_match :: "CallAggregate \<Rightarrow> bool" where
  "failures_match a \<longleftrightarrow>
     (\<forall>i. (leg_failure (leg_at a i) \<noteq> None) = (leg_state (leg_at a i) = LegState.Failed))"

lemma valid_failures_match: "valid a \<Longrightarrow> failures_match a"
  by (auto simp: valid_iff failures_match_def leg_ok_def)

lemma first_leg_failure_None:
  "first_leg_failure a = None \<longleftrightarrow> (\<forall>i. leg_failure (leg_at a i) = None)"
  by (auto simp: first_leg_failure_def all_slots split: option.splits)

lemma merge_outcome_Some [simp]: "merge_outcome t outcome \<noteq> None" "\<exists>y. merge_outcome t outcome = Some y"
  by (cases "(t, outcome)" rule: merge_outcome.cases; simp)+

lemma finalized_states_ok:
  assumes "all_legs_terminal b" "failures_match b"
  shows "states_ok (stamp v at (finalized t b))"
  using assms
  by (cases "final_outcome b")
    (auto simp: states_ok_def final_state_def all_legs_terminal_iff leg_is_terminal_def
      failures_match_def final_outcome_def first_leg_failure_None is_failed_outcome_def
      split: option.splits)

lemma teardown_states_ok:
  assumes "teardown p at outcome reason deadline b es" "failures_match p"
    and "some_leg_failed p \<Longrightarrow> is_failed_outcome (merge_outcome (call_terminal_outcome p) outcome)"
  shows "states_ok (stamp v t b)"
proof -
  have stopped: "failures_match (ending_core at outcome p)"
    using assms(2) by (auto simp: failures_match_def leg_is_terminal_def)
  have [simp]: "leg_state (stopped_leg at l) = LegState.Failed \<longleftrightarrow> leg_state l = LegState.Failed" for l
    by (simp add: leg_is_terminal_def)
  have "states_ok (stamp v t (ending_core at outcome p))"
    and "states_ok (stamp v t (arm_due DeadlineKind.Ending g d (ending_core at outcome p)))" for g d
    using assms(3) by (auto simp: states_ok_def some_leg_failed_def leg_is_terminal_def)
  then show ?thesis
    using assms(1) finalized_states_ok [OF _ stopped] by (auto elim!: teardownE)
qed

section \<open>The reports that only the final check rejects\<close>

text \<open>
  \<open>set_leg_state\<close> accepts every leg transition of its table, whatever the call state:
  a connected leg may report \<open>Held\<close> while the call is still connecting, and the leg under
  replacement may report that it is connected again.
\<close>

definition snapshot_conflict :: "CallAggregate \<Rightarrow> CallCommand \<Rightarrow> bool" where
  "snapshot_conflict a c \<longleftrightarrow>
     (case c of
        SetLegState at leg g s failure \<Rightarrow>
          (call_state a = CallState.Connecting \<and> s = LegState.Held) \<or>
          (s = LegState.Connected \<and>
             (case call_replacement a of Some r \<Rightarrow> repl_leg_id r = leg | None \<Rightarrow> False))
      | _ \<Rightarrow> False)"

lemma snapshot_conflict_SetLegState [simp]:
  "snapshot_conflict a (SetLegState at leg g s failure) \<longleftrightarrow>
     (call_state a = CallState.Connecting \<and> s = LegState.Held) \<or>
     (s = LegState.Connected \<and> (\<exists>r. call_replacement a = Some r \<and> repl_leg_id r = leg))"
  by (auto simp: snapshot_conflict_def split: option.splits)

lemma reported_leg_simps [simp]:
  "leg_state (reported_leg l at s f) = s" "leg_failure (reported_leg l at s f) = f"
  "leg_id (reported_leg l at s f) = leg_id l"
  "leg_binding_generation (reported_leg l at s f) = leg_binding_generation l"
  "leg_replacement_generation_cursor (reported_leg l at s f) = leg_replacement_generation_cursor l"
  by (simp_all add: reported_leg_def)

lemma failures_match_report:
  assumes "failures_match a" "leg_report a c at i s failure"
  shows "failures_match (put_leg a i (reported_leg (leg_at a i) at s failure))"
  using assms leg_report_facts(4) [OF assms(2)] by (auto simp: failures_match_def)

lemma some_leg_failed_report:
  assumes "leg_report a c at i s failure"
    and "some_leg_failed (put_leg a i (reported_leg (leg_at a i) at s failure))"
  shows "some_leg_failed a \<or> failure \<noteq> None"
  using assms leg_report_facts(4) [OF assms(1)] by (auto simp: some_leg_failed_def split: if_splits)

lemma live_no_failure:
  "\<lbrakk>valid a; call_state a \<notin> {CallState.Ending, CallState.Ended, CallState.Failed}\<rbrakk>
   \<Longrightarrow> \<not> some_leg_failed a \<and> call_terminal_outcome a = None"
  by (cases "call_state a") (auto simp: valid_split states_ok_def some_leg_failed_def all_slots ex_slots)

lemma leg_progress_cases:
  assumes "leg_report a c at i s failure" "call_state a \<noteq> CallState.Ending"
    "s \<notin> {LegState.Ending, LegState.Ended, LegState.Failed}"
  obtains leg g where "c = SetLegState at leg g s failure" "leg_index a leg = Inr i"
    "valid_leg_transition (leg_state (leg_at a i)) s"
  using assms by (auto elim!: leg_report.cases split: if_splits)

section \<open>Every step leads to a valid aggregate\<close>

lemma put_leg_replacement_ok:
  assumes "replacement_ok a" "plan_ok a" "leg_index a leg = Inr i" "leg_id l = leg"
    and "leg_binding_generation l = leg_binding_generation (leg_at a i)"
    "leg_replacement_generation_cursor l = leg_replacement_generation_cursor (leg_at a i)"
  shows "replacement_ok (stamp v at (put_leg a i l)) \<longleftrightarrow>
     \<not> (leg_state l \<noteq> LegState.Held \<and> (\<exists>r. call_replacement a = Some r \<and> repl_leg_id r = leg))"
proof (cases "call_replacement a")
  case (Some r)
  obtain j where j: "leg_index a (repl_leg_id r) = Inr j" "\<not> replacement_mismatch a (leg_at a j) r"
    using assms(1) Some by (auto simp: replacement_ok_def)
  have idx: "leg_index (stamp v at (put_leg a i l)) x = leg_index a x" for x
    using leg_index_Inr [OF assms(3)] assms(4) by (intro leg_index_cong) auto
  have same: "i = j \<longleftrightarrow> repl_leg_id r = leg"
  proof
    show "i = j \<Longrightarrow> repl_leg_id r = leg"
      using leg_index_Inr [OF j(1)] leg_index_Inr [OF assms(3)] by simp
    show "repl_leg_id r = leg \<Longrightarrow> i = j"
      using j(1) assms(3) by simp
  qed
  have "replacement_ok (stamp v at (put_leg a i l)) \<longleftrightarrow>
      \<not> replacement_mismatch (stamp v at (put_leg a i l)) (leg_at (put_leg a i l) j) r"
    using Some j(1) by (simp add: replacement_ok_def idx)
  also have "\<dots> \<longleftrightarrow> \<not> (leg_state l \<noteq> LegState.Held \<and> i = j)"
  proof -
    have "replacement_generation_cursor l = replacement_generation_cursor (leg_at a i)"
      using assms(5,6) by (simp add: replacement_generation_cursor_def split: option.split)
    then show ?thesis
      using j(2) assms(5) by (cases "i = j") (auto simp: replacement_mismatch_def)
  qed
  finally show ?thesis
    using Some same by simp
qed (simp add: replacement_ok_def)

lemma no_replacement_ok [simp]: "call_replacement a = None \<Longrightarrow> replacement_ok a"
  by (simp add: replacement_ok_def)

lemma valid_after:
  assumes "valid a" "call_step a c b es"
    and "states_ok (stamp v (command_at c) b)" "replacement_ok (stamp v (command_at c) b)"
  shows "valid (stamp v (command_at c) b)"
proof -
  have "same_call a (stamp v (command_at c) b)"
    using call_step_frame [OF assms(2)] by (simp add: same_call_def)
  then show ?thesis
    using assms times_ok_step [OF assms(1,2)] plan_ok_same by (simp add: valid_split)
qed

lemma valid_step_progress:
  assumes v: "valid a" and st: "call_step a c b es"
    and r: "leg_report a c at i s failure"
    and b: "b = put_leg a i (reported_leg (leg_at a i) at s failure)"
    and live: "call_state a \<noteq> CallState.Ending"
      "s \<notin> {LegState.Ending, LegState.Ended, LegState.Failed}"
  shows "valid (stamp v' (command_at c) b) \<longleftrightarrow> \<not> snapshot_conflict a c"
proof -
  obtain leg g where c: "c = SetLegState at leg g s failure" "leg_index a leg = Inr i"
      "valid_leg_transition (leg_state (leg_at a i)) s"
    using leg_progress_cases [OF r live] .
  have parts: "plan_ok a" "times_ok a" "states_ok a" "replacement_ok a"
    using v by (simp_all add: valid_split)
  have legs: "leg_states_ok (call_state a) (leg_state (leg_at a j))" for j
    using parts(3) by (simp add: states_ok_def)
  have repl: "replacement_ok (stamp v' (command_at c) b) \<longleftrightarrow>
      \<not> (s \<noteq> LegState.Held \<and> (\<exists>r. call_replacement a = Some r \<and> repl_leg_id r = leg))"
    unfolding b using parts c(2) leg_index_Inr [OF c(2)]
    by (subst put_leg_replacement_ok) auto
  have "leg_states_ok (call_state a) s \<longleftrightarrow> \<not> (call_state a = CallState.Connecting \<and> s = LegState.Held)"
    using legs [of i] c(3) live leg_report_facts(5,6) [OF r]
    by (cases "call_state a"; cases "leg_state (leg_at a i)") (auto simp: call_is_terminal_def)
  moreover have "states_ok (stamp v' (command_at c) b) \<longleftrightarrow> leg_states_ok (call_state a) s"
    using parts(3) legs live_no_failure [OF v] leg_report_facts(5) [OF r] live
    unfolding b
    by (cases "call_state a") (auto simp: states_ok_def some_leg_failed_def call_is_terminal_def)
  moreover have "s = LegState.Held \<or> s = LegState.Connected" if "call_replacement a \<noteq> None"
    using valid_replacement_state [OF v that] legs [of i] c(3) live
    by (cases "leg_state (leg_at a i)") auto
  moreover have "valid (stamp v' (command_at c) b) \<longleftrightarrow>
      states_ok (stamp v' (command_at c) b) \<and> replacement_ok (stamp v' (command_at c) b)"
    using valid_after [OF v st] by (auto simp: valid_split)
  ultimately show ?thesis
    unfolding repl unfolding c(1) snapshot_conflict_SetLegState
    by (cases "s = LegState.Held"; cases "s = LegState.Connected") (simp_all, blast+)
qed

lemma leg_report_no_conflict:
  assumes "valid a" "leg_report a c at i s failure" "s \<in> {LegState.Ending, LegState.Ended, LegState.Failed}"
  shows "\<not> snapshot_conflict a c"
  using assms(2)
proof cases
  case (state_report leg g)
  then show ?thesis using assms(3) by auto
qed (simp add: snapshot_conflict_def)

lemma valid_step_report:
  assumes v: "valid a" and st: "call_step a c b es" and r: "leg_report a c at i s failure"
    and p: "p = put_leg a i (reported_leg (leg_at a i) at s failure)"
    and es: "call_state a = CallState.Ending \<and>
        b = (if all_legs_terminal p then finalized at (note_failure failure p)
             else note_failure failure p) \<or>
      call_state a \<noteq> CallState.Ending \<and> s \<in> {LegState.Ending, LegState.Ended, LegState.Failed} \<and>
        teardown p at (outcome_of_report failure) reason deadline b fs"
  shows "valid (stamp v' (command_at c) b) \<and> \<not> snapshot_conflict a c"
proof
  have parts: "states_ok a" "replacement_ok a" "failures_match a"
    using v by (simp_all add: valid_split valid_failures_match)
  have match: "failures_match p"
    unfolding p using parts(3) r by (rule failures_match_report)
  have failed: "some_leg_failed p \<Longrightarrow> some_leg_failed a \<or> failure \<noteq> None"
    unfolding p by (rule some_leg_failed_report [OF r])
  have terminal: "s \<in> {LegState.Ending, LegState.Ended, LegState.Failed}"
    using es leg_report_facts(7) [OF r] by (auto simp: leg_is_terminal_def)
  show "\<not> snapshot_conflict a c"
    using leg_report_no_conflict [OF v r terminal] .
  show "valid (stamp v' (command_at c) b)"
  proof (cases "call_state a = CallState.Ending")
    case True
    have none: "call_replacement a = None"
      using valid_replacement_state [OF v] True by (cases "call_replacement a") simp_all
    have legs: "leg_states_ok CallState.Ending (leg_state (leg_at a j))" for j
      using parts(1) True by (simp add: states_ok_def)
    have match': "failures_match (note_failure failure p)"
      using match by (simp add: failures_match_def)
    have "some_leg_failed (note_failure failure p) = some_leg_failed p"
      by (simp add: some_leg_failed_def)
    then have "states_ok (stamp v' (command_at c) (note_failure failure p))"
      using parts(1) True legs terminal failed p leg_report_facts(4) [OF r]
      by (auto simp: states_ok_def some_leg_failed_def is_failed_outcome_def split: option.splits)
    moreover have "b = (if all_legs_terminal p then finalized at (note_failure failure p)
        else note_failure failure p)"
      using es True by blast
    moreover have "all_legs_terminal (note_failure failure p) = all_legs_terminal p"
      by (simp add: all_legs_terminal_iff)
    ultimately have "states_ok (stamp v' (command_at c) b)" "call_replacement b = None"
      using match' none finalized_states_ok [of "note_failure failure p" v' "command_at c" at]
      by (simp_all add: p)
    then show ?thesis
      by (intro valid_after [OF v st]) simp_all
  next
    case False
    have "\<not> some_leg_failed a" "call_terminal_outcome p = None"
      using live_no_failure [OF v] False leg_report_facts(5) [OF r] p
      by (auto simp: call_is_terminal_def)
    then have "is_failed_outcome (merge_outcome (call_terminal_outcome p) (outcome_of_report failure))"
      if "some_leg_failed p"
      using failed [OF that] by (auto simp: outcome_of_report_def is_failed_outcome_def)
    moreover have t: "teardown p at (outcome_of_report failure) reason deadline b fs"
      using es False by blast
    ultimately have "states_ok (stamp v' (command_at c) b)"
      using teardown_states_ok [OF t match] by blast
    then show ?thesis
      using teardown_frame(5) [OF t] by (intro valid_after [OF v st]) simp_all
  qed
qed

lemma valid_parts:
  assumes v: "valid a"
  shows "plan_ok a" "states_ok a" "failures_match a"
    "leg_states_ok (call_state a) (leg_state (leg_at a j))"
    "due_at a k \<noteq> None \<Longrightarrow> deadline_allowed (call_state a) k"
    "call_state a \<noteq> CallState.Transferring \<Longrightarrow> call_replacement a = None"
proof -
  show "plan_ok a" "states_ok a" "failures_match a"
    using v by (simp_all add: valid_split valid_failures_match)
  then show "leg_states_ok (call_state a) (leg_state (leg_at a j))"
    "due_at a k \<noteq> None \<Longrightarrow> deadline_allowed (call_state a) k"
    by (simp_all add: states_ok_def)
  show "call_state a \<noteq> CallState.Transferring \<Longrightarrow> call_replacement a = None"
    using valid_replacement_state [OF v] by (cases "call_replacement a") simp_all
qed

lemma valid_step_hang_up:
  assumes v: "valid a" and st: "call_step a (BeginEnding at deadline reason) b es"
    and t: "teardown a at TerminalOutcome.Ended reason deadline b es"
    and live: "\<not> call_is_terminal (call_state a)"
  shows "valid (stamp v' at b)"
proof -
  have "is_failed_outcome (merge_outcome (call_terminal_outcome a) TerminalOutcome.Ended)"
    if "some_leg_failed a"
    using valid_parts(2) [OF v] that live_no_failure [OF v] live
    by (cases "call_state a"; cases "call_terminal_outcome a")
      (auto simp: states_ok_def is_failed_outcome_def call_is_terminal_def split: TerminalOutcome.splits)
  then have "states_ok (stamp v' at b)"
    using t valid_parts(3) [OF v] teardown_states_ok by blast
  then show ?thesis
    using valid_after [OF v st, of v'] teardown_frame(5) [OF t] by simp
qed

lemma valid_step_timeout:
  assumes v: "valid a" and st: "call_step a (DeadlineElapsed at kind g deadline) b es"
    and due: "due_at a kind = Some due" "kind \<noteq> DeadlineKind.Ending"
    and t: "teardown (clear_due kind a) at (TerminalOutcome.Failed (timeout_failure kind))
      DeadlineExpired deadline b fs"
  shows "valid (stamp v' at b)"
proof -
  have "deadline_allowed (call_state a) kind"
    using valid_parts(5) [OF v, of kind] due(1) by simp
  then have "is_failed_outcome (merge_outcome (call_terminal_outcome (clear_due kind a))
        (TerminalOutcome.Failed (timeout_failure kind)))"
    using live_no_failure [OF v] due(2) by (cases kind) (auto simp: is_failed_outcome_def)
  moreover have "failures_match (clear_due kind a)"
    using valid_parts(3) [OF v] by (simp add: failures_match_def)
  ultimately have "states_ok (stamp v' at b)"
    using t teardown_states_ok by blast
  then show ?thesis
    using valid_after [OF v st, of v'] teardown_frame(5) [OF t] by simp
qed

lemma valid_step_ending_timeout:
  assumes v: "valid a" and st: "call_step a (DeadlineElapsed at DeadlineKind.Ending g deadline) b es"
    and due: "due_at a DeadlineKind.Ending = Some due" and b: "b = finalized at (expired at a)"
  shows "valid (stamp v' at b)"
proof -
  have ending: "call_state a = CallState.Ending"
    using valid_parts(5) [OF v, of DeadlineKind.Ending] due by simp
  have "all_legs_terminal (expired at a)" "failures_match (expired at a)"
    using valid_parts(3) [OF v]
    by (auto simp: all_legs_terminal_iff failures_match_def expire_leg_def leg_is_terminal_def)
  then have "states_ok (stamp v' at b)"
    unfolding b by (rule finalized_states_ok)
  then show ?thesis
    using valid_after [OF v st, of v'] valid_parts(6) [OF v] ending by (simp add: b)
qed

lemmas step_leg_defs = start_leg_def rotated_leg_def held_leg_def resumed_leg_def switched_leg_def

lemma all_kinds: "(\<forall>k. P k) \<longleftrightarrow> P Setup \<and> P Media \<and> P Transfer \<and> P DeadlineKind.Ending"
  by (metis DeadlineKind.exhaust)

text \<open>The live part of \<open>states_ok\<close> without quantifiers.\<close>

lemma states_ok_live:
  assumes "call_state a \<notin> {CallState.Ending, CallState.Ended, CallState.Failed}"
  shows "states_ok a \<longleftrightarrow>
     leg_states_ok (call_state a) (leg_state (leg_at a Slot0)) \<and>
     leg_states_ok (call_state a) (leg_state (leg_at a Slot1)) \<and>
     call_terminal_outcome a = None \<and> due_at a DeadlineKind.Ending = None \<and>
     (due_at a Setup \<noteq> None \<longrightarrow> call_state a = CallState.Connecting) \<and>
     (due_at a Transfer \<noteq> None \<longrightarrow> call_state a = CallState.Transferring) \<and>
     (due_at a Media \<noteq> None \<longrightarrow> call_state a \<in> {CallState.Active, CallState.Transferring})"
  using assms by (cases "call_state a") (auto simp: states_ok_def all_slots all_kinds)

lemma all_legs_terminal_note [simp]:
  "all_legs_terminal (note_failure failure a) = all_legs_terminal a"
  by (simp add: all_legs_terminal_iff)

lemma states_ok_stamp [simp]: "states_ok (stamp v t a) = states_ok a"
  by (simp add: states_ok_def some_leg_failed_def)

lemma replacement_ok_stamp [simp]: "replacement_ok (stamp v t a) = replacement_ok a"
proof -
  have "leg_index (stamp v t a) i = leg_index a i" for i by (rule leg_index_cong) simp
  then show ?thesis by (simp add: replacement_ok_def replacement_mismatch_def)
qed

lemma report_commands:
  assumes "call_step a c b es"
  shows "(\<exists>at i s failure. leg_report a c at i s failure) \<or> \<not> snapshot_conflict a c"
  using assms by cases (auto simp: snapshot_conflict_def)

lemma arm_states_ok:
  "states_ok a \<Longrightarrow> deadline_allowed (call_state a) kind \<Longrightarrow> states_ok (arm_due kind g due a)"
  by (auto simp: states_ok_def some_leg_failed_def)

lemma step_states_live:
  assumes v: "valid a" and st: "call_step a c b es"
    and nr: "\<And>at i s failure. \<not> leg_report a c at i s failure"
    and live: "call_state b \<notin> {CallState.Ending, CallState.Ended, CallState.Failed}"
  shows "states_ok b"
proof (cases "call_state a \<in> {CallState.Ending, CallState.Ended, CallState.Failed}")
  case True
  then have none: "call_replacement a = None" using valid_parts(6) [OF v] by auto
  show ?thesis
    using st True nr live none by cases (auto elim!: teardownE simp: final_state_def split: TerminalOutcome.splits)
next
  case False
  have a: "states_ok a" using v by (rule valid_parts)
  show ?thesis
    using st
  proof cases
    case (arm at kind due g)
    then show ?thesis using a by (simp add: arm_states_ok)
  next
    case (hang_up at deadline reason)
    then show ?thesis using live by (auto elim!: teardownE simp: final_state_def split: TerminalOutcome.splits)
  next
    case (timeout g kind due at deadline fs)
    then show ?thesis using live by (auto elim!: teardownE simp: final_state_def split: TerminalOutcome.splits)
  next
    case (ending_timeout g due at deadline)
    then show ?thesis using live by (auto simp: final_state_def split: TerminalOutcome.splits)
  qed (use nr live a in
      \<open>unfold states_ok_live [OF False] states_ok_live [OF live], simp_all add: step_leg_defs, auto\<close>)
qed

lemma step_replacement_live:
  assumes v: "valid a" and st: "call_step a c b es"
    and nr: "\<And>at i s failure. \<not> leg_report a c at i s failure"
  shows "replacement_ok b"
proof -
  have a: "replacement_ok a" using v by (simp add: valid_split)
  note none = valid_parts(6) [OF v]
  show ?thesis
    using st
  proof cases
    case (arm at kind due g)
    have "leg_index (arm_due kind g due a) i = leg_index a i" for i
      by (rule leg_index_cong) simp
    moreover have "\<not> replacement_mismatch a l r \<Longrightarrow> \<not> replacement_mismatch b l r" for l r
      using arm by (auto simp: replacement_mismatch_def)
    ultimately show ?thesis
      using a arm(2) unfolding replacement_ok_def by simp blast
  next
    case (replace at due leg i pending g p kind)
    have "leg_index b j = leg_index a j" for j
      using replace by (intro leg_index_cong) (simp add: held_leg_def)
    moreover have "leg_binding_generation (leg_at a i) < pending"
    proof -
      have "leg_binding_generation (leg_at a i) \<le> replacement_generation_cursor (leg_at a i)"
        using v by (auto simp: valid_iff leg_ok_def)
      also have "\<dots> < pending"
        using replace by (simp add: next_replacement_binding_generation_def binding_next_Inr)
      finally show ?thesis .
    qed
    then have "\<not> replacement_mismatch b (leg_at b i) (the (call_replacement b))"
      using replace
      by (simp add: replacement_mismatch_def held_leg_def replacement_generation_cursor_def)
    ultimately show ?thesis
      using replace(2,8) by (simp add: replacement_ok_def)
  next
    case (ending_timeout g due at deadline)
    then show ?thesis using valid_parts(5) [OF v, of DeadlineKind.Ending] none by simp
  qed (use a none nr in \<open>auto dest: teardown_frame(5)\<close>)
qed

lemma step_states_ending:
  assumes v: "valid a" and st: "call_step a c b es"
    and nr: "\<And>at i s failure. \<not> leg_report a c at i s failure"
    and ending: "call_state b \<in> {CallState.Ending, CallState.Ended, CallState.Failed}"
  shows "states_ok b"
  using st
proof cases
  case (hang_up at deadline reason)
  then show ?thesis using valid_step_hang_up [OF v] st by (simp add: valid_split)
next
  case (timeout g kind due at deadline fs)
  then show ?thesis using valid_step_timeout [OF v] st by (simp add: valid_split)
next
  case (ending_timeout g due at deadline)
  then show ?thesis using valid_step_ending_timeout [OF v] st by (simp add: valid_split)
next
  case (arm at kind due g)
  then show ?thesis using valid_parts(2) [OF v] by (simp add: arm_states_ok)
qed (use nr ending in simp_all)

theorem call_step_valid:
  assumes v: "valid a" and st: "call_step a c b es"
  shows "valid (stamp v' (command_at c) b) \<longleftrightarrow> \<not> snapshot_conflict a c"
proof (cases "\<exists>at i s failure. leg_report a c at i s failure")
  case True
  show ?thesis
    using st
  proof cases
    case (leg_progress at i s failure)
    then show ?thesis using valid_step_progress [OF v st] by blast
  next
    case (leg_ending at i s failure)
    then show ?thesis using valid_step_report [OF v st leg_ending(2) refl] by simp
  next
    case (last_leg at i s failure p)
    then show ?thesis using valid_step_report [OF v st last_leg(3) refl] by simp
  next
    case (leg_down at i s failure p)
    then show ?thesis using valid_step_report [OF v st] by blast
  next
    case (connect at i s failure p)
    then have "s = LegState.Connected" by (auto dest: spec [of _ i])
    with connect have "\<not> snapshot_conflict a c"
      using valid_parts(6) [OF v] by (auto elim!: leg_report.cases simp: snapshot_conflict_def)
    moreover have "states_ok b"
      using connect valid_parts(2) [OF v] states_ok_live [of a] by (subst states_ok_live) auto
    ultimately show ?thesis
      using connect valid_parts(6) [OF v] valid_after [OF v st, of v'] by simp
  qed (use True in \<open>auto elim!: leg_report.cases\<close>)
next
  case False
  then have nr: "\<not> leg_report a c at i s failure" for at i s failure by blast
  have nc: "\<not> snapshot_conflict a c" using report_commands [OF st] nr by simp
  have "states_ok b"
  proof (cases "call_state b \<in> {CallState.Ending, CallState.Ended, CallState.Failed}")
    case True
    then show ?thesis by (rule step_states_ending [OF v st nr])
  next
    case False
    then show ?thesis by (rule step_states_live [OF v st nr])
  qed
  then have "valid (stamp v' (command_at c) b)"
    using step_replacement_live [OF v st nr] by (intro valid_after [OF v st]) simp_all
  then show ?thesis using nc by simp
qed

section \<open>The answers of \<open>decide\<close>\<close>

inductive decided :: "CallAggregate \<Rightarrow> CallCommand \<Rightarrow> CallDecision \<Rightarrow> bool"
  for a :: CallAggregate and c :: CallCommand where
  unchanged:
    "disposition \<noteq> Applied \<Longrightarrow>
     decided a c \<lparr>decision_aggregate = a, decision_effects = [], decision_disposition = disposition\<rparr>"
| changed:
    "\<lbrakk>call_step a c b es; version_next (call_version a) = Inr v; valid (stamp v (command_at c) b)\<rbrakk>
     \<Longrightarrow> decided a c \<lparr>decision_aggregate = stamp v (command_at c) b, decision_effects = es,
          decision_disposition = Applied\<rparr>"

inductive_cases decidedE [consumes 1, case_names unchanged changed]: "decided a c d"

theorem decide_decided:
  assumes "decide a c = Inr d"
  shows "decided a c d"
proof -
  obtain b r b' where h: "apply_command a c = Inr (b, r)" "stamp_applied (b, r) = Inr b'"
    "validate b' = Inr ()"
    "d = \<lparr>decision_aggregate = b', decision_effects = result_effects r,
          decision_disposition = result_disposition r\<rparr>"
    using assms by (auto simp: decide_def result_simps)
  have f: "follows a c (b, r)" using apply_command_follows [OF h(1)] .
  show ?thesis
  proof (cases "result_disposition r = Applied")
    case True
    then obtain v where v: "version_next (call_version b) = Inr v"
        "b' = stamp v (result_at r) b"
      using h(2) by (auto simp: stamp_applied_def stamp_def result_simps)
    have s: "call_step a c b (result_effects r)" "result_at r = command_at c"
      using f True by (auto simp: follows_def)
    have "call_version b = call_version a" using call_step_frame [OF s(1)] by simp
    then show ?thesis
      using decided.changed [OF s(1), of v] v s(2) h(3,4) True by (simp add: valid_def)
  next
    case False
    then show ?thesis
      using f h decided.unchanged by (auto simp: follows_def stamp_applied_def)
  qed
qed

lemma decide_applied_iff:
  assumes v: "valid a" and h: "apply_command a c = Inr (b, r)" "result_disposition r = Applied"
    and n: "version_next (call_version a) = Inr w"
  shows "(\<exists>d. decide a c = Inr d) \<longleftrightarrow> \<not> snapshot_conflict a c"
proof -
  have s: "call_step a c b (result_effects r)" "result_at r = command_at c"
    using apply_command_follows [OF h(1)] h(2) by (auto simp: follows_def)
  have "call_version b = call_version a" using call_step_frame [OF s(1)] by simp
  then have "(\<exists>d. decide a c = Inr d) \<longleftrightarrow> valid (stamp w (command_at c) b)"
    using h n s(2) by (auto simp: decide_def stamp_applied_def valid_def stamp_def result_simps)
  then show ?thesis using call_step_valid [OF v s(1)] by simp
qed

end
