(* ===== verification/Call_Properties.thy ===== *)
theory Call_Properties
  imports Call_Validity
begin

text \<open>
  What the call aggregate promises its callers: the final check of \<open>decide\<close> never rejects an
  applied transition outside \<open>snapshot_conflict\<close>, the counters and timestamps only grow, terminal
  calls stay as they are, the call state follows its graph, stale and future fences are turned
  away, failures stick, a replacement that does not connect restores the old binding, and every
  call can be brought to an end.
\<close>

section \<open>Histories\<close>

text \<open>A caller persists the aggregate of every accepted decision and drops the rejected ones.\<close>

definition next_aggregate :: "CallAggregate \<Rightarrow> CallCommand \<Rightarrow> CallAggregate" where
  "next_aggregate a c = (case decide a c of Inl _ \<Rightarrow> a | Inr d \<Rightarrow> decision_aggregate d)"

definition replay :: "CallAggregate \<Rightarrow> CallCommand list \<Rightarrow> CallAggregate" where
  "replay a cs = foldl next_aggregate a cs"

fun applied_count :: "CallAggregate \<Rightarrow> CallCommand list \<Rightarrow> nat" where
  "applied_count a [] = 0"
| "applied_count a (c # cs) =
     (case decide a c of
        Inr d \<Rightarrow> if decision_disposition d = Applied then 1 else 0
      | Inl _ \<Rightarrow> 0) + applied_count (next_aggregate a c) cs"

lemma replay_simps [simp]: "replay a [] = a" "replay a (c # cs) = replay (next_aggregate a c) cs"
  by (simp_all add: replay_def)

lemma next_aggregate_cases [case_names same step]:
  obtains "next_aggregate a c = a"
  | b es v where "call_step a c b es" "version_next (call_version a) = Inr v"
      "valid (stamp v (command_at c) b)" "next_aggregate a c = stamp v (command_at c) b"
proof (cases "decide a c")
  case (Inr d)
  then show thesis
    using decide_decided [OF Inr] that by (auto simp: next_aggregate_def elim: decidedE)
qed (use that in \<open>simp add: next_aggregate_def\<close>)

lemma replay_induct [consumes 1, case_names step]:
  assumes "P a" and "\<And>a c. P a \<Longrightarrow> P (next_aggregate a c)"
  shows "P (replay a cs)"
  using assms(1) by (induction cs arbitrary: a) (auto intro: assms(2))

lemma valid_next: "valid a \<Longrightarrow> valid (next_aggregate a c)"
  by (cases rule: next_aggregate_cases [of a c]) auto

section \<open>Counters and identity\<close>

text \<open>Everything that a history may only increase, and everything it may not change.\<close>

definition advances :: "CallAggregate \<Rightarrow> CallAggregate \<Rightarrow> bool" where
  "advances a b \<longleftrightarrow>
     same_call a b \<and> call_version a \<le> call_version b \<and> call_updated_at a \<le> call_updated_at b \<and>
     (\<forall>i. leg_binding_generation (leg_at a i) \<le> leg_binding_generation (leg_at b i) \<and>
          replacement_generation_cursor (leg_at a i) \<le> replacement_generation_cursor (leg_at b i)) \<and>
     (\<forall>k. generation_of a k \<le> generation_of b k)"

lemma same_call_refl: "same_call a a"
  by (simp add: same_call_def)

lemma same_call_trans: "same_call a b \<Longrightarrow> same_call b c \<Longrightarrow> same_call a c"
  by (auto simp: same_call_def intro: same_leg_trans)

lemma advances_refl: "advances a a"
  by (simp add: advances_def same_call_refl)

lemma advances_trans: "advances a b \<Longrightarrow> advances b c \<Longrightarrow> advances a c"
  by (auto simp: advances_def intro: same_call_trans order_trans)

text \<open>The generations of a leg after each of the leg updates.\<close>

definition generations_grow :: "Leg \<Rightarrow> Leg \<Rightarrow> bool" where
  "generations_grow l m \<longleftrightarrow>
     leg_binding_generation l \<le> leg_binding_generation m \<and>
     replacement_generation_cursor l \<le> replacement_generation_cursor m"

lemma generations_same:
  "leg_binding_generation m = leg_binding_generation l \<Longrightarrow>
   leg_replacement_generation_cursor m = leg_replacement_generation_cursor l \<Longrightarrow>
   generations_grow l m"
  by (simp add: generations_grow_def replacement_generation_cursor_def split: option.split)

lemma generations_updates [simp]:
  "generations_grow l l" "generations_grow l (stopped_leg at l)"
  "generations_grow l (reported_leg l at s f)" "generations_grow l (fst (start_leg at l))"
  "generations_grow l (resumed_leg at l)" "generations_grow l (expire_leg at failure l)"
  "generations_grow l (stopped_leg at (reported_leg l at' s f))"
  "generations_grow l (l\<lparr>leg_state := s, leg_state_changed_at := at\<rparr>)"
  by (auto intro!: generations_same simp: start_leg_def resumed_leg_def expire_leg_def)

lemma generations_rotated:
  assumes "binding_next (leg_binding_generation l) = Inr g"
    "leg_binding_generation l \<le> replacement_generation_cursor l"
  shows "generations_grow l (rotated_leg at g l)"
  using binding_next_Inr [OF assms(1)] assms(2)
  by (auto simp: generations_grow_def rotated_leg_def replacement_generation_cursor_def
      split: option.split)

lemma generations_held:
  assumes "binding_next (replacement_generation_cursor l) = Inr g"
  shows "generations_grow l (held_leg at g l)"
  using binding_next_Inr [OF assms]
  by (auto simp: generations_grow_def held_leg_def replacement_generation_cursor_def
      split: option.split)

lemma generations_switched:
  assumes "repl_pending_binding_generation r = replacement_generation_cursor l"
    "leg_binding_generation l \<le> replacement_generation_cursor l"
  shows "generations_grow l (switched_leg at r l)"
  using assms
  by (auto simp: generations_grow_def switched_leg_def replacement_generation_cursor_def
      split: option.splits)

lemma deadline_next_le: "deadline_next g = Inr g' \<Longrightarrow> g \<le> g'"
  using deadline_next_Inr [of g g'] by auto

lemma teardown_generations:
  "teardown p at outcome reason deadline b es \<Longrightarrow> generation_of p k \<le> generation_of b k"
  by (auto elim!: teardownE dest: deadline_next_le)

lemma generations_step:
  assumes v: "valid a" and st: "call_step a c b es"
  shows "generations_grow (leg_at a i) (leg_at b i)" and "generation_of a k \<le> generation_of b k"
proof -
  have cursor: "leg_binding_generation (leg_at a j) \<le> replacement_generation_cursor (leg_at a j)" for j
    using v by (auto simp: valid_iff leg_ok_def)
  have pending: "repl_pending_binding_generation r = replacement_generation_cursor (leg_at a j)"
    if "call_replacement a = Some r" "leg_index a (repl_leg_id r) = Inr j" for r j
    using v that by (auto simp: valid_iff replacement_ok_def replacement_mismatch_def)
  have down: "generations_grow (leg_at a i) (stopped_leg at (leg_at p i))"
    if "\<And>j. leg_at p j = leg_at a j \<or> (\<exists>at s f. leg_at p j = reported_leg (leg_at a j) at s f)" for p at
    using that [of i] by auto
  show "generations_grow (leg_at a i) (leg_at b i)"
    using st
  proof cases
    case (leg_down at j s failure p)
    then show ?thesis using down [of p] teardown_frame(4) [of p] by auto
  next
    case (hang_up at deadline reason)
    then show ?thesis using teardown_frame(4) [of a] by auto
  next
    case (timeout g kind due at deadline fs)
    then show ?thesis using teardown_frame(4) [of "clear_due kind a"] by auto
  next
    case (rotate leg j g at g')
    then show ?thesis using cursor by (auto intro: generations_rotated)
  next
    case (replace at due leg j pending g p kind)
    then show ?thesis
      by (auto intro: generations_held simp: next_replacement_binding_generation_def)
  next
    case (switch g at r j)
    then show ?thesis using cursor pending by (auto intro: generations_switched)
  qed auto
  show "generation_of a k \<le> generation_of b k"
    using st
  proof cases
    case (leg_down at j s failure p)
    then show ?thesis using teardown_generations [of p] by auto
  next
    case (hang_up at deadline reason)
    then show ?thesis using teardown_generations [of a] by auto
  next
    case (timeout g kind due at deadline fs)
    then show ?thesis using teardown_generations [of "clear_due kind a"] by fastforce
  qed (auto dest: deadline_next_le)
qed

lemma advances_next: "valid a \<Longrightarrow> advances a (next_aggregate a c)"
proof (cases rule: next_aggregate_cases [of a c])
  case (step b es v)
  assume "valid a"
  then show ?thesis
    using step(4) generations_step [OF _ step(1)] call_step_frame [OF step(1)] call_step_at [OF step(1)]
      version_next_Inr [OF step(2)]
    by (auto simp: advances_def same_call_def generations_grow_def)
qed (simp add: advances_refl)

section \<open>Sample calls\<close>

definition sample_leg :: "uuid \<Rightarrow> LegDirection \<Rightarrow> LegState \<Rightarrow> Leg" where
  "sample_leg i d s =
     (Leg_new (LegId i) \<lparr>spec_direction = d, spec_kind = Sip\<rparr> (semantics_legacy_default d) 0)
       \<lparr>leg_state := s\<rparr>"

definition sample_call :: "CallState \<Rightarrow> LegState \<Rightarrow> LegState \<Rightarrow> CallAggregate" where
  "sample_call cs s0 s1 =
     \<lparr>call_id = CallId 1, call_tenant_id = TenantId (lit ''t''), call_version = AggregateVersion 0,
      call_state = cs, call_legs = (sample_leg 1 Inbound s0, sample_leg 2 Outbound s1),
      call_deadlines = deadlines_default, call_terminal_outcome = None, call_replacement = None,
      call_created_at = 0, call_updated_at = 0, call_state_changed_at = 0\<rparr>"

definition sample_active :: CallAggregate where
  "sample_active = sample_call CallState.Active LegState.Connected LegState.Connected"

definition sample_hang_up :: "CallCommand list" where
  "sample_hang_up =
     [BeginEnding 1 (Some 5) Requested,
      SetLegState 2 (LegId 1) (BindingGeneration 1) LegState.Ended None,
      SetLegState 3 (LegId 2) (BindingGeneration 1) LegState.Ended None]"

lemma sample_active_valid: "valid sample_active"
  by code_simp

section \<open>The final check\<close>

text \<open>
  C1: an applied transition of a valid aggregate whose version can still grow is accepted by
  \<open>decide\<close> if and only if it is not one of the two conflicting leg reports, so the final
  \<open>validate\<close> of \<open>decide\<close> rejects nothing else.
\<close>

theorem decide_rejects_only_conflicts:
  assumes "valid a" "apply_command a c = Inr (b, r)" "result_disposition r = Applied"
    "version_next (call_version a) = Inr w"
  shows "is_ok (decide a c) \<longleftrightarrow> \<not> snapshot_conflict a c"
  using decide_applied_iff [OF assms] by (auto simp: is_ok_def split: sum.splits)

theorem decide_rejects_only_conflicts_witness:
  "is_ok (decide (sample_call CallState.Connecting LegState.Connected LegState.Signaling)
      (SetLegState 1 (LegId 1) (BindingGeneration 1) LegState.Held None)) \<longleftrightarrow>
   \<not> snapshot_conflict (sample_call CallState.Connecting LegState.Connected LegState.Signaling)
      (SetLegState 1 (LegId 1) (BindingGeneration 1) LegState.Held None)"
proof -
  let ?a = "sample_call CallState.Connecting LegState.Connected LegState.Signaling"
  let ?c = "SetLegState 1 (LegId 1) (BindingGeneration 1) LegState.Held None"
  let ?x = "projr (apply_command ?a ?c)"
  have "valid ?a" by code_simp
  moreover have "apply_command ?a ?c = Inr (fst ?x, snd ?x)" by code_simp
  moreover have "result_disposition (snd ?x) = Applied" by code_simp
  moreover have "version_next (call_version ?a) = Inr (AggregateVersion 1)" by code_simp
  ultimately show ?thesis by (rule decide_rejects_only_conflicts)
qed

text \<open>
  C2: an accepted decision either leaves the aggregate as it is and asks for no effect, or takes a
  transition of \<open>call_step\<close> with its effects, raises the version by one and stamps the
  time of the command.
\<close>

theorem decide_refines_step: "decide a c = Inr d \<Longrightarrow> decided a c d"
  by (rule decide_decided)

theorem decide_refines_step_witness:
  "decided sample_active (BeginTransfer 1 2) (projr (decide sample_active (BeginTransfer 1 2)))"
  by (rule decide_refines_step) code_simp

section \<open>Histories only move forward\<close>

text \<open>
  C3: along every history of a valid call the aggregate stays valid, its identity and its legs'
  fixed fields never change, and its version, its update time, the binding generations and
  replacement cursors of its legs and the generations of its deadlines never decrease.
\<close>

theorem replay_advances:
  assumes "valid a"
  shows "valid (replay a cs) \<and> advances a (replay a cs)"
  using assms
proof (induction cs arbitrary: a)
  case (Cons c cs)
  then show ?case
    using valid_next [of a c] advances_next [of a c] Cons.IH [of "next_aggregate a c"]
    by (auto intro: advances_trans)
qed (simp add: advances_refl)

theorem replay_advances_witness:
  "valid (replay sample_active sample_hang_up) \<and>
   advances sample_active (replay sample_active sample_hang_up)"
  by (rule replay_advances) (rule sample_active_valid)

text \<open>
  The version of a call counts the applied commands of its history.
\<close>

theorem replay_version:
  "unat (version_value (call_version (replay a cs))) =
     unat (version_value (call_version a)) + applied_count a cs"
proof (induction cs arbitrary: a)
  case (Cons c cs)
  have "unat (version_value (call_version (next_aggregate a c))) =
      unat (version_value (call_version a)) +
      (case decide a c of Inr d \<Rightarrow> if decision_disposition d = Applied then 1 else 0 | Inl _ \<Rightarrow> 0)"
  proof (cases "decide a c")
    case (Inr d)
    then show ?thesis
      using decide_decided [OF Inr]
      by (auto simp: next_aggregate_def elim!: decidedE dest!: version_next_Inr)
  qed (simp add: next_aggregate_def)
  then show ?case using Cons.IH [of "next_aggregate a c"] by simp
qed simp

section \<open>The graph of call states\<close>

fun call_edge :: "CallState \<Rightarrow> CallState \<Rightarrow> bool" where
  "call_edge CallState.Pending s \<longleftrightarrow> s \<in> {CallState.Connecting, CallState.Ending}"
| "call_edge CallState.Connecting s \<longleftrightarrow> s \<in> {CallState.Active, CallState.Ending}"
| "call_edge CallState.Active s \<longleftrightarrow> s \<in> {CallState.Transferring, CallState.Ending}"
| "call_edge CallState.Transferring s \<longleftrightarrow> s \<in> {CallState.Active, CallState.Ending}"
| "call_edge CallState.Ending s \<longleftrightarrow> s \<in> {CallState.Ended, CallState.Failed}"
| "call_edge CallState.Ended s \<longleftrightarrow> False"
| "call_edge CallState.Failed s \<longleftrightarrow> False"

lemma live_legs:
  assumes "valid a" "call_state a \<notin> {CallState.Ending, CallState.Ended, CallState.Failed}"
  shows "\<not> leg_is_terminal (leg_state (leg_at a i))"
  using valid_parts(4) [OF assms(1), of i] assms(2)
  by (cases "call_state a") (auto simp: leg_is_terminal_def)

text \<open>A teardown ends the call at once only when all legs were terminal before.\<close>

lemma teardown_state:
  assumes "teardown p at outcome reason deadline b es"
    and "\<not> leg_is_terminal (leg_state (leg_at p i))"
  shows "call_state b = CallState.Ending"
proof -
  have "\<not> all_legs_terminal (ending_core at outcome p)"
    using assms(2) by (auto simp: all_legs_terminal_iff leg_is_terminal_def intro!: exI [of _ i])
  then show ?thesis using assms(1) by (auto elim!: teardownE)
qed

lemma teardown_terminal:
  "teardown p at outcome reason deadline b es \<Longrightarrow>
   call_state b \<in> {CallState.Ending, CallState.Ended, CallState.Failed}"
  by (auto elim!: teardownE simp: final_state_def split: TerminalOutcome.splits)

lemma other_slot: obtains j :: LegSlot where "j \<noteq> i"
  by (cases i) auto

lemma step_not_terminal:
  assumes v: "valid a" and st: "call_step a c b es"
  shows "\<not> call_is_terminal (call_state a)"
  using st
proof cases
  case (ending_timeout g due at deadline)
  then show ?thesis
    using valid_parts(5) [OF v, of DeadlineKind.Ending] by (auto simp: call_is_terminal_def)
next
  case (replacement_timeout g due at deadline r i)
  then show ?thesis
    using valid_parts(5) [OF v, of Transfer] by (auto simp: call_is_terminal_def)
next
  case (timeout g kind due at deadline fs)
  then show ?thesis
    using valid_parts(5) [OF v, of kind] by (cases kind) (auto simp: call_is_terminal_def)
next
  case (arm at kind due g)
  then show ?thesis by (cases kind) (auto simp: call_is_terminal_def)
qed (auto simp: call_is_terminal_def dest: leg_report_facts(5))

lemma step_edge:
  assumes v: "valid a" and st: "call_step a c b es"
  shows "call_state b = call_state a \<or> call_edge (call_state a) (call_state b)"
proof -
  have nt: "\<not> call_is_terminal (call_state a)" using step_not_terminal [OF v st] .
  have ending: "call_edge (call_state a) CallState.Ending" if "call_state a \<noteq> CallState.Ending"
    using that nt by (cases "call_state a") (auto simp: call_is_terminal_def)
  have down: "call_state b = call_state a \<or> call_edge (call_state a) (call_state b)"
    if t: "teardown p at outcome reason deadline b fs"
      and live: "call_state a \<noteq> CallState.Ending \<Longrightarrow> \<exists>j. \<not> leg_is_terminal (leg_state (leg_at p j))"
    for p at outcome reason deadline fs
  proof (cases "call_state a = CallState.Ending")
    case False
    then obtain j where "\<not> leg_is_terminal (leg_state (leg_at p j))" using live by blast
    then show ?thesis using teardown_state [OF t] ending [OF False] by simp
  qed (use teardown_terminal [OF t] in auto)
  have legs: "\<not> leg_is_terminal (leg_state (leg_at a i))" if "call_state a \<noteq> CallState.Ending" for i
    using live_legs [OF v] that nt by (auto simp: call_is_terminal_def)
  show ?thesis
    using st
  proof cases
    case (leg_down at i s failure p)
    obtain j where "j \<noteq> i" by (rule other_slot)
    then have "\<not> leg_is_terminal (leg_state (leg_at p j))" using leg_down legs by simp
    then show ?thesis using down leg_down by blast
  next
    case (hang_up at deadline reason)
    then show ?thesis using down legs by blast
  next
    case (timeout g kind due at deadline fs)
    then show ?thesis using down [of "clear_due kind a"] legs by auto
  next
    case (ending_timeout g due at deadline)
    then show ?thesis
      using valid_parts(5) [OF v, of DeadlineKind.Ending]
      by (auto simp: final_state_def split: TerminalOutcome.splits)
  next
    case (replacement_timeout g due at deadline r i)
    then show ?thesis using valid_parts(5) [OF v, of Transfer] by simp
  next
    case (last_leg at i s failure p)
    then show ?thesis by (auto simp: final_state_def split: TerminalOutcome.splits)
  qed simp_all
qed

text \<open>
  C4: an accepted command keeps the call state of a valid call or moves it along an edge of
  \<open>call_edge\<close>. In particular a call becomes terminal only from \<open>Ending\<close>, and never
  connects a second time.
\<close>

theorem decide_follows_graph:
  assumes "valid a" "decide a c = Inr d"
  shows "call_state (decision_aggregate d) = call_state a \<or>
    call_edge (call_state a) (call_state (decision_aggregate d))"
  using decide_decided [OF assms(2)]
proof (cases rule: decidedE)
  case (changed b es v)
  then show ?thesis using step_edge [OF assms(1) changed(2)] by simp
qed simp

theorem decide_follows_graph_witness:
  "call_state (decision_aggregate (projr (decide sample_active (BeginTransfer 1 2)))) =
     call_state sample_active \<or>
   call_edge (call_state sample_active)
     (call_state (decision_aggregate (projr (decide sample_active (BeginTransfer 1 2)))))"
  by (rule decide_follows_graph [OF sample_active_valid, where c = "BeginTransfer 1 2"]) code_simp

text \<open>C5: a terminal call is final, whatever commands follow.\<close>

theorem terminal_is_final:
  assumes "valid a" "call_is_terminal (call_state a)"
  shows "replay a cs = a"
proof (induction cs)
  case (Cons c cs)
  have "next_aggregate a c = a"
    using step_not_terminal [OF assms(1)] assms(2)
    by (cases rule: next_aggregate_cases [of a c]) auto
  then show ?case using Cons.IH by simp
qed simp

theorem terminal_is_final_witness:
  "replay (replay sample_active sample_hang_up) [BeginTransfer 6 9, BeginEnding 7 None Requested] =
   replay sample_active sample_hang_up"
  by (rule terminal_is_final) code_simp+

section \<open>Fences\<close>

fun binding_fence :: "CallCommand \<Rightarrow> (LegId \<times> BindingGeneration) option" where
  "binding_fence (SetLegState _ leg g _ _) = Some (leg, g)"
| "binding_fence (SourceTerminatedBeforeAnswer _ leg g _) = Some (leg, g)"
| "binding_fence (ProviderMediaStarted _ leg g) = Some (leg, g)"
| "binding_fence (RotateLegBinding _ leg g) = Some (leg, g)"
| "binding_fence _ = None"

fun deadline_fence :: "CallCommand \<Rightarrow> (DeadlineKind \<times> DeadlineGeneration) option" where
  "deadline_fence (FinishTransfer _ g _) = Some (Transfer, g)"
| "deadline_fence (FinishLegReplacement _ g _ _) = Some (Transfer, g)"
| "deadline_fence (DeadlineElapsed _ kind g _) = Some (kind, g)"
| "deadline_fence _ = None"

fun_cases binding_fence_Some: "binding_fence c = Some p"
fun_cases deadline_fence_Some: "deadline_fence c = Some p"

definition ignored_stale :: "CallAggregate \<Rightarrow> CallDecision" where
  "ignored_stale a =
     \<lparr>decision_aggregate = a, decision_effects = [], decision_disposition = IgnoredStaleGeneration\<rparr>"

lemma decide_ignored:
  assumes "valid a" "apply_command a c = Inr (a, ignored at IgnoredStaleGeneration)"
  shows "decide a c = Inr (ignored_stale a)"
  using assms by (simp add: decide_def stamp_applied_def ignored_def ignored_stale_def valid_def and_then_def)

lemma decide_error: "apply_command a c = Inl e \<Longrightarrow> decide a c = Inl e"
  by (simp add: decide_def and_then_def)

lemma return_some_fences [fence_simps]:
  "g < current \<Longrightarrow> return_some a (compare_binding_generation leg current g at) rest =
     Inr (a, ignored at IgnoredStaleGeneration)"
  "g > current \<Longrightarrow> return_some a (compare_binding_generation leg current g at) rest =
     Inl (FutureBindingGeneration leg (binding_value current) (binding_value g))"
  "d < generation_of a kind \<Longrightarrow> return_some a (compare_deadline_generation a kind d at) rest =
     Inr (a, ignored at IgnoredStaleGeneration)"
  "d > generation_of a kind \<Longrightarrow> return_some a (compare_deadline_generation a kind d at) rest =
     Inl (FutureDeadlineGeneration kind (deadline_value (generation_of a kind)) (deadline_value d))"
  by (auto simp: return_some_def compare_binding_generation_def compare_deadline_generation_def
      and_then_def Let_def)

lemma binding_fence_apply:
  assumes "binding_fence c = Some (leg, g)" "leg_index a leg = Inr i"
  shows "g < leg_binding_generation (leg_at a i) \<Longrightarrow>
      apply_command a c = Inr (a, ignored (command_at c) IgnoredStaleGeneration)"
    and "g > leg_binding_generation (leg_at a i) \<Longrightarrow>
      apply_command a c = Inl (FutureBindingGeneration leg
        (binding_value (leg_binding_generation (leg_at a i))) (binding_value g))"
  using assms
  by (auto elim!: binding_fence_Some simp: fence_simps set_leg_state_def
      source_terminated_before_answer_def provider_media_started_def rotate_leg_binding_def
      and_then_def [where r = "Inr i"])

lemma deadline_fence_apply:
  assumes "deadline_fence c = Some (kind, g)"
  shows "g < generation_of a kind \<Longrightarrow>
      apply_command a c = Inr (a, ignored (command_at c) IgnoredStaleGeneration)"
    and "g > generation_of a kind \<Longrightarrow>
      apply_command a c = Inl (FutureDeadlineGeneration kind
        (deadline_value (generation_of a kind)) (deadline_value g))"
  using assms
  by (auto elim!: deadline_fence_Some simp: fence_simps finish_transfer_def
      finish_leg_replacement_def deadline_elapsed_def)

text \<open>
  C6: a command fenced by an older binding generation of its leg changes nothing, whatever its
  time and the call state are; one fenced by a later generation is rejected as a future one.
\<close>

theorem binding_fence_decides:
  assumes v: "valid a" and f: "binding_fence c = Some (leg, g)" and i: "leg_index a leg = Inr i"
  shows "if g < leg_binding_generation (leg_at a i) then decide a c = Inr (ignored_stale a)
     else g = leg_binding_generation (leg_at a i) \<or>
       decide a c = Inl (FutureBindingGeneration leg
         (binding_value (leg_binding_generation (leg_at a i))) (binding_value g))"
  using decide_ignored [OF v] decide_error binding_fence_apply [OF f i]
  by (cases "leg_binding_generation (leg_at a i)" g rule: linorder_cases) auto

theorem binding_fence_decides_witness:
  "decide sample_active (SetLegState 1 (LegId 2) (BindingGeneration 3) LegState.Held None) =
     Inl (FutureBindingGeneration (LegId 2) 1 3)"
proof -
  have i: "leg_index sample_active (LegId 2) = Inr Slot1" by code_simp
  have g: "leg_binding_generation (leg_at sample_active Slot1) = BindingGeneration 1" by code_simp
  have lt: "\<not> BindingGeneration 3 < BindingGeneration 1" by code_simp
  show ?thesis
    using binding_fence_decides [OF sample_active_valid, of
        "SetLegState 1 (LegId 2) (BindingGeneration 3) LegState.Held None" _ "BindingGeneration 3",
        OF _ i] g lt
    by simp
qed

text \<open>
  The same for the deadline generations: a late timer or a late transfer result is ignored,
  and one that names a generation not yet issued is rejected.
\<close>

theorem deadline_fence_decides:
  assumes v: "valid a" and f: "deadline_fence c = Some (kind, g)"
  shows "if g < generation_of a kind then decide a c = Inr (ignored_stale a)
     else g = generation_of a kind \<or>
       decide a c = Inl (FutureDeadlineGeneration kind
         (deadline_value (generation_of a kind)) (deadline_value g))"
  using decide_ignored [OF v] decide_error deadline_fence_apply [OF f]
  by (cases "generation_of a kind" g rule: linorder_cases) auto

theorem deadline_fence_decides_witness:
  "decide sample_active (DeadlineElapsed 1 Media (DeadlineGeneration 2) None) =
     Inl (FutureDeadlineGeneration Media 0 2)"
proof -
  have g: "generation_of sample_active Media = DeadlineGeneration 0" by code_simp
  have lt: "\<not> DeadlineGeneration 2 < DeadlineGeneration 0" by code_simp
  show ?thesis
    using deadline_fence_decides [OF sample_active_valid, of
        "DeadlineElapsed 1 Media (DeadlineGeneration 2) None" Media "DeadlineGeneration 2"] g lt
    by simp
qed

section \<open>Failures stick\<close>

lemma step_failed:
  assumes v: "valid a" and st: "call_step a c b es"
    and f: "is_failed_outcome (call_terminal_outcome a)"
  shows "is_failed_outcome (call_terminal_outcome b)"
proof -
  have ending: "call_state a = CallState.Ending"
    using live_no_failure [OF v] step_not_terminal [OF v st] f
    by (cases "call_state a") (auto simp: is_failed_outcome_def call_is_terminal_def)
  have none: "call_replacement a = None" using valid_parts(6) [OF v] ending by simp
  obtain x where x: "call_terminal_outcome a = Some (TerminalOutcome.Failed x)"
    using f by (auto simp: is_failed_outcome_def split: option.splits TerminalOutcome.splits)
  have final: "is_failed_outcome (Some (final_outcome p))"
    if "\<exists>y. call_terminal_outcome p = Some (TerminalOutcome.Failed y)" for p
    using that by (auto simp: final_outcome_def is_failed_outcome_def split: option.splits)
  have down: "is_failed_outcome (call_terminal_outcome b)"
    if "teardown p at outcome reason deadline b fs" "call_terminal_outcome p = call_terminal_outcome a"
    for p at outcome reason deadline fs
    using that x final by (auto elim!: teardownE simp: is_failed_outcome_def)
  show ?thesis
    using st
  proof cases
    case (hang_up at deadline reason)
    then show ?thesis using down by blast
  next
    case (timeout g kind due at deadline fs)
    then show ?thesis using down [of "clear_due kind a"] by simp
  next
    case (last_leg at i s failure p)
    have "\<exists>y. call_terminal_outcome p = Some (TerminalOutcome.Failed y)"
      using last_leg x by (simp split: option.splits)
    then show ?thesis using last_leg final by simp
  next
    case (ending_timeout g due at deadline)
    then show ?thesis using final by simp
  qed (use ending none x in \<open>auto simp: is_failed_outcome_def split: option.splits\<close>)
qed

text \<open>
  C7: once a valid call has selected a failed outcome, every later history keeps a failed outcome:
  the call is ending or failed, and never reported as ended normally.
\<close>

theorem failure_is_sticky:
  assumes "valid a" "is_failed_outcome (call_terminal_outcome a)"
  shows "is_failed_outcome (call_terminal_outcome (replay a cs)) \<and>
    call_state (replay a cs) \<in> {CallState.Ending, CallState.Failed}"
proof -
  have "valid (replay a cs) \<and> is_failed_outcome (call_terminal_outcome (replay a cs))"
    using assms
  proof (induction cs arbitrary: a)
    case (Cons c cs)
    have "is_failed_outcome (call_terminal_outcome (next_aggregate a c))"
      using Cons.prems step_failed [of a c]
      by (cases rule: next_aggregate_cases [of a c]) auto
    then show ?case using Cons valid_next by simp
  qed simp
  then show ?thesis
    using valid_parts(2) [of "replay a cs"]
    by (cases "call_state (replay a cs)") (auto simp: states_ok_def is_failed_outcome_def)
qed

definition sample_failed :: CallAggregate where
  "sample_failed =
     replay sample_active
       [SetLegState 1 (LegId 1) (BindingGeneration 1) LegState.Failed
          (Some \<lparr>failure_code = [97], failure_message = [98], failure_retryable = True\<rparr>)]"

theorem failure_is_sticky_witness:
  "is_failed_outcome (call_terminal_outcome (replay sample_failed [BeginEnding 2 (Some 9) Requested])) \<and>
   call_state (replay sample_failed [BeginEnding 2 (Some 9) Requested])
     \<in> {CallState.Ending, CallState.Failed}"
  by (rule failure_is_sticky) code_simp+

section \<open>Make before break\<close>

inductive_cases step_replaceE: "call_step a (BeginLegReplacement at leg kind due) b es"
inductive_cases step_finishE: "call_step a (FinishLegReplacement at g bg result) b es"

lemma no_report [simp]:
  "\<not> leg_report a (BeginLegReplacement at leg kind due) t i s f"
  "\<not> leg_report a (FinishLegReplacement at dg bg result) t i s f"
  "\<not> leg_report a (BeginEnding at deadline reason) t i s f"
  "\<not> leg_report a (DeadlineElapsed at k dg deadline) t i s f"
  by (auto elim: leg_report.cases)

text \<open>What a started replacement looks like, and what a rejected one leaves behind.\<close>

lemma replace_step_facts:
  assumes "call_step a (BeginLegReplacement at leg kind due) b es"
  obtains i r where "leg_index a leg = Inr i" "call_replacement b = Some r" "repl_leg_id r = leg"
    "repl_previous_binding_generation r = leg_binding_generation (leg_at a i)"
    "replacement_generation_cursor (leg_at a i) < repl_pending_binding_generation r"
    "repl_pending_kind r = kind" "leg_state (leg_at a i) = LegState.Connected"
    "call_state b = CallState.Transferring" "call_state a = CallState.Active"
    "leg_at b i = held_leg at (repl_pending_binding_generation r) (leg_at a i)"
    "\<And>j. j \<noteq> i \<Longrightarrow> leg_at b j = leg_at a j" "\<And>l. leg_index b l = leg_index a l"
proof -
  obtain i pending g where h: "leg_index a leg = Inr i" "leg_state (leg_at a i) = LegState.Connected"
      "next_replacement_binding_generation (leg_at a i) = Inr pending"
      "call_state a = CallState.Active"
      "b = (arm_due Transfer g due (set_call_state CallState.Transferring at
              (put_leg a i (held_leg at pending (leg_at a i)))))
            \<lparr>call_replacement := Some
              \<lparr>repl_leg_id = leg,
               repl_previous_binding_generation = leg_binding_generation (leg_at a i),
               repl_pending_binding_generation = pending, repl_pending_kind = kind\<rparr>\<rparr>"
    using assms by (auto elim!: step_replaceE)
  have idx: "leg_index b l = leg_index a l" for l
    unfolding h(5) by (rule leg_index_cong) (simp add: held_leg_def)
  have lt: "replacement_generation_cursor (leg_at a i) < pending"
    using h(3) binding_next_Inr by (simp add: next_replacement_binding_generation_def)
  show thesis
    by (rule that [of i "\<lparr>repl_leg_id = leg,
          repl_previous_binding_generation = leg_binding_generation (leg_at a i),
          repl_pending_binding_generation = pending, repl_pending_kind = kind\<rparr>"])
      (use h idx lt in simp_all)
qed

definition same_binding :: "Leg \<Rightarrow> Leg \<Rightarrow> bool" where
  "same_binding l m \<longleftrightarrow>
     leg_kind m = leg_kind l \<and> leg_binding_generation m = leg_binding_generation l \<and>
     leg_state m = leg_state l"

lemma replacement_undone:
  assumes st: "call_step a c b es" and r: "call_replacement a = Some r"
    and c: "c = FinishLegReplacement at g bg (LegReplacementResult.Rejected f) \<or>
      c = DeadlineElapsed at Transfer g deadline"
  obtains i where "leg_index a (repl_leg_id r) = Inr i"
    "b = after_replacement at i (resumed_leg at (leg_at a i)) a"
  using st
proof cases
  case (restore g at f r i)
  with c r that show thesis by auto
next
  case (replacement_timeout g due at deadline r i)
  with c r that show thesis by auto
qed (use c r in \<open>auto elim: leg_report.cases\<close>)

text \<open>
  C8: a replacement that does not connect is undone. After \<open>BeginLegReplacement\<close> on a valid
  call, an applied rejection or an applied transfer timeout leads back to the active call: no
  replacement is pending, every leg has its old kind, binding generation and state, and the
  replaced leg has used up its pending generation, so the next attempt gets a fresh one.
\<close>

theorem replacement_round_trip:
  assumes d: "decide a (BeginLegReplacement at leg kind due) = Inr d"
      "decision_disposition d = Applied"
    and c: "c = FinishLegReplacement at' g bg (LegReplacementResult.Rejected f) \<or>
      c = DeadlineElapsed at' Transfer g deadline"
    and d': "decide (decision_aggregate d) c = Inr d'" "decision_disposition d' = Applied"
    and i: "leg_index a leg = Inr i"
  shows "call_state (decision_aggregate d') = CallState.Active \<and>
    call_replacement (decision_aggregate d') = None \<and>
    (\<forall>j. same_binding (leg_at a j) (leg_at (decision_aggregate d') j)) \<and>
    replacement_generation_cursor (leg_at a i) <
      replacement_generation_cursor (leg_at (decision_aggregate d') i)"
proof -
  obtain b es w where b: "call_step a (BeginLegReplacement at leg kind due) b es"
      "decision_aggregate d = stamp w at b"
    using decide_decided [OF d(1)] d(2) by (auto elim!: decidedE)
  obtain r where r: "call_replacement b = Some r" "repl_leg_id r = leg"
      "replacement_generation_cursor (leg_at a i) < repl_pending_binding_generation r"
      "leg_state (leg_at a i) = LegState.Connected"
      "leg_at b i = held_leg at (repl_pending_binding_generation r) (leg_at a i)"
      "\<And>j. j \<noteq> i \<Longrightarrow> leg_at b j = leg_at a j" "\<And>l. leg_index b l = leg_index a l"
    using replace_step_facts [OF b(1)] i by (metis sum.inject(2))
  obtain b' es' w' where b': "call_step (stamp w at b) c b' es'"
      "decision_aggregate d' = stamp w' (command_at c) b'"
    using decide_decided [OF d'(1)] d'(2) b(2) by (auto elim!: decidedE)
  have idx: "leg_index (stamp w at b) leg = Inr i"
    using r(7) i leg_index_cong [of "stamp w at b" b] by simp
  have "b' = after_replacement at' i (resumed_leg at' (leg_at (stamp w at b) i)) (stamp w at b)"
    using replacement_undone [OF b'(1) _ c] r(1,2) idx by (metis stamp_simps(8) sum.inject(2))
  then show ?thesis
    using b'(2) r(3-6)
    by (auto simp: same_binding_def resumed_leg_def held_leg_def replacement_generation_cursor_def)
qed

definition sample_failure :: FailureDetails where
  "sample_failure = \<lparr>failure_code = [97], failure_message = [98], failure_retryable = True\<rparr>"

definition sample_replacing :: CallDecision where
  "sample_replacing = projr (decide sample_active (BeginLegReplacement 1 (LegId 1) Whip 9))"

definition sample_rejection :: CallCommand where
  "sample_rejection =
     FinishLegReplacement 2 (DeadlineGeneration 1) (BindingGeneration 2)
       (LegReplacementResult.Rejected sample_failure)"

theorem replacement_round_trip_witness:
  "let b = decision_aggregate (projr (decide (decision_aggregate sample_replacing) sample_rejection)) in
   call_state b = CallState.Active \<and> call_replacement b = None \<and>
   (\<forall>j. same_binding (leg_at sample_active j) (leg_at b j)) \<and>
   replacement_generation_cursor (leg_at sample_active Slot0) <
     replacement_generation_cursor (leg_at b Slot0)"
  unfolding Let_def
proof (rule replacement_round_trip)
  show "decide sample_active (BeginLegReplacement 1 (LegId 1) Whip 9) = Inr sample_replacing"
    by code_simp
  show "decision_disposition sample_replacing = Applied" by code_simp
  show "sample_rejection =
      FinishLegReplacement 2 (DeadlineGeneration 1) (BindingGeneration 2)
        (LegReplacementResult.Rejected sample_failure) \<or>
      sample_rejection = DeadlineElapsed 2 Transfer (DeadlineGeneration 1) None"
    by (simp add: sample_rejection_def)
  show "decide (decision_aggregate sample_replacing) sample_rejection =
      Inr (projr (decide (decision_aggregate sample_replacing) sample_rejection))"
    by code_simp
  show "decision_disposition (projr (decide (decision_aggregate sample_replacing) sample_rejection)) =
      Applied"
    by code_simp
  show "leg_index sample_active (LegId 1) = Inr Slot0" by code_simp
qed

section \<open>Every call can be ended\<close>

lemma version_headroom:
  assumes "unat (version_value v) + n \<le> unat MAX_PERSISTED_GENERATION" "0 < n"
  obtains w where "version_next v = Inr w" "unat (version_value w) = Suc (unat (version_value v))"
proof -
  have "\<not> version_value v \<ge> MAX_PERSISTED_GENERATION"
    using assms by (simp add: word_le_nat_alt)
  then show thesis
    using that word_succ_below_max(1) by (auto simp: version_next_def)
qed

lemma apply_applied:
  assumes v: "valid a" and h: "apply_command a c = Inr (b, applied (command_at c) es)"
    and n: "version_next (call_version a) = Inr w" and nc: "\<not> snapshot_conflict a c"
  shows "next_aggregate a c = stamp w (command_at c) b"
proof -
  have st: "call_step a c b es" using apply_command_follows [OF h] by simp
  have "call_version b = call_version a" using call_step_frame [OF st] by simp
  moreover have "validate (stamp w (command_at c) b) = Inr ()"
    using call_step_valid [OF v st] nc by (simp add: valid_def)
  ultimately show ?thesis
    using h n by (simp add: next_aggregate_def decide_def stamp_applied_def applied_def stamp_def and_then_def)
qed

lemma begin_ending_next:
  assumes v: "valid a" and live: "\<not> call_is_terminal (call_state a)"
    and t: "call_updated_at a \<le> at" "at < due"
    and n: "version_next (call_version a) = Inr w"
    and g: "deadline_next (generation_of a DeadlineKind.Ending) = Inr g"
  obtains b es where "teardown a at TerminalOutcome.Ended reason (Some due) b es"
    "next_aggregate a (BeginEnding at (Some due) reason) = stamp w at b"
proof -
  obtain b es where b: "begin_ending_internal at TerminalOutcome.Ended reason (Some due) (a, []) = Inr (b, es)"
    using g teardown_final [of at TerminalOutcome.Ended a reason "Some due"]
      teardown_timed [of at TerminalOutcome.Ended a g reason due]
    unfolding begin_ending_internal_iff by fastforce
  then have "apply_command a (BeginEnding at (Some due) reason) = Inr (b, applied at es)"
    using live t by (simp add: begin_ending_command_def ensure_timestamp_def not_future_def and_then_def finish_applied_def)
  then have "next_aggregate a (BeginEnding at (Some due) reason) = stamp w at b"
    using apply_applied [OF v _ n, of "BeginEnding at (Some due) reason" b es]
    by (simp add: snapshot_conflict_def)
  moreover have "teardown a at TerminalOutcome.Ended reason (Some due) b es"
    using b by (simp add: begin_ending_internal_iff)
  ultimately show thesis using that by blast
qed

lemma ending_deadline_next:
  assumes v: "valid a" and due: "due_at a DeadlineKind.Ending = Some due" "call_updated_at a \<le> due"
    and n: "version_next (call_version a) = Inr w"
  shows "call_is_terminal (call_state (next_aggregate a
    (DeadlineElapsed due DeadlineKind.Ending (generation_of a DeadlineKind.Ending) None)))"
proof -
  let ?c = "DeadlineElapsed due DeadlineKind.Ending (generation_of a DeadlineKind.Ending) None"
  have "apply_command a ?c =
      Inr (finalized due (expired due a), applied due (cancel_all_effects (expired due a)))"
    using due
    by (simp add: deadline_elapsed_def return_some_def compare_deadline_generation_def and_then_def
        ensure_timestamp_def not_future_def finalize_terminal_eq expired_def clear_due_def Let_def)
  then have "next_aggregate a ?c = stamp w due (finalized due (expired due a))"
    using apply_applied [OF v _ n, of ?c] by (simp add: snapshot_conflict_def)
  then show ?thesis
    by (simp add: final_state_def call_is_terminal_def split: TerminalOutcome.splits)
qed

text \<open>
  C9: every valid call that is not yet terminal can be ended in two commands, without any
  cooperation of its legs: \<open>BeginEnding\<close> with an ending deadline, and that deadline elapsing. It
  needs room for one more ending generation and two more versions.
\<close>

theorem call_can_be_ended:
  assumes v: "valid a" and live: "\<not> call_is_terminal (call_state a)"
    and t: "call_updated_at a \<le> at" "at < due"
    and room: "unat (version_value (call_version a)) + 2 \<le> unat MAX_PERSISTED_GENERATION"
    and g: "deadline_next (generation_of a DeadlineKind.Ending) = Inr g"
  shows "call_is_terminal (call_state (replay a
    [BeginEnding at (Some due) reason, DeadlineElapsed due DeadlineKind.Ending g None]))"
proof -
  obtain w where w: "version_next (call_version a) = Inr w"
      "unat (version_value w) = Suc (unat (version_value (call_version a)))"
    using version_headroom [OF room] by auto
  obtain b es where b: "teardown a at TerminalOutcome.Ended reason (Some due) b es"
      "next_aggregate a (BeginEnding at (Some due) reason) = stamp w at b"
    using begin_ending_next [OF v live t w(1) g] by blast
  have vb: "valid (stamp w at b)"
    using valid_next [OF v, of "BeginEnding at (Some due) reason"] b(2) by simp
  obtain w' where w': "version_next (call_version (stamp w at b)) = Inr w'"
    using version_headroom [of w 1] room w(2) by auto
  show ?thesis
    using b(1)
  proof cases
    case teardown_final
    then have "call_is_terminal (call_state (stamp w at b))"
      by (simp add: final_state_def call_is_terminal_def split: TerminalOutcome.splits)
    then have "next_aggregate (stamp w at b) c = stamp w at b" for c
      using step_not_terminal [OF vb] by (cases rule: next_aggregate_cases [of "stamp w at b" c]) auto
    then show ?thesis using \<open>call_is_terminal _\<close> b(2) by simp
  next
    case (teardown_timed g')
    then have "due_at (stamp w at b) DeadlineKind.Ending = Some due"
      "generation_of (stamp w at b) DeadlineKind.Ending = g" using g by simp_all
    then show ?thesis
      using ending_deadline_next [OF vb _ _ w', of due] t(2) b(2) by simp
  qed
qed

theorem call_can_be_ended_witness:
  "call_is_terminal (call_state (replay sample_active
    [BeginEnding 1 (Some 5) Requested,
     DeadlineElapsed 5 DeadlineKind.Ending (DeadlineGeneration 1) None]))"
proof (rule call_can_be_ended [OF sample_active_valid])
  show "unat (version_value (call_version sample_active)) + 2 \<le> unat MAX_PERSISTED_GENERATION"
    by (simp add: sample_active_def sample_call_def MAX_PERSISTED_GENERATION_def)
qed code_simp+

end
