(* ===== verification/Call_Effects.thy ===== *)
theory Call_Effects
  imports Call_Properties
begin

text \<open>
  The effect intents against the aggregate. A worker that performs the effects of every accepted
  decision in order, and notes what a command itself reports (an elapsed timer, a leg that is gone),
  holds exactly the resources that the aggregate accounts for: the armed timers, the live routes of
  the legs, and the media bridge. Each resource is an instance of the locale
  \<open>effect_refinement\<close>, in which the statement about histories is proved once.
\<close>

section \<open>The interface\<close>

text \<open>What a worker holds after one command, and after a history of them.\<close>

definition worker_step ::
    "(CallCommand \<Rightarrow> 's \<Rightarrow> 's) \<Rightarrow> (EffectIntent \<Rightarrow> 's \<Rightarrow> 's) \<Rightarrow> CallAggregate \<Rightarrow> CallCommand \<Rightarrow> 's \<Rightarrow> 's"
  where
  "worker_step observe perform a c s =
     (case decide a c of
        Inl _ \<Rightarrow> s
      | Inr d \<Rightarrow>
          if decision_disposition d = Applied then fold perform (decision_effects d) (observe c s)
          else fold perform (decision_effects d) s)"

fun worker ::
    "(CallCommand \<Rightarrow> 's \<Rightarrow> 's) \<Rightarrow> (EffectIntent \<Rightarrow> 's \<Rightarrow> 's) \<Rightarrow> CallAggregate \<Rightarrow> CallCommand list \<Rightarrow> 's \<Rightarrow> 's"
  where
  "worker observe perform a [] s = s"
| "worker observe perform a (c # cs) s =
     worker observe perform (next_aggregate a c) cs (worker_step observe perform a c s)"

locale effect_refinement =
  fixes observe :: "CallCommand \<Rightarrow> 's \<Rightarrow> 's"
    and perform :: "EffectIntent \<Rightarrow> 's \<Rightarrow> 's"
    and held :: "CallAggregate \<Rightarrow> 's"
  assumes step_sync:
    "valid a \<Longrightarrow> call_step a c b es \<Longrightarrow> fold perform es (observe c (held a)) = held b"
    and held_stamp: "held (stamp v at b) = held b"
begin

lemma worker_step_held: "valid a \<Longrightarrow> worker_step observe perform a c (held a) = held (next_aggregate a c)"
proof (cases "decide a c")
  case (Inr d)
  assume "valid a"
  with decide_decided [OF Inr] show ?thesis
    by (cases rule: decidedE) (auto simp: worker_step_def next_aggregate_def Inr step_sync held_stamp)
qed (simp add: worker_step_def next_aggregate_def)

lemma worker_held: "valid a \<Longrightarrow> worker observe perform a cs (held a) = held (replay a cs)"
  by (induction cs arbitrary: a) (simp_all add: worker_step_held valid_next)

end

section \<open>Timers\<close>

type_synonym timers = "DeadlineKind \<Rightarrow> (DeadlineGeneration \<times> time) option"

fun perform_timer :: "EffectIntent \<Rightarrow> timers \<Rightarrow> timers" where
  "perform_timer (ScheduleDeadline k g due) t = t(k := Some (g, due))"
| "perform_timer (CancelDeadline k g) t =
     (case t k of Some (h, due) \<Rightarrow> if h = g then t(k := None) else t | None \<Rightarrow> t)"
| "perform_timer _ t = t"

fun observe_timer :: "CallCommand \<Rightarrow> timers \<Rightarrow> timers" where
  "observe_timer (DeadlineElapsed _ k _ _) t = t(k := None)"
| "observe_timer _ t = t"

definition armed_timers :: "CallAggregate \<Rightarrow> timers" where
  "armed_timers a k = map_option (\<lambda>due. (generation_of a k, due)) (due_at a k)"

lemma perform_cancel [simp]:
  "t k = armed_timers a k \<Longrightarrow> fold perform_timer (cancel_effects a k) t = t(k := None)"
  by (auto simp: cancel_effects_def armed_timers_def fun_upd_idem split: option.splits)

lemma fold_no_timer:
  assumes "\<And>e. e \<in> set es \<Longrightarrow> perform_timer e = id"
  shows "fold perform_timer es t = t"
  using assms by (induction es arbitrary: t) auto

lemma armed_timers_cong:
  "(\<And>k. due_at b k = due_at a k) \<Longrightarrow> (\<And>k. generation_of b k = generation_of a k) \<Longrightarrow>
   armed_timers b = armed_timers a"
  by (simp add: armed_timers_def fun_eq_iff)

lemma armed_clear: "armed_timers (clear_due k a) = (armed_timers a)(k := None)"
  by (auto simp: armed_timers_def fun_eq_iff)

lemma armed_arm: "armed_timers (arm_due k g due a) = (armed_timers a)(k := Some (g, due))"
  by (auto simp: armed_timers_def fun_eq_iff)

lemma stop_effects_no_timer [simp]: "fold perform_timer (stop_effects reason l) t = t"
  by (auto simp: stop_effects_def stop_leg_def)

lemma abort_effects_no_timer [simp]: "fold perform_timer (abort_effects a) t = t"
  by (auto simp: abort_effects_def split: option.split)

lemma ending_effects_timers:
  "fold perform_timer (ending_effects reason a) (armed_timers a) =
     (armed_timers a)(Setup := None, Media := None, Transfer := None)"
  by (simp add: ending_effects_def unbridge_media_effect_def)

lemma ending_core_timers:
  "armed_timers (ending_core at outcome a) =
     (armed_timers a)(Setup := None, Media := None, Transfer := None)"
proof
  fix k show "armed_timers (ending_core at outcome a) k =
      ((armed_timers a)(Setup := None, Media := None, Transfer := None)) k"
    by (cases k) (simp_all add: armed_timers_def)
qed

lemma cancel_all_timers: "fold perform_timer (cancel_all_effects a) (armed_timers a) = (\<lambda>_. None)"
proof
  fix k show "fold perform_timer (cancel_all_effects a) (armed_timers a) k = None"
    by (cases k) (simp_all add: cancel_all_effects_def)
qed

lemma armed_finalized: "armed_timers (finalized at a) = (\<lambda>_. None)"
  by (simp add: armed_timers_def fun_eq_iff)

lemma teardown_timers:
  assumes "teardown p at outcome reason deadline b es"
  shows "fold perform_timer es (armed_timers p) = armed_timers b"
  using assms
proof cases
  case teardown_final
  then show ?thesis
    using cancel_all_timers [of "ending_core at outcome p"]
    by (simp add: ending_effects_timers armed_finalized ending_core_timers)
next
  case teardown_untimed
  then show ?thesis by (simp add: ending_effects_timers ending_core_timers)
next
  case (teardown_timed g d)
  then show ?thesis
    by (simp add: ending_effects_timers ending_core_timers armed_arm perform_cancel [of _ _ p])
qed

lemma armed_frame [simp]:
  "armed_timers (put_leg a i l) = armed_timers a"
  "armed_timers (set_call_state s at a) = armed_timers a"
  "armed_timers (note_failure f a) = armed_timers a"
  "armed_timers (signal_leg at i a) = armed_timers a"
  "armed_timers (started at a) = armed_timers a"
  "armed_timers (a\<lparr>call_replacement := r\<rparr>) = armed_timers a"
  "armed_timers (stamp v at a) = armed_timers a"
  "armed_timers (after_replacement at i l a) = (armed_timers a)(Transfer := None)"
  "armed_timers (expired at a) = (armed_timers a)(DeadlineKind.Ending := None)"
  by (auto simp: armed_timers_def fun_eq_iff)

lemma no_leg_report_timer [simp]: "leg_report a c at i s failure \<Longrightarrow> observe_timer c t = t"
  by (auto elim!: leg_report.cases)

lemma timers_sync:
  assumes "call_step a c b es"
  shows "fold perform_timer es (observe_timer c (armed_timers a)) = armed_timers b"
  using assms
proof cases
  case (leg_down at i s failure p)
  then show ?thesis using teardown_timers [of p] by simp
next
  case (hang_up at deadline reason)
  then show ?thesis using teardown_timers by simp
next
  case (timeout g kind due at deadline fs)
  then show ?thesis using teardown_timers [of "clear_due kind a"] by (auto simp: armed_clear)
next
  case (ending_timeout g due at deadline)
  then show ?thesis using cancel_all_timers [of "expired at a"] by (simp add: armed_finalized)
next
  case (last_leg at i s failure p)
  then show ?thesis using cancel_all_timers [of p] by (simp add: armed_finalized)
qed (simp_all add: armed_clear armed_arm bridge_media_effect_def unbridge_media_effect_def
    start_leg_def split: TransferResult.splits)

interpretation timer: effect_refinement observe_timer perform_timer armed_timers
  by unfold_locales (simp_all add: timers_sync)

section \<open>The media bridge\<close>

fun perform_bridge :: "EffectIntent \<Rightarrow> bool \<Rightarrow> bool" where
  "perform_bridge (BridgeMedia _ _) _ = True"
| "perform_bridge (UnbridgeMedia _ _) _ = False"
| "perform_bridge _ bridged = bridged"

definition media_bridged :: "CallAggregate \<Rightarrow> bool" where
  "media_bridged a \<longleftrightarrow>
     call_state a \<in> {CallState.Active, CallState.Transferring} \<and> call_replacement a = None"

lemma no_bridge_effects [simp]:
  "fold perform_bridge (stop_effects reason l) s = s"
  "fold perform_bridge (abort_effects a) s = s"
  "fold perform_bridge (cancel_effects a k) s = s"
  by (auto simp: stop_effects_def stop_leg_def abort_effects_def cancel_effects_def split: option.split)

lemma no_bridge_cancel_all [simp]: "fold perform_bridge (cancel_all_effects a) s = s"
  by (simp add: cancel_all_effects_def)

lemma ending_effects_bridge:
  "(s \<longrightarrow> call_state p \<in> {CallState.Active, CallState.Transferring}) \<Longrightarrow>
   \<not> fold perform_bridge (ending_effects reason p) s"
  by (cases "call_state p \<in> {CallState.Active, CallState.Transferring}")
    (simp_all add: ending_effects_def unbridge_media_effect_def)

lemma teardown_bridge:
  assumes t: "teardown p at outcome reason deadline b es"
    and s: "s \<longrightarrow> call_state p \<in> {CallState.Active, CallState.Transferring}"
  shows "\<not> fold perform_bridge es s" "\<not> media_bridged b"
proof -
  show "\<not> fold perform_bridge es s"
    using t ending_effects_bridge [OF s, of reason] by cases simp_all
  show "\<not> media_bridged b"
    using teardown_terminal [OF t] by (auto simp: media_bridged_def)
qed

lemma bridge_sync:
  assumes v: "valid a" and st: "call_step a c b es"
  shows "fold perform_bridge es (media_bridged a) = media_bridged b"
proof -
  have down: "fold perform_bridge es (media_bridged a) = media_bridged b"
    if "teardown p at outcome reason deadline b es" "call_state p = call_state a"
    for p at outcome reason deadline
    using teardown_bridge [OF that(1), of "media_bridged a"] that(2) by (simp add: media_bridged_def)
  show ?thesis
    using st
  proof cases
    case (timeout g kind due at deadline fs)
    have "\<not> fold perform_bridge fs (media_bridged a)" "\<not> media_bridged b"
      using teardown_bridge [OF timeout(10), of "media_bridged a"] by (simp_all add: media_bridged_def)
    then show ?thesis using timeout by simp
  next
    case (ending_timeout g due at deadline)
    then show ?thesis
      using valid_parts(5) [OF v, of DeadlineKind.Ending]
      by (auto simp: media_bridged_def final_state_def split: TerminalOutcome.splits)
  qed (use down valid_parts(6) [OF v] in
      \<open>auto simp: media_bridged_def bridge_media_effect_def unbridge_media_effect_def start_leg_def
        final_state_def split: TransferResult.splits TerminalOutcome.splits\<close>)
qed

interpretation bridge: effect_refinement "\<lambda>_ s. s" perform_bridge media_bridged
  by unfold_locales (simp add: bridge_sync, simp add: media_bridged_def)

section \<open>Live routes\<close>

text \<open>
  A route is a provider or client binding of a leg. It is live from the effect that starts or awaits
  it until it is stopped, aborted, revoked by a rotation, or reported gone.
\<close>

type_synonym route = "LegId \<times> BindingGeneration"

fun perform_route :: "EffectIntent \<Rightarrow> route set \<Rightarrow> route set" where
  "perform_route (StartLeg leg g _ _) rs = insert (leg, g) rs"
| "perform_route (AwaitLegAttachment leg g) rs = insert (leg, g) rs"
| "perform_route (StartLegReplacement leg _ pending _ _) rs = insert (leg, pending) rs"
| "perform_route (StopLeg leg g _) rs = rs - {(leg, g)}"
| "perform_route (AbortLegReplacement leg pending) rs = rs - {(leg, pending)}"
| "perform_route _ rs = rs"

fun observe_route :: "CallCommand \<Rightarrow> route set \<Rightarrow> route set" where
  "observe_route (SetLegState _ leg g s _) rs =
     (if s \<in> {LegState.Ending, LegState.Ended, LegState.Failed} then rs - {(leg, g)} else rs)"
| "observe_route (SourceTerminatedBeforeAnswer _ leg g _) rs = rs - {(leg, g)}"
| "observe_route (RotateLegBinding _ leg g) rs = rs - {(leg, g)}"
| "observe_route _ rs = rs"

definition leg_routes :: "Leg \<Rightarrow> route set" where
  "leg_routes l =
     (if leg_state l \<in> {LegState.Ending, LegState.Ended, LegState.Failed} then {}
      else {(leg_id l, leg_binding_generation l)})"

definition pending_routes :: "LegReplacement option \<Rightarrow> route set" where
  "pending_routes r =
     (case r of None \<Rightarrow> {} | Some p \<Rightarrow> {(repl_leg_id p, repl_pending_binding_generation p)})"

definition live_routes :: "CallAggregate \<Rightarrow> route set" where
  "live_routes a =
     (if call_state a = CallState.Pending then {}
      else leg_routes (leg_at a Slot0) \<union> leg_routes (leg_at a Slot1)) \<union>
     pending_routes (call_replacement a)"

lemma no_route_effects [simp]:
  "fold perform_route (cancel_effects a k) rs = rs"
  "fold perform_route (cancel_all_effects a) rs = rs"
  "perform_route (bridge_media_effect a) rs = rs"
  "perform_route (unbridge_media_effect a) rs = rs"
  by (simp_all add: cancel_effects_def cancel_all_effects_def bridge_media_effect_def
      unbridge_media_effect_def split: option.split)

lemma stop_effects_routes:
  "fold perform_route (stop_effects reason l) rs = rs - leg_routes l"
  by (auto simp: stop_effects_def stop_leg_def leg_routes_def leg_is_terminal_def)

lemma abort_effects_routes:
  "fold perform_route (abort_effects a) rs = rs - pending_routes (call_replacement a)"
  by (auto simp: abort_effects_def pending_routes_def split: option.split)

lemma ending_effects_routes:
  "fold perform_route (ending_effects reason a) rs =
     rs - pending_routes (call_replacement a) - leg_routes (leg_at a Slot0) - leg_routes (leg_at a Slot1)"
  by (simp add: ending_effects_def abort_effects_routes stop_effects_routes)

lemma stopped_leg_routes [simp]: "leg_routes (stopped_leg at l) = {}"
  by (simp add: leg_routes_def leg_is_terminal_def)

lemma teardown_routes:
  assumes "teardown p at outcome reason deadline b es"
  shows "fold perform_route es rs =
      rs - pending_routes (call_replacement p) - leg_routes (leg_at p Slot0) - leg_routes (leg_at p Slot1)"
    "live_routes b = {}"
proof -
  show "fold perform_route es rs =
      rs - pending_routes (call_replacement p) - leg_routes (leg_at p Slot0) - leg_routes (leg_at p Slot1)"
    using assms by cases (simp_all add: ending_effects_routes)
  show "live_routes b = {}"
    using teardown_frame(4,5) [OF assms] by (simp add: live_routes_def pending_routes_def)
qed

lemma live_routes_subset:
  "live_routes a \<subseteq> leg_routes (leg_at a Slot0) \<union> leg_routes (leg_at a Slot1) \<union>
     pending_routes (call_replacement a)"
  by (auto simp: live_routes_def)

lemma observe_report:
  assumes "leg_report a c at i s failure"
  shows "observe_route c rs =
    (if s \<in> {LegState.Ending, LegState.Ended, LegState.Failed}
     then rs - {(leg_id (leg_at a i), leg_binding_generation (leg_at a i))} else rs)"
  using assms by (auto elim!: leg_report.cases dest: leg_index_Inr split: if_splits)

lemma ending_no_routes: "valid a \<Longrightarrow> call_state a = CallState.Ending \<Longrightarrow> live_routes a = {}"
  using valid_parts(4) [of a Slot0] valid_parts(4) [of a Slot1] valid_parts(6) [of a]
  by (auto simp: live_routes_def leg_routes_def pending_routes_def)

lemma leg_routes_updates [simp]:
  "leg_routes (reported_leg l at s f) =
     (if s \<in> {LegState.Ending, LegState.Ended, LegState.Failed} then {}
      else {(leg_id l, leg_binding_generation l)})"
  "leg_routes (rotated_leg at g l) = {(leg_id l, g)}"
  "leg_routes (held_leg at g l) = {(leg_id l, leg_binding_generation l)}"
  "leg_routes (resumed_leg at l) = {(leg_id l, leg_binding_generation l)}"
  "leg_routes (switched_leg at r l) = {(leg_id l, repl_pending_binding_generation r)}"
  by (simp_all add: leg_routes_def rotated_leg_def held_leg_def resumed_leg_def switched_leg_def)

lemma leg_routes_subset: "leg_routes l \<subseteq> {(leg_id l, leg_binding_generation l)}"
  by (simp add: leg_routes_def)

lemma live_leg_routes:
  assumes "valid a" "call_state a \<notin> {CallState.Pending, CallState.Ending, CallState.Ended, CallState.Failed}"
  shows "leg_routes (leg_at a i) = {(leg_id (leg_at a i), leg_binding_generation (leg_at a i))}"
  using valid_parts(4) [OF assms(1), of i] assms(2)
  by (cases "call_state a") (auto simp: leg_routes_def)

lemma slot_ids: "plan_ok a \<Longrightarrow> leg_id (leg_at a i) = leg_id (leg_at a j) \<longleftrightarrow> i = j"
  by (cases i; cases j) (auto simp: plan_ok_def)

lemma report_routes:
  assumes v: "valid a" and r: "leg_report a c at i s failure"
    and p: "p = put_leg a i (reported_leg (leg_at a i) at s failure)"
  shows "call_state a = CallState.Ending \<Longrightarrow>
      observe_route c (live_routes a) = {} \<and> live_routes p = {}"
    and "call_state a \<noteq> CallState.Ending \<Longrightarrow> s \<notin> {LegState.Ending, LegState.Ended, LegState.Failed} \<Longrightarrow>
      observe_route c (live_routes a) = live_routes a \<and> live_routes p = live_routes a"
    and "call_state a \<noteq> CallState.Ending \<Longrightarrow> s \<in> {LegState.Ending, LegState.Ended, LegState.Failed} \<Longrightarrow>
      teardown p at outcome reason deadline b es \<Longrightarrow>
      fold perform_route es (observe_route c (live_routes a)) = live_routes b"
proof -
  note facts = leg_report_facts [OF r]
  show "observe_route c (live_routes a) = {} \<and> live_routes p = {}"
    if e: "call_state a = CallState.Ending"
  proof -
    have "s \<in> {LegState.Ending, LegState.Ended, LegState.Failed}"
      using facts(7) e by (auto simp: leg_is_terminal_def)
    then show ?thesis
      using ending_no_routes [OF v e] observe_report [OF r] p e valid_parts(4) [OF v, of Slot0]
        valid_parts(4) [OF v, of Slot1] valid_parts(6) [OF v]
      by (auto simp: live_routes_def leg_routes_def pending_routes_def)
  qed
  show "observe_route c (live_routes a) = live_routes a \<and> live_routes p = live_routes a"
    if "call_state a \<noteq> CallState.Ending" "s \<notin> {LegState.Ending, LegState.Ended, LegState.Failed}"
    using that observe_report [OF r] live_leg_routes [OF v] facts(5,6) p
    by (cases i) (auto simp: live_routes_def call_is_terminal_def)
  show "fold perform_route es (observe_route c (live_routes a)) = live_routes b"
    if "s \<in> {LegState.Ending, LegState.Ended, LegState.Failed}"
      "teardown p at outcome reason deadline b es"
    using that(1) live_routes_subset [of a] leg_routes_subset [of "leg_at a i"]
    unfolding teardown_routes [OF that(2)] observe_report [OF r] p
    by (cases i) auto
qed

lemma live_routes_frame [simp]:
  "live_routes (stamp v at a) = live_routes a"
  "live_routes (clear_due k a) = live_routes a"
  "live_routes (arm_due k g due a) = live_routes a"
  "live_routes (note_failure f a) = live_routes a"
  by (simp_all add: live_routes_def)

lemma ended_no_routes:
  assumes "\<And>i. leg_state (leg_at b i) \<in> {LegState.Ending, LegState.Ended, LegState.Failed}"
    "call_replacement b = None"
  shows "live_routes b = {}"
  using assms by (auto simp: live_routes_def leg_routes_def pending_routes_def)

lemma routes_sync_reports:
  assumes v: "valid a" and st: "call_step a c b es" and r: "leg_report a c at i s failure"
  shows "fold perform_route es (observe_route c (live_routes a)) = live_routes b"
  using st
proof cases
  case (connect at i s failure p)
  then have "s = LegState.Connected" by (auto dest: spec [of _ i])
  then show ?thesis
    using connect report_routes(2) [OF v connect(3) refl] by (simp add: live_routes_def)
next
  case (leg_ending at i s failure)
  then show ?thesis using report_routes(1) [OF v leg_ending(2) refl] by simp
next
  case (last_leg at i s failure p)
  then have "live_routes (finalized at p) = {}"
    using valid_parts(6) [OF v]
    by (intro ended_no_routes) (auto simp: all_legs_terminal_iff leg_is_terminal_def)
  then show ?thesis
    using last_leg report_routes(1) [OF v last_leg(3) refl] by simp
next
  case (leg_down at i s failure p)
  then show ?thesis using report_routes(3) [OF v leg_down(1) leg_down(2)] by simp
next
  case (leg_progress at i s failure)
  then show ?thesis using report_routes(2) [OF v leg_progress(2) refl] by simp
qed (use r in \<open>auto elim!: leg_report.cases\<close>)

text \<open>The routes of a call with a replacement: the held leg, the other leg, and the pending one.\<close>

lemma replacement_facts:
  assumes v: "valid a" and r: "call_replacement a = Some r" "leg_index a (repl_leg_id r) = Inr i"
  shows "leg_id (leg_at a i) = repl_leg_id r"
    "leg_binding_generation (leg_at a i) = repl_previous_binding_generation r"
    "repl_previous_binding_generation r < repl_pending_binding_generation r"
    "call_state a = CallState.Transferring"
proof -
  show "leg_id (leg_at a i) = repl_leg_id r" using leg_index_Inr [OF r(2)] .
  have "\<not> replacement_mismatch a (leg_at a i) r"
    using v r by (auto simp: valid_split replacement_ok_def)
  then show "leg_binding_generation (leg_at a i) = repl_previous_binding_generation r"
    "repl_previous_binding_generation r < repl_pending_binding_generation r"
    "call_state a = CallState.Transferring"
    by (auto simp: replacement_mismatch_def not_le)
qed

lemma after_replacement_routes:
  assumes v: "valid a" and r: "call_replacement a = Some r" "leg_index a (repl_leg_id r) = Inr i"
  shows "live_routes (after_replacement at i (resumed_leg at (leg_at a i)) a) =
      live_routes a - {(repl_leg_id r, repl_pending_binding_generation r)}"
    and "live_routes (after_replacement at i (switched_leg at r (leg_at a i)) a) =
      live_routes a - {(repl_leg_id r, repl_previous_binding_generation r)}"
proof -
  note f = replacement_facts [OF v r]
  have ids: "leg_id (leg_at a Slot0) \<noteq> leg_id (leg_at a Slot1)"
    using valid_parts(1) [OF v] by (simp add: plan_ok_def)
  have legs: "leg_routes (leg_at a j) = {(leg_id (leg_at a j), leg_binding_generation (leg_at a j))}" for j
    using live_leg_routes [OF v] f(4) by simp
  show "live_routes (after_replacement at i (resumed_leg at (leg_at a i)) a) =
      live_routes a - {(repl_leg_id r, repl_pending_binding_generation r)}"
    using f ids legs r(1) by (cases i) (auto simp: live_routes_def pending_routes_def)
  show "live_routes (after_replacement at i (switched_leg at r (leg_at a i)) a) =
      live_routes a - {(repl_leg_id r, repl_previous_binding_generation r)}"
    using f ids legs r(1) by (cases i) (auto simp: live_routes_def pending_routes_def)
qed

lemma routes_sync_commands:
  assumes v: "valid a" and st: "call_step a c b es"
    and nr: "\<And>at i s failure. \<not> leg_report a c at i s failure"
  shows "fold perform_route es (observe_route c (live_routes a)) = live_routes b"
proof -
  note legs = live_leg_routes [OF v] and none = valid_parts(6) [OF v]
  have ids: "leg_id (leg_at a Slot0) \<noteq> leg_id (leg_at a Slot1)"
    using valid_parts(1) [OF v] by (simp add: plan_ok_def)
  show ?thesis
    using st
  proof cases
    case (hang_up at deadline reason)
    then show ?thesis using teardown_routes [OF hang_up(6)] live_routes_subset [of a] by auto
  next
    case (timeout g kind due at deadline fs)
    then show ?thesis
      using teardown_routes [OF timeout(10)] live_routes_subset [of a] by auto
  next
    case (ending_timeout g due at deadline)
    have e: "call_state a = CallState.Ending"
      using valid_parts(5) [OF v, of DeadlineKind.Ending] ending_timeout by simp
    have "live_routes (finalized at (expired at a)) = {}"
      using none e by (intro ended_no_routes) (auto simp: expire_leg_def leg_is_terminal_def)
    then show ?thesis using ending_timeout ending_no_routes [OF v e] by simp
  next
    case (start at due g)
    then have "leg_state (leg_at a Slot0) = LegState.Pending" "leg_state (leg_at a Slot1) = LegState.Pending"
      using valid_parts(4) [OF v, of Slot0] valid_parts(4) [OF v, of Slot1] by auto
    then show ?thesis
      using start none by (auto simp: live_routes_def leg_routes_def start_leg_def pending_routes_def)
  next
    case (rotate leg i g at g')
    then have "leg_id (leg_at a i) = leg" by (simp add: leg_index_Inr)
    then show ?thesis
      using rotate legs none ids by (cases i) (auto simp: live_routes_def pending_routes_def)
  next
    case (replace at due leg i pending g p kind)
    then have "leg_id (leg_at a i) = leg" by (simp add: leg_index_Inr)
    then show ?thesis
      using replace legs none by (cases i) (auto simp: live_routes_def pending_routes_def)
  next
    case (switch g at r i)
    then show ?thesis using after_replacement_routes(2) [OF v] by simp
  next
    case (restore g at r i f)
    then show ?thesis using after_replacement_routes(1) [OF v] by simp
  next
    case (replacement_timeout g due at deadline r i)
    then show ?thesis using after_replacement_routes(1) [OF v] by simp
  next
    case (media_started leg i g at)
    then show ?thesis by (auto simp: live_routes_def leg_routes_def)
  next
    case (media_attached leg i g at)
    then show ?thesis by (auto simp: live_routes_def leg_routes_def)
  qed (use nr in \<open>auto simp: live_routes_def split: TransferResult.splits\<close>)
qed

lemma routes_sync:
  assumes "valid a" "call_step a c b es"
  shows "fold perform_route es (observe_route c (live_routes a)) = live_routes b"
  using routes_sync_reports [OF assms] routes_sync_commands [OF assms] by blast

interpretation route: effect_refinement observe_route perform_route live_routes
  by unfold_locales (simp_all add: routes_sync)

lemma terminal_no_routes: "valid a \<Longrightarrow> call_is_terminal (call_state a) \<Longrightarrow> live_routes a = {}"
  using valid_parts(4) [of a Slot0] valid_parts(4) [of a Slot1] valid_parts(6) [of a]
  by (auto simp: live_routes_def leg_routes_def pending_routes_def call_is_terminal_def)

section \<open>Histories\<close>

text \<open>
  C10: a worker that starts with the timers of a valid call and performs the effects of its
  history holds exactly the armed deadlines of the final aggregate, each with its current
  generation and due time. No timer leaks and none is lost.
\<close>

theorem timers_match:
  "valid a \<Longrightarrow> worker observe_timer perform_timer a cs (armed_timers a) = armed_timers (replay a cs)"
  by (rule timer.worker_held)

theorem timers_match_witness:
  "worker observe_timer perform_timer sample_active sample_hang_up (armed_timers sample_active) =
   armed_timers (replay sample_active sample_hang_up)"
  by (rule timers_match) (rule sample_active_valid)

text \<open>
  C11: the routes that a worker holds after a history are exactly the routes of the live legs of
  the aggregate and of its pending replacement; once the call is terminal it holds none.
\<close>

theorem routes_match:
  assumes "valid a"
  shows "worker observe_route perform_route a cs (live_routes a) = live_routes (replay a cs) \<and>
    (call_is_terminal (call_state (replay a cs)) \<longrightarrow> live_routes (replay a cs) = {})"
proof
  show "worker observe_route perform_route a cs (live_routes a) = live_routes (replay a cs)"
    using assms by (rule route.worker_held)
  have v: "valid (replay a cs)"
    using assms by (induction cs arbitrary: a) (simp_all add: valid_next)
  show "call_is_terminal (call_state (replay a cs)) \<longrightarrow> live_routes (replay a cs) = {}"
    using terminal_no_routes [OF v] by simp
qed

theorem routes_match_witness:
  "worker observe_route perform_route sample_active sample_hang_up (live_routes sample_active) = {}"
proof -
  have "call_is_terminal (call_state (replay sample_active sample_hang_up))" by code_simp
  then show ?thesis using routes_match [OF sample_active_valid] by simp
qed

text \<open>
  After every history the media of the two legs are bridged if and only if the call is active
  or transferring without a leg replacement, so media never flows to a leg that is being replaced.
\<close>

theorem bridge_matches:
  "valid a \<Longrightarrow> worker (\<lambda>_ s. s) perform_bridge a cs (media_bridged a) = media_bridged (replay a cs)"
  by (rule bridge.worker_held)

theorem bridge_matches_witness:
  "worker (\<lambda>_ s. s) perform_bridge sample_active sample_hang_up (media_bridged sample_active) =
   media_bridged (replay sample_active sample_hang_up)"
  by (rule bridge_matches) (rule sample_active_valid)

end
