(* ===== verification/Coord_Model.thy ===== *)
theory Coord_Model
  imports Call_Types
begin

text \<open>
  The data of the coordination layer (\<open>src/coordination/model.rs\<close>): identifiers and counters,
  worker snapshots, route hints and replay markers, the ordered events that carry them, and the
  checks on each of them. Instants and durations are integers in nanoseconds. The clock library is
  not part of the sources: the two operations the code calls, \<open>DateTime::checked_add_signed\<close> and
  \<open>TimeDelta::from_std\<close>, are fields of the record \<open>chrono\<close>, and \<open>chrono_laws\<close> states what
  they return when they do not overflow.
\<close>

section \<open>The clock library\<close>

type_synonym duration = nat

record chrono =
  checked_add_signed :: "time \<Rightarrow> int \<Rightarrow> time option"
  delta_from_std :: "duration \<Rightarrow> int option"

definition chrono_laws :: "chrono \<Rightarrow> bool" where
  "chrono_laws ch \<longleftrightarrow>
     (\<forall>t d r. checked_add_signed ch t d = Some r \<longrightarrow> r = t + d) \<and>
     (\<forall>n r. delta_from_std ch n = Some r \<longrightarrow> r = int n)"

section \<open>Identifiers and counters\<close>

datatype WorkerId = WorkerId (worker_uuid: uuid)
datatype WorkerFence = WorkerFence (fence_value: u64)
datatype DeploymentId = DeploymentId (deployment_str: rstr)
datatype ProjectionSequence = ProjectionSequence (sequence_value: u64)
datatype CoordinationClaimGeneration = CoordinationClaimGeneration (claim_value: u64)
datatype AttachmentTokenDigest = AttachmentTokenDigest "256 word"
datatype PrincipalFingerprint = PrincipalFingerprint "256 word"
datatype RouteCatalogFingerprint = RouteCatalogFingerprint "256 word"
datatype ReplayDigest = ReplayDigest "256 word"
datatype AttachmentTransport = Sip | WebRtc

instantiation WorkerId :: linorder
begin
definition less_eq_WorkerId :: "WorkerId \<Rightarrow> WorkerId \<Rightarrow> bool" where
  "less_eq_WorkerId a b \<longleftrightarrow> worker_uuid a \<le> worker_uuid b"
definition less_WorkerId :: "WorkerId \<Rightarrow> WorkerId \<Rightarrow> bool" where
  "less_WorkerId a b \<longleftrightarrow> worker_uuid a < worker_uuid b"
instance
  by standard (auto simp: less_eq_WorkerId_def less_WorkerId_def WorkerId.expand)
end

instantiation WorkerFence :: linorder
begin
definition less_eq_WorkerFence :: "WorkerFence \<Rightarrow> WorkerFence \<Rightarrow> bool" where
  "less_eq_WorkerFence a b \<longleftrightarrow> fence_value a \<le> fence_value b"
definition less_WorkerFence :: "WorkerFence \<Rightarrow> WorkerFence \<Rightarrow> bool" where
  "less_WorkerFence a b \<longleftrightarrow> fence_value a < fence_value b"
instance
  by standard (auto simp: less_eq_WorkerFence_def less_WorkerFence_def WorkerFence.expand)
end

instantiation ProjectionSequence :: linorder
begin
definition less_eq_ProjectionSequence :: "ProjectionSequence \<Rightarrow> ProjectionSequence \<Rightarrow> bool" where
  "less_eq_ProjectionSequence a b \<longleftrightarrow> sequence_value a \<le> sequence_value b"
definition less_ProjectionSequence :: "ProjectionSequence \<Rightarrow> ProjectionSequence \<Rightarrow> bool" where
  "less_ProjectionSequence a b \<longleftrightarrow> sequence_value a < sequence_value b"
instance
  by standard
    (auto simp: less_eq_ProjectionSequence_def less_ProjectionSequence_def ProjectionSequence.expand)
end

instantiation CoordinationClaimGeneration :: linorder
begin
definition less_eq_CoordinationClaimGeneration ::
    "CoordinationClaimGeneration \<Rightarrow> CoordinationClaimGeneration \<Rightarrow> bool" where
  "less_eq_CoordinationClaimGeneration a b \<longleftrightarrow> claim_value a \<le> claim_value b"
definition less_CoordinationClaimGeneration ::
    "CoordinationClaimGeneration \<Rightarrow> CoordinationClaimGeneration \<Rightarrow> bool" where
  "less_CoordinationClaimGeneration a b \<longleftrightarrow> claim_value a < claim_value b"
instance
  by standard
    (auto simp: less_eq_CoordinationClaimGeneration_def less_CoordinationClaimGeneration_def
      CoordinationClaimGeneration.expand)
end

datatype CoordinationError =
  InvalidInput string
| SequenceConflict
| StaleFence
| LeaseExpired
| DrainIsOneWay
| StaleClaim
| CounterExhausted
| Unavailable
| InvalidData

definition MAX_DEPLOYMENT_BYTES :: nat where "MAX_DEPLOYMENT_BYTES = 63"
definition MAX_NAME_BYTES :: nat where "MAX_NAME_BYTES = 128"
definition MAX_CAPABILITIES :: nat where "MAX_CAPABILITIES = 65"

text \<open>Nanoseconds: five minutes, thirty seconds, twenty-four hours.\<close>

definition MAX_CLAIM_TTL :: duration where "MAX_CLAIM_TTL = 5 * 60 * 1000000000"
definition MAX_POLL_INTERVAL :: duration where "MAX_POLL_INTERVAL = 30 * 1000000000"
definition MAX_PROJECTION_LIFETIME :: int where
  "MAX_PROJECTION_LIFETIME = 24 * 60 * 60 * 1000000000"

definition DeploymentId_parse :: "rstr \<Rightarrow> (CoordinationError, DeploymentId) result" where
  "DeploymentId_parse v =
     (if v = [] \<or> utf8_len v > MAX_DEPLOYMENT_BYTES \<or>
         \<not> list_all (\<lambda>b. ascii_alphanumeric b \<or> b \<in> set (lit ''-_.'')) v
      then Inl (InvalidInput ''invalid deployment ID'') else Inr (DeploymentId v))"

definition sequence_initial :: ProjectionSequence where
  "sequence_initial = ProjectionSequence 1"

definition sequence_from_i64 :: "64 word \<Rightarrow> (CoordinationError, ProjectionSequence) result" where
  "sequence_from_i64 v =
     (if sint v \<le> 0 then Inl (InvalidInput ''projection sequence must be positive'')
      else Inr (ProjectionSequence v))"

definition sequence_as_i64 :: "ProjectionSequence \<Rightarrow> 64 word" where
  "sequence_as_i64 s = sequence_value s"

definition sequence_next :: "ProjectionSequence \<Rightarrow> (CoordinationError, ProjectionSequence) result" where
  "sequence_next s =
     (if sequence_value s \<ge> MAX_PERSISTED_GENERATION then Inl CounterExhausted
      else Inr (ProjectionSequence (sequence_value s + 1)))"

definition sequence_decode :: "u64 \<Rightarrow> ProjectionSequence option" where
  "sequence_decode v =
     (if v = 0 \<or> v > MAX_PERSISTED_GENERATION then None else Some (ProjectionSequence v))"

definition claim_generation_default :: CoordinationClaimGeneration where
  "claim_generation_default = CoordinationClaimGeneration 0"

definition claim_from_i64 :: "64 word \<Rightarrow> (CoordinationError, CoordinationClaimGeneration) result" where
  "claim_from_i64 v =
     (if sint v < 0 then Inl (InvalidInput ''claim generation must not be negative'')
      else Inr (CoordinationClaimGeneration v))"

definition claim_as_i64 :: "CoordinationClaimGeneration \<Rightarrow> 64 word" where
  "claim_as_i64 g = claim_value g"

definition claim_next ::
    "CoordinationClaimGeneration \<Rightarrow> (CoordinationError, CoordinationClaimGeneration) result" where
  "claim_next g =
     (if claim_value g \<ge> MAX_PERSISTED_GENERATION then Inl CounterExhausted
      else Inr (CoordinationClaimGeneration (claim_value g + 1)))"

definition claim_decode :: "u64 \<Rightarrow> CoordinationClaimGeneration option" where
  "claim_decode v =
     (if v > MAX_PERSISTED_GENERATION then None else Some (CoordinationClaimGeneration v))"

section \<open>Snapshots, hints and events\<close>

text \<open>A \<open>BTreeSet<String>\<close> is the list of its elements in ascending order, each once.\<close>

type_synonym string_set = "rstr list"
type_synonym usize = "64 word"
type_synonym u128 = "128 word"

record WorkerLease =
  lease_worker_id :: WorkerId
  lease_fence :: WorkerFence

record WorkerCoordinationSnapshot =
  wcs_lease :: WorkerLease
  wcs_max_calls :: usize
  wcs_reserved_calls :: usize
  wcs_draining :: bool
  wcs_capabilities :: string_set
  wcs_lease_expires_at :: time

record CallRouteHint =
  route_call_id :: CallId
  route_worker :: WorkerLease
  route_expires_at :: time

record AttachmentRouteHint =
  att_token_digest :: AttachmentTokenDigest
  att_worker :: WorkerLease
  att_route_catalog_fingerprint :: "RouteCatalogFingerprint option"
  att_transport :: AttachmentTransport
  att_tenant_binding :: PrincipalFingerprint
  att_expires_at :: time

record AttachmentRouteLookup =
  lookup_token_digest :: AttachmentTokenDigest
  lookup_transport :: AttachmentTransport
  lookup_tenant_binding :: PrincipalFingerprint

record ReplayMarker =
  marker_digest :: ReplayDigest
  marker_expires_at :: time

datatype WakeupReason = Effects | Controls | Deadlines | ProviderEvents | Assignment | Broadcasts

datatype CoordinationPayload =
  Worker WorkerCoordinationSnapshot
| Route CallRouteHint
| RouteRemoved CallId
| AttachmentRoute AttachmentRouteHint
| AttachmentRouteRemoved AttachmentTokenDigest
| Replay ReplayMarker
| WakeWorker WorkerId WakeupReason

record CoordinationEvent =
  event_deployment :: DeploymentId
  event_sequence :: ProjectionSequence
  event_payload :: CoordinationPayload
  event_recorded_at :: time

record WakeupMessage =
  msg_entry_id :: rstr
  msg_sequence :: ProjectionSequence
  msg_reason :: WakeupReason

datatype DatabasePollReason = Wakeup | IntervalElapsed | CoordinationUnavailable

record WakeupPoll =
  poll_messages :: "WakeupMessage list"
  poll_reason :: DatabasePollReason

record WorkerSelectionRequest =
  sel_required_capabilities :: string_set
  sel_limit :: nat

datatype ProjectionApplyOutcome = Applied | Duplicate | Stale

section \<open>Checks\<close>

definition validate_capabilities :: "string_set \<Rightarrow> (CoordinationError, unit) result" where
  "validate_capabilities capabilities =
     guard_err
       (length capabilities > MAX_CAPABILITIES \<or>
        list_ex (\<lambda>c. c = [] \<or> utf8_len c > MAX_NAME_BYTES \<or> list_ex is_control c) capabilities)
       (InvalidInput ''invalid projected worker capability'')"

definition snapshot_validate :: "WorkerCoordinationSnapshot \<Rightarrow> (CoordinationError, unit) result" where
  "snapshot_validate w =
     and_then (guard_err (wcs_max_calls w = 0 \<or> wcs_reserved_calls w > wcs_max_calls w)
       (InvalidInput ''invalid projected worker capacity''))
     (\<lambda>_. validate_capabilities (wcs_capabilities w))"

text \<open>\<open>usize::saturating_sub\<close>.\<close>

definition available_calls :: "WorkerCoordinationSnapshot \<Rightarrow> usize" where
  "available_calls w =
     (if wcs_reserved_calls w \<le> wcs_max_calls w then wcs_max_calls w - wcs_reserved_calls w else 0)"

definition validate_projection_expiry ::
    "chrono \<Rightarrow> time \<Rightarrow> time \<Rightarrow> string \<Rightarrow> (CoordinationError, unit) result" where
  "validate_projection_expiry ch expires_at recorded_at error =
     (case checked_add_signed ch recorded_at MAX_PROJECTION_LIFETIME of
        None \<Rightarrow> Inl InvalidData
      | Some maximum \<Rightarrow>
          guard_err (expires_at \<le> recorded_at \<or> expires_at > maximum) (InvalidInput error))"

text \<open>\<open>DateTime::timestamp_millis\<close> rounds down.\<close>

definition timestamp_millis :: "time \<Rightarrow> int" where
  "timestamp_millis t = t div 1000000"

definition event_validate :: "chrono \<Rightarrow> CoordinationEvent \<Rightarrow> (CoordinationError, unit) result" where
  "event_validate ch e =
     and_then (guard_err (timestamp_millis (event_recorded_at e) < 0)
       (InvalidInput ''coordination time must follow the Unix epoch''))
     (\<lambda>_. case event_payload e of
        Worker worker \<Rightarrow>
          and_then (snapshot_validate worker) (\<lambda>_.
            validate_projection_expiry ch (wcs_lease_expires_at worker) (event_recorded_at e)
              ''invalid projected worker lease expiry'')
      | Route route \<Rightarrow>
          validate_projection_expiry ch (route_expires_at route) (event_recorded_at e)
            ''invalid projected route expiry''
      | AttachmentRoute route \<Rightarrow>
          validate_projection_expiry ch (att_expires_at route) (event_recorded_at e)
            ''invalid projected attachment route expiry''
      | Replay marker \<Rightarrow>
          validate_projection_expiry ch (marker_expires_at marker) (event_recorded_at e)
            ''invalid projected replay expiry''
      | _ \<Rightarrow> Inr ())"

fun reason_as_str :: "WakeupReason \<Rightarrow> rstr" where
  "reason_as_str Effects = lit ''effects''"
| "reason_as_str Controls = lit ''controls''"
| "reason_as_str Deadlines = lit ''deadlines''"
| "reason_as_str ProviderEvents = lit ''provider_events''"
| "reason_as_str Assignment = lit ''assignment''"
| "reason_as_str Broadcasts = lit ''broadcasts''"

definition reason_parse :: "rstr \<Rightarrow> (CoordinationError, WakeupReason) result" where
  "reason_parse v =
     (if v = lit ''effects'' then Inr Effects
      else if v = lit ''controls'' then Inr Controls
      else if v = lit ''deadlines'' then Inr Deadlines
      else if v = lit ''provider_events'' then Inr ProviderEvents
      else if v = lit ''assignment'' then Inr Assignment
      else if v = lit ''broadcasts'' then Inr Broadcasts
      else Inl InvalidData)"

definition selection_validate :: "WorkerSelectionRequest \<Rightarrow> (CoordinationError, unit) result" where
  "selection_validate r =
     and_then (guard_err (sel_limit r = 0 \<or> sel_limit r > 1024) (InvalidInput ''invalid selection limit''))
     (\<lambda>_. validate_capabilities (sel_required_capabilities r))"

definition checked_claim_expiry :: "chrono \<Rightarrow> time \<Rightarrow> duration \<Rightarrow> (CoordinationError, time) result" where
  "checked_claim_expiry ch now ttl =
     (if ttl = 0 \<or> ttl > MAX_CLAIM_TTL then Inl (InvalidInput ''invalid claim TTL'')
      else case delta_from_std ch ttl of
        None \<Rightarrow> Inl (InvalidInput ''claim TTL is too large'')
      | Some delta \<Rightarrow>
          (case checked_add_signed ch now delta of
             None \<Rightarrow> Inl (InvalidInput ''claim expiry overflow'')
           | Some t \<Rightarrow> Inr t))"

definition validate_poll_interval :: "duration \<Rightarrow> (CoordinationError, unit) result" where
  "validate_poll_interval interval =
     guard_err (interval = 0 \<or> interval > MAX_POLL_INTERVAL)
       (InvalidInput ''invalid database fallback poll interval'')"

section \<open>Lemmas\<close>

lemma sequence_next_Inr:
  "sequence_next s = Inr s' \<Longrightarrow>
   s < s' \<and> unat (sequence_value s') = Suc (unat (sequence_value s)) \<and>
   sequence_value s' \<le> MAX_PERSISTED_GENERATION"
  by (auto simp: sequence_next_def less_ProjectionSequence_def word_succ_below_max split: if_splits)

lemma claim_next_Inr:
  "claim_next g = Inr g' \<Longrightarrow>
   g < g' \<and> unat (claim_value g') = Suc (unat (claim_value g)) \<and>
   claim_value g' \<le> MAX_PERSISTED_GENERATION"
  by (auto simp: claim_next_def less_CoordinationClaimGeneration_def word_succ_below_max split: if_splits)

lemma i64_nonneg:
  fixes v :: "64 word"
  shows "0 \<le> sint v \<longleftrightarrow> v \<le> MAX_PERSISTED_GENERATION"
proof -
  have lt: "uint v < 2 ^ 64" using uint_bounded [of v] by simp
  have "0 \<le> sint v \<longleftrightarrow> \<not> odd (uint v div 2 ^ 63)"
    by (simp add: sint_uint signed_take_bit_nonnegative_iff bit_iff_odd)
  also have "\<dots> \<longleftrightarrow> uint v < 2 ^ 63"
  proof -
    have "uint v div 2 ^ 63 = (if uint v < 2 ^ 63 then 0 else 1)" using lt uint_ge_0 [of v] by auto
    then show ?thesis by simp
  qed
  also have "\<dots> \<longleftrightarrow> v \<le> MAX_PERSISTED_GENERATION"
    by (auto simp: word_le_def MAX_PERSISTED_GENERATION_def)
  finally show ?thesis .
qed

lemma i64_pos:
  fixes v :: "64 word"
  shows "0 < sint v \<longleftrightarrow> v \<noteq> 0 \<and> v \<le> MAX_PERSISTED_GENERATION"
proof -
  have "sint v = 0 \<longleftrightarrow> v = 0" by (metis signed_word_eqI sint_0)
  then show ?thesis using i64_nonneg [of v] by auto
qed

text \<open>
  The counters of the coordination layer fit their signed database columns. A sequence or
  claim generation passes the wire check if and only if writing it to the column and reading it
  back gives the same value, and the successors stay in that range.
\<close>

theorem counters_fit_columns:
  "(sequence_decode (sequence_value s) = Some s \<longleftrightarrow>
      sequence_from_i64 (sequence_as_i64 s) = Inr s) \<and>
   (claim_decode (claim_value g) = Some g \<longleftrightarrow> claim_from_i64 (claim_as_i64 g) = Inr g) \<and>
   (case sequence_next s of
      Inr s' \<Rightarrow> s < s' \<and> sequence_from_i64 (sequence_as_i64 s') = Inr s'
    | Inl e \<Rightarrow> e = CounterExhausted \<and> sequence_value s \<ge> MAX_PERSISTED_GENERATION) \<and>
   (case claim_next g of
      Inr g' \<Rightarrow> g < g' \<and> claim_from_i64 (claim_as_i64 g') = Inr g'
    | Inl e \<Rightarrow> e = CounterExhausted \<and> claim_value g \<ge> MAX_PERSISTED_GENERATION)"
proof -
  have seq: "sequence_from_i64 (sequence_as_i64 t) = Inr t \<longleftrightarrow>
      sequence_value t \<noteq> 0 \<and> sequence_value t \<le> MAX_PERSISTED_GENERATION" for t
    using i64_pos [of "sequence_value t"]
    by (auto simp: sequence_from_i64_def sequence_as_i64_def not_le)
  have claim: "claim_from_i64 (claim_as_i64 t) = Inr t \<longleftrightarrow> claim_value t \<le> MAX_PERSISTED_GENERATION" for t
    using i64_nonneg [of "claim_value t"] by (auto simp: claim_from_i64_def claim_as_i64_def not_less)
  have "sequence_decode (sequence_value s) = Some s \<longleftrightarrow>
      sequence_value s \<noteq> 0 \<and> sequence_value s \<le> MAX_PERSISTED_GENERATION"
    by (cases s) (auto simp: sequence_decode_def not_less)
  moreover have "claim_decode (claim_value g) = Some g \<longleftrightarrow> claim_value g \<le> MAX_PERSISTED_GENERATION"
    by (cases g) (auto simp: claim_decode_def not_less)
  moreover have "case sequence_next s of
      Inr s' \<Rightarrow> s < s' \<and> sequence_from_i64 (sequence_as_i64 s') = Inr s'
    | Inl e \<Rightarrow> e = CounterExhausted \<and> sequence_value s \<ge> MAX_PERSISTED_GENERATION"
  proof (cases "sequence_next s")
    case (Inr s')
    then have "sequence_value s' \<noteq> 0" using sequence_next_Inr by fastforce
    then show ?thesis using Inr sequence_next_Inr [OF Inr] by (simp add: seq)
  qed (simp add: sequence_next_def split: if_splits)
  moreover have "case claim_next g of
      Inr g' \<Rightarrow> g < g' \<and> claim_from_i64 (claim_as_i64 g') = Inr g'
    | Inl e \<Rightarrow> e = CounterExhausted \<and> claim_value g \<ge> MAX_PERSISTED_GENERATION"
  proof (cases "claim_next g")
    case (Inr g')
    then show ?thesis using claim_next_Inr [OF Inr] by (simp add: claim)
  qed (simp add: claim_next_def split: if_splits)
  ultimately show ?thesis using seq [of s] claim [of g] by blast
qed

lemma reason_round_trip: "reason_parse (reason_as_str r) = Inr r"
  by (cases r) (simp_all add: reason_parse_def lit_def)

text \<open>The comparison on integers, for evaluation.\<close>

lemma checked_claim_expiry_code [code]:
  "checked_claim_expiry ch now ttl =
     (if ttl = 0 \<or> int ttl > 300000000000 then Inl (InvalidInput ''invalid claim TTL'')
      else case delta_from_std ch ttl of
        None \<Rightarrow> Inl (InvalidInput ''claim TTL is too large'')
      | Some delta \<Rightarrow>
          (case checked_add_signed ch now delta of
             None \<Rightarrow> Inl (InvalidInput ''claim expiry overflow'')
           | Some t \<Rightarrow> Inr t))"
proof -
  have "ttl > MAX_CLAIM_TTL \<longleftrightarrow> int ttl > 300000000000" by (simp add: MAX_CLAIM_TTL_def)
  then show ?thesis by (simp add: checked_claim_expiry_def)
qed

lemma checked_claim_expiry_Inr:
  assumes "checked_claim_expiry ch now ttl = Inr t" "chrono_laws ch"
  shows "now < t \<and> t \<le> now + int MAX_CLAIM_TTL \<and> t = now + int ttl"
proof -
  obtain delta where d: "0 < ttl" "ttl \<le> MAX_CLAIM_TTL" "delta_from_std ch ttl = Some delta"
      "checked_add_signed ch now delta = Some t"
    using assms(1) by (auto simp: checked_claim_expiry_def split: if_splits option.splits)
  then have "delta = int ttl" "t = now + delta"
    using assms(2) unfolding chrono_laws_def by blast+
  then show ?thesis using d(1,2) by simp
qed

end
