(* ===== verification/Assoc_Map.thy ===== *)
theory Assoc_Map
  imports Prelude "HOL-Library.AList"
begin

text \<open>
  Hash maps as association lists with distinct keys. The order of the list stands for the
  unspecified iteration order of the map: lookups (\<open>map_of\<close>), insertion (\<open>AList.update\<close>),
  removal (\<open>AList.delete\<close>) and \<open>retain\<close> (\<open>filter\<close>) agree with the finite map that the list
  represents.
\<close>

abbreviation keys_distinct :: "('k \<times> 'v) list \<Rightarrow> bool" where
  "keys_distinct m \<equiv> distinct (map fst m)"

declare map_of_eq_Some_iff [simp del]

lemma in_map_of: "keys_distinct m \<Longrightarrow> (k, v) \<in> set m \<longleftrightarrow> map_of m k = Some v"
  by (simp add: map_of_eq_Some_iff)

lemma map_of_retain_Some:
  assumes "keys_distinct m"
  shows "map_of (filter P m) k = Some v \<longleftrightarrow> map_of m k = Some v \<and> P (k, v)"
proof -
  have "keys_distinct (filter P m)" using assms by (induction m) auto
  from in_map_of [OF this, of k v] in_map_of [OF assms, of k v] show ?thesis by simp
qed

lemma map_of_retain:
  assumes "keys_distinct m"
  shows "map_of (filter P m) k =
    (case map_of m k of None \<Rightarrow> None | Some v \<Rightarrow> if P (k, v) then Some v else None)"
proof (cases "map_of (filter P m) k")
  case None
  then have "\<not> (map_of m k = Some v \<and> P (k, v))" for v
    using map_of_retain_Some [OF assms, of P k v] by simp
  then show ?thesis using None by (cases "map_of m k") auto
next
  case (Some v)
  then show ?thesis using map_of_retain_Some [OF assms, of P k v] by simp
qed

lemma keys_distinct_retain [simp]: "keys_distinct m \<Longrightarrow> keys_distinct (filter P m)"
  by (induction m) auto

lemma keys_distinct_update [simp]: "keys_distinct m \<Longrightarrow> keys_distinct (AList.update k v m)"
  by (rule distinct_update)

lemma keys_distinct_delete [simp]: "keys_distinct m \<Longrightarrow> keys_distinct (AList.delete k m)"
  by (rule distinct_delete)

lemma map_of_update [simp]: "map_of (AList.update k v m) = (map_of m)(k \<mapsto> v)"
  by (rule update_conv')

lemma map_of_delete [simp]: "map_of (AList.delete k m) = (map_of m)(k := None)"
  by (rule delete_conv')

lemma list_all_update: "list_all P m \<Longrightarrow> P (k, v) \<Longrightarrow> list_all P (AList.update k v m)"
  by (induction m) auto

lemma list_all_lookup: "list_all P m \<Longrightarrow> map_of m k = Some v \<Longrightarrow> P (k, v)"
  by (auto simp: list_all_iff dest: map_of_SomeD)

lemma key_in_retain:
  assumes "keys_distinct m" "p \<in> set m"
  shows "fst p \<in> fst ` set (filter P m) \<longleftrightarrow> P p"
  using assms inj_on_image_mem_iff [of fst "set m" p "set (filter P m)"] by (auto simp: distinct_map)

lemma map_snd_keys: "map fst (map (\<lambda>(k, v). (k, f k v)) m) = map fst m"
  by (induction m) auto

lemma map_of_map_snd: "map_of (map (\<lambda>(k, v). (k, f k v)) m) k = map_option (f k) (map_of m k)"
  by (induction m) auto

text \<open>Two lists represent the same map if and only if they are permutations of each other.\<close>

lemma same_map_mset:
  assumes "keys_distinct m" "keys_distinct n" "map_of m = map_of n"
  shows "set m = set n"
proof -
  have "p \<in> set m \<longleftrightarrow> p \<in> set n" for p
    using in_map_of [OF assms(1), of "fst p" "snd p"] in_map_of [OF assms(2), of "fst p" "snd p"]
      assms(3) by simp
  then show ?thesis by blast
qed

end
