(* ===== verification/Coord_Memory.thy ===== *)
theory Coord_Memory
  imports Coord_Model Assoc_Map
begin

text \<open>
  The standalone coordination projection of \<open>src/coordination/memory.rs\<close>
  (\<open>MemoryCoordinator\<close>): state, clean-up, the versioned updates, the publication of wakeups, and
  the queries. Every operation takes the readings of the injected clock in the order in which the
  source reads it, and returns the new state also when it fails. \<open>mc_poisoned\<close> is the poison flag
  of the one mutex; the notification of waiting tasks has no effect on the state.
\<close>

section \<open>State\<close>

record 'v Versioned =
  ver_sequence :: ProjectionSequence
  ver_value :: 'v
  ver_retained_until :: time

record MemoryWakeupEntry =
  entry_id :: u64
  entry_sequence :: ProjectionSequence
  entry_reason :: WakeupReason

record PendingWakeup =
  pending_consumer :: rstr
  pending_delivered_at :: time

record MemoryConsumerGroup =
  group_last_delivered :: u64
  group_pending :: "(u64 \<times> PendingWakeup) list"
  group_retained_until :: "time option"

record MemoryWakeupStream =
  stream_entries :: "MemoryWakeupEntry list"
  stream_retained_until :: time

record MemoryState =
  ms_workers :: "(WorkerId \<times> WorkerCoordinationSnapshot Versioned) list"
  ms_routes :: "(CallId \<times> CallRouteHint option Versioned) list"
  ms_attachment_routes :: "(AttachmentTokenDigest \<times> AttachmentRouteHint option Versioned) list"
  ms_replay :: "(ReplayDigest \<times> ReplayMarker Versioned) list"
  ms_wakeup_sequences :: "(WorkerId \<times> WakeupReason Versioned) list"
  ms_streams :: "(WorkerId \<times> MemoryWakeupStream) list"
  ms_groups :: "((WorkerId \<times> rstr) \<times> MemoryConsumerGroup) list"
  ms_next_stream_id :: u64

record MemoryCoordinator =
  mc_deployment :: DeploymentId
  mc_max_stream_len :: nat
  mc_tombstone_ttl :: duration
  mc_stream_ttl :: duration
  mc_poisoned :: bool
  mc_state :: MemoryState

definition state_default :: MemoryState where
  "state_default =
     \<lparr>ms_workers = [], ms_routes = [], ms_attachment_routes = [], ms_replay = [],
      ms_wakeup_sequences = [], ms_streams = [], ms_groups = [], ms_next_stream_id = 0\<rparr>"

definition group_default :: MemoryConsumerGroup where
  "group_default =
     \<lparr>group_last_delivered = 0, group_pending = [], group_retained_until = None\<rparr>"

definition DEFAULT_TOMBSTONE_TTL :: duration where
  "DEFAULT_TOMBSTONE_TTL = 24 * 60 * 60 * 1000000000"

definition DEFAULT_STREAM_TTL :: duration where
  "DEFAULT_STREAM_TTL = 24 * 60 * 60 * 1000000000"

definition MAX_RETENTION :: duration where
  "MAX_RETENTION = 7 * 24 * 60 * 60 * 1000000000"

definition MemoryCoordinator_new ::
    "DeploymentId \<Rightarrow> nat \<Rightarrow> (CoordinationError, MemoryCoordinator) result" where
  "MemoryCoordinator_new deployment max_stream_len =
     (if max_stream_len = 0 \<or> max_stream_len > 1000000
      then Inl (InvalidInput ''invalid wakeup stream bound'')
      else Inr \<lparr>mc_deployment = deployment, mc_max_stream_len = max_stream_len,
                mc_tombstone_ttl = DEFAULT_TOMBSTONE_TTL, mc_stream_ttl = DEFAULT_STREAM_TTL,
                mc_poisoned = False, mc_state = state_default\<rparr>)"

definition with_retention ::
    "MemoryCoordinator \<Rightarrow> duration \<Rightarrow> duration \<Rightarrow> (CoordinationError, MemoryCoordinator) result" where
  "with_retention mc tombstone_ttl stream_ttl =
     (if tombstone_ttl = 0 \<or> tombstone_ttl > MAX_RETENTION \<or> stream_ttl = 0 \<or>
         stream_ttl > MAX_RETENTION
      then Inl (InvalidInput ''invalid memory coordination retention'')
      else Inr (mc\<lparr>mc_tombstone_ttl := tombstone_ttl, mc_stream_ttl := stream_ttl\<rparr>))"

section \<open>Clean-up\<close>

definition retained_until ::
    "chrono \<Rightarrow> time \<Rightarrow> time \<Rightarrow> duration \<Rightarrow> (CoordinationError, time) result" where
  "retained_until ch expiry now retention =
     (case delta_from_std ch retention of
        None \<Rightarrow> Inl (InvalidInput ''coordination retention is too large'')
      | Some delta \<Rightarrow>
          (case checked_add_signed ch (max expiry now) delta of
             None \<Rightarrow> Inl InvalidData
           | Some t \<Rightarrow> Inr t))"

definition retain_live :: "time \<Rightarrow> ('k \<times> 'v Versioned) list \<Rightarrow> ('k \<times> 'v Versioned) list" where
  "retain_live now m = filter (\<lambda>(_, entry). ver_retained_until entry > now) m"

text \<open>The loop over the workers whose stream has expired.\<close>

fun drop_streams :: "WorkerId list \<Rightarrow> MemoryState \<Rightarrow> MemoryState" where
  "drop_streams [] st = st"
| "drop_streams (w # ws) st =
     drop_streams ws
       (st\<lparr>ms_streams := AList.delete w (ms_streams st),
           ms_groups := filter (\<lambda>((pending_worker, _), _). pending_worker \<noteq> w) (ms_groups st)\<rparr>)"

definition cleanup_locked :: "time \<Rightarrow> MemoryState \<Rightarrow> MemoryState" where
  "cleanup_locked now st =
     (let st = st\<lparr>ms_workers := retain_live now (ms_workers st),
                  ms_routes := retain_live now (ms_routes st),
                  ms_attachment_routes := retain_live now (ms_attachment_routes st),
                  ms_replay := retain_live now (ms_replay st),
                  ms_wakeup_sequences := retain_live now (ms_wakeup_sequences st)\<rparr>;
          expired_workers =
            map fst (filter (\<lambda>(_, stream). stream_retained_until stream \<le> now) (ms_streams st));
          st = drop_streams expired_workers st
      in st\<lparr>ms_groups := filter (\<lambda>(_, group).
              case group_retained_until group of None \<Rightarrow> False | Some t \<Rightarrow> t > now) (ms_groups st)\<rparr>)"

section \<open>Versioned updates\<close>

definition apply_versioned ::
    "('k \<times> 'v Versioned) list \<Rightarrow> 'k \<Rightarrow> ProjectionSequence \<Rightarrow> 'v \<Rightarrow> time \<Rightarrow>
     ('k \<times> 'v Versioned) list \<times> (CoordinationError, ProjectionApplyOutcome) result" where
  "apply_versioned values key sequence value retained =
     (let inserted =
        (AList.update key
           \<lparr>ver_sequence = sequence, ver_value = value, ver_retained_until = retained\<rparr> values,
         Inr Applied)
      in case map_of values key of
           None \<Rightarrow> inserted
         | Some existing \<Rightarrow>
             if sequence < ver_sequence existing then (values, Inr Stale)
             else if sequence = ver_sequence existing
             then (values, if value = ver_value existing then Inr Duplicate else Inl SequenceConflict)
             else inserted)"

type_synonym applied_event = "MemoryState \<times> (CoordinationError, ProjectionApplyOutcome) result"

text \<open>The conflict checks of \<open>apply_worker\<close> against the stored snapshot.\<close>

definition apply_worker ::
    "chrono \<Rightarrow> MemoryCoordinator \<Rightarrow> time \<Rightarrow> MemoryState \<Rightarrow> ProjectionSequence \<Rightarrow> time \<Rightarrow>
     WorkerCoordinationSnapshot \<Rightarrow> applied_event" where
  "apply_worker ch mc now st sequence recorded_at incoming =
     (case snapshot_validate incoming of
        Inl e \<Rightarrow> (st, Inl e)
      | Inr _ \<Rightarrow>
     case retained_until ch (wcs_lease_expires_at incoming) now (mc_tombstone_ttl mc) of
        Inl e \<Rightarrow> (st, Inl e)
      | Inr keep_until \<Rightarrow>
     let worker_id = lease_worker_id (wcs_lease incoming);
         inserted =
           (st\<lparr>ms_workers := AList.update worker_id
                \<lparr>ver_sequence = sequence, ver_value = incoming, ver_retained_until = keep_until\<rparr>
                (ms_workers st)\<rparr>,
            Inr Applied)
     in case map_of (ms_workers st) worker_id of
          None \<Rightarrow> inserted
        | Some existing \<Rightarrow>
            if sequence < ver_sequence existing then (st, Inr Stale)
            else if sequence = ver_sequence existing
            then (st, if incoming = ver_value existing then Inr Duplicate else Inl SequenceConflict)
            else if lease_fence (wcs_lease incoming) < lease_fence (wcs_lease (ver_value existing))
            then (st, Inl StaleFence)
            else if lease_fence (wcs_lease incoming) = lease_fence (wcs_lease (ver_value existing)) \<and>
                    wcs_lease_expires_at (ver_value existing) \<le> recorded_at
            then (st, Inl LeaseExpired)
            else if lease_fence (wcs_lease incoming) = lease_fence (wcs_lease (ver_value existing)) \<and>
                    wcs_draining (ver_value existing) \<and> \<not> wcs_draining incoming
            then (st, Inl DrainIsOneWay)
            else inserted)"

definition apply_route ::
    "chrono \<Rightarrow> MemoryCoordinator \<Rightarrow> time \<Rightarrow> MemoryState \<Rightarrow> ProjectionSequence \<Rightarrow> CallRouteHint \<Rightarrow>
     applied_event" where
  "apply_route ch mc now st sequence incoming =
     (case retained_until ch (route_expires_at incoming) now (mc_tombstone_ttl mc) of
        Inl e \<Rightarrow> (st, Inl e)
      | Inr keep_until \<Rightarrow>
          let (routes, r) =
            apply_versioned (ms_routes st) (route_call_id incoming) sequence (Some incoming) keep_until
          in (st\<lparr>ms_routes := routes\<rparr>, r))"

definition remove_route ::
    "chrono \<Rightarrow> MemoryCoordinator \<Rightarrow> time \<Rightarrow> MemoryState \<Rightarrow> ProjectionSequence \<Rightarrow> time \<Rightarrow> CallId \<Rightarrow>
     applied_event" where
  "remove_route ch mc now st sequence recorded_at cid =
     (case retained_until ch recorded_at now (mc_tombstone_ttl mc) of
        Inl e \<Rightarrow> (st, Inl e)
      | Inr keep_until \<Rightarrow>
          let (routes, r) = apply_versioned (ms_routes st) cid sequence None keep_until
          in (st\<lparr>ms_routes := routes\<rparr>, r))"

definition apply_attachment_route ::
    "chrono \<Rightarrow> MemoryCoordinator \<Rightarrow> time \<Rightarrow> MemoryState \<Rightarrow> ProjectionSequence \<Rightarrow> AttachmentRouteHint \<Rightarrow>
     applied_event" where
  "apply_attachment_route ch mc now st sequence incoming =
     (case retained_until ch (att_expires_at incoming) now (mc_tombstone_ttl mc) of
        Inl e \<Rightarrow> (st, Inl e)
      | Inr keep_until \<Rightarrow>
          let (routes, r) =
            apply_versioned (ms_attachment_routes st) (att_token_digest incoming) sequence
              (Some incoming) keep_until
          in (st\<lparr>ms_attachment_routes := routes\<rparr>, r))"

definition remove_attachment_route ::
    "chrono \<Rightarrow> MemoryCoordinator \<Rightarrow> time \<Rightarrow> MemoryState \<Rightarrow> ProjectionSequence \<Rightarrow> time \<Rightarrow>
     AttachmentTokenDigest \<Rightarrow> applied_event" where
  "remove_attachment_route ch mc now st sequence recorded_at token_digest =
     (case retained_until ch recorded_at now (mc_tombstone_ttl mc) of
        Inl e \<Rightarrow> (st, Inl e)
      | Inr keep_until \<Rightarrow>
          let (routes, r) =
            apply_versioned (ms_attachment_routes st) token_digest sequence None keep_until
          in (st\<lparr>ms_attachment_routes := routes\<rparr>, r))"

definition apply_replay ::
    "chrono \<Rightarrow> MemoryCoordinator \<Rightarrow> time \<Rightarrow> MemoryState \<Rightarrow> ProjectionSequence \<Rightarrow> ReplayMarker \<Rightarrow>
     applied_event" where
  "apply_replay ch mc now st sequence incoming =
     (case retained_until ch (marker_expires_at incoming) now (mc_tombstone_ttl mc) of
        Inl e \<Rightarrow> (st, Inl e)
      | Inr keep_until \<Rightarrow>
          let (replay, r) =
            apply_versioned (ms_replay st) (marker_digest incoming) sequence incoming keep_until
          in (st\<lparr>ms_replay := replay\<rparr>, r))"

section \<open>Wakeup streams\<close>

text \<open>The trimming loop of \<open>publish_locked\<close>: a trimmed entry is forgotten by every group.\<close>

definition forget_pending ::
    "WorkerId \<Rightarrow> u64 \<Rightarrow> ((WorkerId \<times> rstr) \<times> MemoryConsumerGroup) list \<Rightarrow>
     ((WorkerId \<times> rstr) \<times> MemoryConsumerGroup) list" where
  "forget_pending w i groups =
     map (\<lambda>(key, group).
       (key, if fst key = w then group\<lparr>group_pending := AList.delete i (group_pending group)\<rparr>
             else group)) groups"

fun trim_stream ::
    "nat \<Rightarrow> WorkerId \<Rightarrow> MemoryWakeupEntry list \<Rightarrow> ((WorkerId \<times> rstr) \<times> MemoryConsumerGroup) list \<Rightarrow>
     MemoryWakeupEntry list \<times> ((WorkerId \<times> rstr) \<times> MemoryConsumerGroup) list" where
  "trim_stream max_len w [] groups = ([], groups)"
| "trim_stream max_len w (e # es) groups =
     (if length (e # es) > max_len
      then trim_stream max_len w es (forget_pending w (entry_id e) groups)
      else (e # es, groups))"

definition publish_locked ::
    "chrono \<Rightarrow> MemoryCoordinator \<Rightarrow> time \<Rightarrow> MemoryState \<Rightarrow> WorkerId \<Rightarrow> ProjectionSequence \<Rightarrow>
     WakeupReason \<Rightarrow> MemoryState \<times> (CoordinationError, unit) result" where
  "publish_locked ch mc now st worker_id sequence reason =
     (case retained_until ch now now (mc_stream_ttl mc) of
        Inl e \<Rightarrow> (st, Inl e)
      | Inr stream_retained \<Rightarrow>
     if ms_next_stream_id st = - 1 then (st, Inl CounterExhausted)
     else
       let next_id = ms_next_stream_id st + 1;
           entry = \<lparr>entry_id = next_id, entry_sequence = sequence, entry_reason = reason\<rparr>;
           entries = (case map_of (ms_streams st) worker_id of
                        Some stream \<Rightarrow> stream_entries stream | None \<Rightarrow> []);
           (entries, groups) =
             trim_stream (mc_max_stream_len mc) worker_id (entries @ [entry]) (ms_groups st)
       in (st\<lparr>ms_next_stream_id := next_id,
              ms_streams := AList.update worker_id
                \<lparr>stream_entries = entries, stream_retained_until = stream_retained\<rparr> (ms_streams st),
              ms_groups := groups\<rparr>,
           Inr ()))"

text \<open>\<open>apply_wakeup\<close> records the sequence before it publishes; \<open>now'\<close> is the second reading of
  the clock, in \<open>publish_locked\<close>.\<close>

definition apply_wakeup ::
    "chrono \<Rightarrow> MemoryCoordinator \<Rightarrow> time \<Rightarrow> time \<Rightarrow> MemoryState \<Rightarrow> ProjectionSequence \<Rightarrow> WorkerId \<Rightarrow>
     WakeupReason \<Rightarrow> applied_event" where
  "apply_wakeup ch mc now now' st sequence worker_id reason =
     (case retained_until ch now now (mc_stream_ttl mc) of
        Inl e \<Rightarrow> (st, Inl e)
      | Inr keep_until \<Rightarrow>
     let (sequences, r) =
           apply_versioned (ms_wakeup_sequences st) worker_id sequence reason keep_until;
         st = st\<lparr>ms_wakeup_sequences := sequences\<rparr>
     in case r of
          Inr Applied \<Rightarrow>
            (case publish_locked ch mc now' st worker_id sequence reason of
               (st, Inl e) \<Rightarrow> (st, Inl e)
             | (st, Inr _) \<Rightarrow> (st, Inr Applied))
        | _ \<Rightarrow> (st, r))"

section \<open>The projection interface\<close>

text \<open>
  \<open>apply\<close>: \<open>t0\<close> is the clock reading of the clean-up, \<open>t1\<close> of the update, \<open>t2\<close> of the
  publication.
\<close>

definition apply_payload ::
    "chrono \<Rightarrow> MemoryCoordinator \<Rightarrow> time \<Rightarrow> time \<Rightarrow> CoordinationEvent \<Rightarrow> MemoryState \<Rightarrow> applied_event" where
  "apply_payload ch mc t1 t2 event st =
     (case event_payload event of
        Worker worker \<Rightarrow>
          apply_worker ch mc t1 st (event_sequence event) (event_recorded_at event) worker
      | Route route \<Rightarrow> apply_route ch mc t1 st (event_sequence event) route
      | RouteRemoved cid \<Rightarrow>
          remove_route ch mc t1 st (event_sequence event) (event_recorded_at event) cid
      | AttachmentRoute route \<Rightarrow> apply_attachment_route ch mc t1 st (event_sequence event) route
      | AttachmentRouteRemoved token_digest \<Rightarrow>
          remove_attachment_route ch mc t1 st (event_sequence event) (event_recorded_at event)
            token_digest
      | Replay marker \<Rightarrow> apply_replay ch mc t1 st (event_sequence event) marker
      | WakeWorker worker_id reason \<Rightarrow>
          apply_wakeup ch mc t1 t2 st (event_sequence event) worker_id reason)"

definition coordinator_apply ::
    "chrono \<Rightarrow> time \<Rightarrow> time \<Rightarrow> time \<Rightarrow> MemoryCoordinator \<Rightarrow> CoordinationEvent \<Rightarrow>
     MemoryCoordinator \<times> (CoordinationError, ProjectionApplyOutcome) result" where
  "coordinator_apply ch t0 t1 t2 mc event =
     (case event_validate ch event of
        Inl e \<Rightarrow> (mc, Inl e)
      | Inr _ \<Rightarrow>
     if event_deployment event \<noteq> mc_deployment mc
     then (mc, Inl (InvalidInput ''coordination deployment mismatch''))
     else if mc_poisoned mc then (mc, Inl Unavailable)
     else
       let (st, r) = apply_payload ch mc t1 t2 event (cleanup_locked t0 (mc_state mc))
       in (mc\<lparr>mc_state := st\<rparr>, r))"

text \<open>
  The order of the hints: relative load by cross multiplication in 128 bits, then reservations,
  then the worker identifier, then the newest fence. \<open>worker_le\<close> is \<open>Ordering\<close> below
  \<open>Greater\<close>.
\<close>

definition worker_load :: "WorkerCoordinationSnapshot \<Rightarrow> WorkerCoordinationSnapshot \<Rightarrow> u128" where
  "worker_load a b = ucast (wcs_reserved_calls a) * ucast (wcs_max_calls b)"

definition worker_le :: "WorkerCoordinationSnapshot \<Rightarrow> WorkerCoordinationSnapshot \<Rightarrow> bool" where
  "worker_le left right =
     (let left_load = worker_load left right; right_load = worker_load right left in
      if left_load \<noteq> right_load then left_load < right_load
      else if wcs_reserved_calls left \<noteq> wcs_reserved_calls right
      then wcs_reserved_calls left < wcs_reserved_calls right
      else if lease_worker_id (wcs_lease left) \<noteq> lease_worker_id (wcs_lease right)
      then lease_worker_id (wcs_lease left) < lease_worker_id (wcs_lease right)
      else lease_fence (wcs_lease right) \<le> lease_fence (wcs_lease left))"

text \<open>A stable sort, as \<open>slice::sort_by\<close>.\<close>

fun insert_by :: "('a \<Rightarrow> 'a \<Rightarrow> bool) \<Rightarrow> 'a \<Rightarrow> 'a list \<Rightarrow> 'a list" where
  "insert_by le x [] = [x]"
| "insert_by le x (y # ys) = (if le x y then x # y # ys else y # insert_by le x ys)"

definition sort_by :: "('a \<Rightarrow> 'a \<Rightarrow> bool) \<Rightarrow> 'a list \<Rightarrow> 'a list" where
  "sort_by le xs = foldr (insert_by le) xs []"

definition eligible_worker :: "time \<Rightarrow> WorkerSelectionRequest \<Rightarrow> WorkerCoordinationSnapshot \<Rightarrow> bool" where
  "eligible_worker now request w \<longleftrightarrow>
     wcs_lease_expires_at w > now \<and> \<not> wcs_draining w \<and> wcs_reserved_calls w < wcs_max_calls w \<and>
     list_all (\<lambda>c. c \<in> set (wcs_capabilities w)) (sel_required_capabilities request)"

definition worker_hints ::
    "time \<Rightarrow> MemoryCoordinator \<Rightarrow> WorkerSelectionRequest \<Rightarrow>
     MemoryCoordinator \<times> (CoordinationError, WorkerCoordinationSnapshot list) result" where
  "worker_hints now mc request =
     (case selection_validate request of
        Inl e \<Rightarrow> (mc, Inl e)
      | Inr _ \<Rightarrow>
     if mc_poisoned mc then (mc, Inl Unavailable)
     else
       let st = cleanup_locked now (mc_state mc);
           workers = filter (eligible_worker now request) (map (ver_value \<circ> snd) (ms_workers st))
       in (mc\<lparr>mc_state := st\<rparr>, Inr (take (sel_limit request) (sort_by worker_le workers))))"

definition worker_is_live :: "time \<Rightarrow> MemoryState \<Rightarrow> WorkerLease \<Rightarrow> bool \<Rightarrow> bool" where
  "worker_is_live now st lease allow_draining =
     (case map_of (ms_workers st) (lease_worker_id lease) of
        None \<Rightarrow> False
      | Some worker \<Rightarrow>
          wcs_lease (ver_value worker) = lease \<and> wcs_lease_expires_at (ver_value worker) > now \<and>
          (allow_draining \<or> \<not> wcs_draining (ver_value worker)))"

definition route_hint ::
    "time \<Rightarrow> MemoryCoordinator \<Rightarrow> CallId \<Rightarrow>
     MemoryCoordinator \<times> (CoordinationError, CallRouteHint option) result" where
  "route_hint now mc cid =
     (if mc_poisoned mc then (mc, Inl Unavailable)
      else
        let st = cleanup_locked now (mc_state mc); mc = mc\<lparr>mc_state := st\<rparr> in
        case Option.bind (map_of (ms_routes st) cid) ver_value of
          None \<Rightarrow> (mc, Inr None)
        | Some route \<Rightarrow>
            if route_expires_at route \<le> now then (mc, Inr None)
            else (mc, Inr (if worker_is_live now st (route_worker route) True then Some route else None)))"

definition attachment_route_hint ::
    "time \<Rightarrow> MemoryCoordinator \<Rightarrow> AttachmentRouteLookup \<Rightarrow>
     MemoryCoordinator \<times> (CoordinationError, AttachmentRouteHint option) result" where
  "attachment_route_hint now mc lookup =
     (if mc_poisoned mc then (mc, Inl Unavailable)
      else
        let st = cleanup_locked now (mc_state mc); mc = mc\<lparr>mc_state := st\<rparr> in
        case Option.bind (map_of (ms_attachment_routes st) (lookup_token_digest lookup)) ver_value of
          None \<Rightarrow> (mc, Inr None)
        | Some route \<Rightarrow>
            if att_expires_at route \<le> now \<or> att_transport route \<noteq> lookup_transport lookup \<or>
               att_tenant_binding route \<noteq> lookup_tenant_binding lookup
            then (mc, Inr None)
            else (mc, Inr (if worker_is_live now st (att_worker route) False then Some route else None)))"

definition replay_seen ::
    "time \<Rightarrow> MemoryCoordinator \<Rightarrow> ReplayDigest \<Rightarrow> MemoryCoordinator \<times> (CoordinationError, bool) result" where
  "replay_seen now mc digest =
     (if mc_poisoned mc then (mc, Inl Unavailable)
      else
        let st = cleanup_locked now (mc_state mc) in
        (mc\<lparr>mc_state := st\<rparr>,
         Inr (case map_of (ms_replay st) digest of
                None \<Rightarrow> False | Some entry \<Rightarrow> marker_expires_at (ver_value entry) > now)))"

definition publish_wakeup ::
    "chrono \<Rightarrow> time \<Rightarrow> time \<Rightarrow> time \<Rightarrow> MemoryCoordinator \<Rightarrow> WorkerId \<Rightarrow> ProjectionSequence \<Rightarrow> WakeupReason \<Rightarrow>
     MemoryCoordinator \<times> (CoordinationError, unit) result" where
  "publish_wakeup ch t0 t1 t2 mc worker_id sequence reason =
     (if mc_poisoned mc then (mc, Inl Unavailable)
      else
        let (st, r) =
          apply_wakeup ch mc t1 t2 (cleanup_locked t0 (mc_state mc)) sequence worker_id reason
        in (mc\<lparr>mc_state := st\<rparr>, map_sum id (\<lambda>_. ()) r))"

end
