(* ===== verification/Coord_Wakeup.thy ===== *)
theory Coord_Wakeup
  imports Coord_Memory
begin

text \<open>
  Wakeup consumers of \<open>src/coordination/memory.rs\<close> (\<open>MemoryWakeupConsumer\<close>): delivery to a
  consumer group, the polling loop, the recovery of idle deliveries, and acknowledgement, with the
  decimal stream identifiers that the messages carry.
\<close>

section \<open>Stream identifiers\<close>

fun decimal :: "nat \<Rightarrow> rstr" where
  "decimal n = (if n < 10 then [48 + n] else decimal (n div 10) @ [48 + n mod 10])"

declare decimal.simps [simp del]

text \<open>\<open>format!("{}-0", id)\<close>.\<close>

definition stream_entry_id :: "u64 \<Rightarrow> rstr" where
  "stream_entry_id i = decimal (unat i) @ lit ''-0''"

definition memory_message :: "MemoryWakeupEntry \<Rightarrow> WakeupMessage" where
  "memory_message e =
     \<lparr>msg_entry_id = stream_entry_id (entry_id e), msg_sequence = entry_sequence e,
      msg_reason = entry_reason e\<rparr>"

text \<open>\<open>str::strip_suffix\<close>.\<close>

definition strip_suffix :: "rstr \<Rightarrow> rstr \<Rightarrow> rstr option" where
  "strip_suffix suffix s =
     (if length suffix \<le> length s \<and> drop (length s - length suffix) s = suffix
      then Some (take (length s - length suffix) s) else None)"

text \<open>\<open>str::parse::<u64>\<close>: an optional plus sign, then at least one digit, without overflow.\<close>

fun parse_digits :: "nat \<Rightarrow> rstr \<Rightarrow> nat option" where
  "parse_digits acc [] = Some acc"
| "parse_digits acc (c # cs) =
     (if ascii_digit c \<and> acc * 10 + (c - 48) < 2 ^ 64 then parse_digits (acc * 10 + (c - 48)) cs
      else None)"

definition parse_u64 :: "rstr \<Rightarrow> u64 option" where
  "parse_u64 s =
     (let digits = (case s of c # cs \<Rightarrow> if c = 43 then cs else s | [] \<Rightarrow> [])
      in if digits = [] then None else map_option of_nat (parse_digits 0 digits))"

definition parse_entry_id :: "rstr \<Rightarrow> (CoordinationError, u64) result" where
  "parse_entry_id s =
     (case Option.bind (strip_suffix (lit ''-0'') s) parse_u64 of
        None \<Rightarrow> Inl (InvalidInput ''invalid memory stream ID'')
      | Some i \<Rightarrow> Inr i)"

fun parse_entry_ids :: "rstr list \<Rightarrow> (CoordinationError, u64 list) result" where
  "parse_entry_ids [] = Inr []"
| "parse_entry_ids (s # ss) =
     and_then (parse_entry_id s) (\<lambda>i. and_then (parse_entry_ids ss) (\<lambda>is. Inr (i # is)))"

section \<open>Consumers\<close>

record MemoryWakeupConsumer =
  cons_worker_id :: WorkerId
  cons_group :: rstr
  cons_consumer :: rstr
  cons_poll_interval :: duration

definition ascii_control :: "rchar \<Rightarrow> bool" where
  "ascii_control c \<longleftrightarrow> c < 32 \<or> c = 127"

definition ascii_whitespace :: "rchar \<Rightarrow> bool" where
  "ascii_whitespace c \<longleftrightarrow> c \<in> {9, 10, 12, 13, 32}"

definition validate_name :: "rstr \<Rightarrow> (CoordinationError, rstr) result" where
  "validate_name v =
     (if v = [] \<or> utf8_len v > 128 \<or> list_ex (\<lambda>b. ascii_control b \<or> ascii_whitespace b) v
      then Inl (InvalidInput ''invalid consumer or group name'') else Inr v)"

definition group_or_default ::
    "MemoryState \<Rightarrow> WorkerId \<times> rstr \<Rightarrow> MemoryConsumerGroup" where
  "group_or_default st key =
     (case map_of (ms_groups st) key of Some grp \<Rightarrow> grp | None \<Rightarrow> group_default)"

definition put_group ::
    "WorkerId \<times> rstr \<Rightarrow> MemoryConsumerGroup \<Rightarrow> MemoryState \<Rightarrow> MemoryState" where
  "put_group key grp st = st\<lparr>ms_groups := AList.update key grp (ms_groups st)\<rparr>"

definition wakeup_consumer ::
    "chrono \<Rightarrow> time \<Rightarrow> MemoryCoordinator \<Rightarrow> WorkerId \<Rightarrow> rstr \<Rightarrow> rstr \<Rightarrow> duration \<Rightarrow>
     MemoryCoordinator \<times> (CoordinationError, MemoryWakeupConsumer) result" where
  "wakeup_consumer ch now mc worker_id grp consumer poll_interval =
     (case and_then (validate_poll_interval poll_interval) (\<lambda>_.
             and_then (validate_name grp) (\<lambda>_.
             and_then (validate_name consumer) (\<lambda>_.
               retained_until ch now now (mc_stream_ttl mc)))) of
        Inl e \<Rightarrow> (mc, Inl e)
      | Inr retained \<Rightarrow>
     if mc_poisoned mc then (mc, Inl Unavailable)
     else
       let st = cleanup_locked now (mc_state mc);
           key = (worker_id, grp);
           st = put_group key ((group_or_default st key)\<lparr>group_retained_until := Some retained\<rparr>) st
       in (mc\<lparr>mc_state := st\<rparr>,
           Inr \<lparr>cons_worker_id = worker_id, cons_group = grp, cons_consumer = consumer,
                cons_poll_interval = poll_interval\<rparr>))"

definition consumer_key :: "MemoryWakeupConsumer \<Rightarrow> WorkerId \<times> rstr" where
  "consumer_key c = (cons_worker_id c, cons_group c)"

definition stream_of :: "MemoryState \<Rightarrow> WorkerId \<Rightarrow> MemoryWakeupEntry list" where
  "stream_of st w =
     (case map_of (ms_streams st) w of Some stream \<Rightarrow> stream_entries stream | None \<Rightarrow> [])"

text \<open>The delivery loop of \<open>take_ready\<close> over the selected entries.\<close>

fun deliver ::
    "rstr \<Rightarrow> time \<Rightarrow> MemoryWakeupEntry list \<Rightarrow> MemoryConsumerGroup \<Rightarrow> MemoryConsumerGroup" where
  "deliver consumer now [] grp = grp"
| "deliver consumer now (e # es) grp =
     deliver consumer now es
       (grp\<lparr>group_last_delivered := max (group_last_delivered grp) (entry_id e),
              group_pending := AList.update (entry_id e)
                \<lparr>pending_consumer = consumer, pending_delivered_at = now\<rparr> (group_pending grp)\<rparr>)"

definition take_ready ::
    "chrono \<Rightarrow> time \<Rightarrow> MemoryCoordinator \<Rightarrow> MemoryWakeupConsumer \<Rightarrow> nat \<Rightarrow>
     MemoryCoordinator \<times> (CoordinationError, WakeupMessage list) result" where
  "take_ready ch now mc c count =
     (case retained_until ch now now (mc_stream_ttl mc) of
        Inl e \<Rightarrow> (mc, Inl e)
      | Inr group_retained \<Rightarrow>
     if mc_poisoned mc then (mc, Inl Unavailable)
     else
       let st = cleanup_locked now (mc_state mc);
           key = consumer_key c;
           last_delivered = group_last_delivered (group_or_default st key);
           entries = take count
             (filter (\<lambda>e. entry_id e > last_delivered) (stream_of st (cons_worker_id c)));
           grp = deliver (cons_consumer c) now entries
             ((group_or_default st key)\<lparr>group_retained_until := Some group_retained\<rparr>)
       in (mc\<lparr>mc_state := put_group key grp st\<rparr>, Inr (map memory_message entries)))"

text \<open>
  \<open>poll\<close>: the first pass of the loop reads the clock as \<open>now\<close>. Each element of \<open>rounds\<close> is a
  further pass: what other tasks do to the coordinator until the notification that starts the pass,
  and its clock reading. The interval has elapsed when no pass is left.
\<close>

fun poll_rounds ::
    "chrono \<Rightarrow> MemoryWakeupConsumer \<Rightarrow> nat \<Rightarrow> time \<Rightarrow> ((MemoryCoordinator \<Rightarrow> MemoryCoordinator) \<times> time) list \<Rightarrow>
     MemoryCoordinator \<Rightarrow> MemoryCoordinator \<times> WakeupPoll" where
  "poll_rounds ch c count now rounds mc =
     (case take_ready ch now mc c count of
        (mc, Inl _) \<Rightarrow> (mc, \<lparr>poll_messages = [], poll_reason = CoordinationUnavailable\<rparr>)
      | (mc, Inr messages) \<Rightarrow>
          if messages \<noteq> [] then (mc, \<lparr>poll_messages = messages, poll_reason = Wakeup\<rparr>)
          else (case rounds of
                  [] \<Rightarrow> (mc, \<lparr>poll_messages = [], poll_reason = IntervalElapsed\<rparr>)
                | (others, later) # rounds \<Rightarrow> poll_rounds ch c count later rounds (others mc)))"

declare poll_rounds.simps [simp del]

definition consumer_poll ::
    "chrono \<Rightarrow> MemoryWakeupConsumer \<Rightarrow> nat \<Rightarrow> time \<Rightarrow> ((MemoryCoordinator \<Rightarrow> MemoryCoordinator) \<times> time) list \<Rightarrow>
     MemoryCoordinator \<Rightarrow> MemoryCoordinator \<times> WakeupPoll" where
  "consumer_poll ch c count now rounds mc = poll_rounds ch c (min 1024 (max 1 count)) now rounds mc"

text \<open>
  \<open>auto_claim\<close>: adding the idle time to a delivery time panics when it overflows, with the mutex
  held, so the mutex is poisoned; the result \<open>None\<close> is that panic.
\<close>

definition idle_overflow :: "chrono \<Rightarrow> rstr \<Rightarrow> int \<Rightarrow> (u64 \<times> PendingWakeup) list \<Rightarrow> bool" where
  "idle_overflow ch consumer min_idle pending \<longleftrightarrow>
     list_ex (\<lambda>(_, p). pending_consumer p \<noteq> consumer \<and>
       checked_add_signed ch (pending_delivered_at p) min_idle = None) pending"

definition idle_pending :: "chrono \<Rightarrow> rstr \<Rightarrow> int \<Rightarrow> time \<Rightarrow> u64 \<times> PendingWakeup \<Rightarrow> bool" where
  "idle_pending ch consumer min_idle now = (\<lambda>(_, p).
     pending_consumer p \<noteq> consumer \<and>
     (case checked_add_signed ch (pending_delivered_at p) min_idle of
        None \<Rightarrow> False | Some t \<Rightarrow> t \<le> now))"

text \<open>The iteration stops at the \<open>count\<close>-th eligible delivery; only the deliveries up to there
  are examined. The source iterates over a hash map, in an order it does not specify; here the order
  is that of the list.\<close>

fun take_idle ::
    "chrono \<Rightarrow> rstr \<Rightarrow> int \<Rightarrow> time \<Rightarrow> nat \<Rightarrow> (u64 \<times> PendingWakeup) list \<Rightarrow> u64 list option" where
  "take_idle ch consumer min_idle now 0 pending = Some []"
| "take_idle ch consumer min_idle now (Suc n) [] = Some []"
| "take_idle ch consumer min_idle now (Suc n) (p # ps) =
     (if idle_overflow ch consumer min_idle [p] then None
      else if idle_pending ch consumer min_idle now p
      then map_option ((#) (fst p)) (take_idle ch consumer min_idle now n ps)
      else take_idle ch consumer min_idle now (Suc n) ps)"

definition reclaim ::
    "rstr \<Rightarrow> time \<Rightarrow> u64 set \<Rightarrow> (u64 \<times> PendingWakeup) list \<Rightarrow> (u64 \<times> PendingWakeup) list" where
  "reclaim consumer now is pending =
     map (\<lambda>(i, p).
       (i, if i \<in> is then p\<lparr>pending_consumer := consumer, pending_delivered_at := now\<rparr> else p)) pending"

definition auto_claim ::
    "chrono \<Rightarrow> time \<Rightarrow> MemoryCoordinator \<Rightarrow> MemoryWakeupConsumer \<Rightarrow> duration \<Rightarrow> nat \<Rightarrow>
     MemoryCoordinator \<times> (CoordinationError, WakeupMessage list) result option" where
  "auto_claim ch now mc c min_idle count =
     (if min_idle = 0 \<or> count = 0 \<or> count > 1024
      then (mc, Some (Inl (InvalidInput ''invalid wakeup auto-claim request'')))
      else case delta_from_std ch min_idle of
        None \<Rightarrow> (mc, Some (Inl (InvalidInput ''auto-claim idle is too large'')))
      | Some idle \<Rightarrow>
     if mc_poisoned mc then (mc, Some (Inl Unavailable))
     else
       let st = cleanup_locked now (mc_state mc); key = consumer_key c in
       case retained_until ch now now (mc_stream_ttl mc) of
         Inl e \<Rightarrow> (mc\<lparr>mc_state := st\<rparr>, Some (Inl e))
       | Inr group_retained \<Rightarrow>
           let grp = (group_or_default st key)\<lparr>group_retained_until := Some group_retained\<rparr>;
               st = put_group key grp st
           in case take_idle ch (cons_consumer c) idle now count (group_pending grp) of
                None \<Rightarrow> (mc\<lparr>mc_state := st, mc_poisoned := True\<rparr>, None)
              | Some eligible \<Rightarrow>
                  let entries =
                        filter (\<lambda>e. entry_id e \<in> set eligible) (stream_of st (cons_worker_id c));
                      grp = grp\<lparr>group_pending :=
                        reclaim (cons_consumer c) now (set (map entry_id entries)) (group_pending grp)\<rparr>
                  in (mc\<lparr>mc_state := put_group key grp st\<rparr>,
                      Some (Inr (map memory_message entries))))"

text \<open>The removals of \<open>acknowledge\<close>, counted.\<close>

fun remove_pending ::
    "u64 list \<Rightarrow> (u64 \<times> PendingWakeup) list \<Rightarrow> (u64 \<times> PendingWakeup) list \<times> nat" where
  "remove_pending [] pending = (pending, 0)"
| "remove_pending (i # is) pending =
     (let (pending', n) = remove_pending is (AList.delete i pending)
      in (pending', n + (if map_of pending i \<noteq> None then 1 else 0)))"

definition consumer_acknowledge ::
    "chrono \<Rightarrow> time \<Rightarrow> MemoryCoordinator \<Rightarrow> MemoryWakeupConsumer \<Rightarrow> rstr list \<Rightarrow>
     MemoryCoordinator \<times> (CoordinationError, nat) result" where
  "consumer_acknowledge ch now mc c entry_ids =
     (case parse_entry_ids entry_ids of
        Inl e \<Rightarrow> (mc, Inl e)
      | Inr ids \<Rightarrow>
     if mc_poisoned mc then (mc, Inl Unavailable)
     else
       let st = cleanup_locked now (mc_state mc); key = consumer_key c;
           grp = group_or_default st key
       in case retained_until ch now now (mc_stream_ttl mc) of
            Inl e \<Rightarrow> (mc\<lparr>mc_state := put_group key grp st\<rparr>, Inl e)
          | Inr retained \<Rightarrow>
              let (pending, n) = remove_pending ids (group_pending grp)
              in (mc\<lparr>mc_state := put_group key
                    (grp\<lparr>group_retained_until := Some retained, group_pending := pending\<rparr>) st\<rparr>,
                  Inr n))"

end
