(* ===== verification/Coord_Invariant.thy ===== *)
theory Coord_Invariant
  imports Coord_Wakeup
begin

text \<open>
  The invariant of the standalone coordinator and its preservation by every operation: each map
  holds one value per key, worker snapshots and hints are stored under their own key, the wakeup
  streams are bounded and their identifiers increase, and a consumer group only waits for entries
  that are still in the stream of its worker.
\<close>

section \<open>Invariant\<close>

definition stream_ok :: "nat \<Rightarrow> u64 \<Rightarrow> MemoryWakeupEntry list \<Rightarrow> bool" where
  "stream_ok max_len next_id es \<longleftrightarrow>
     length es \<le> max_len \<and> sorted_wrt (<) (map entry_id es) \<and>
     list_all (\<lambda>e. 0 < entry_id e \<and> entry_id e \<le> next_id) es"

definition group_ok :: "MemoryWakeupEntry list \<Rightarrow> u64 \<Rightarrow> MemoryConsumerGroup \<Rightarrow> bool" where
  "group_ok es next_id g \<longleftrightarrow>
     keys_distinct (group_pending g) \<and> group_last_delivered g \<le> next_id \<and>
     list_all (\<lambda>(i, _). i \<in> set (map entry_id es) \<and> i \<le> group_last_delivered g) (group_pending g)"

definition worker_entry_ok :: "WorkerId \<times> WorkerCoordinationSnapshot Versioned \<Rightarrow> bool" where
  "worker_entry_ok = (\<lambda>(w, v).
     lease_worker_id (wcs_lease (ver_value v)) = w \<and> snapshot_validate (ver_value v) = Inr ())"

definition hints_ok :: "MemoryState \<Rightarrow> bool" where
  "hints_ok st \<longleftrightarrow>
     keys_distinct (ms_workers st) \<and> keys_distinct (ms_routes st) \<and>
     keys_distinct (ms_attachment_routes st) \<and> keys_distinct (ms_replay st) \<and>
     keys_distinct (ms_wakeup_sequences st) \<and>
     list_all worker_entry_ok (ms_workers st) \<and>
     list_all (\<lambda>(k, v). pred_option (\<lambda>r. route_call_id r = k) (ver_value v)) (ms_routes st) \<and>
     list_all (\<lambda>(k, v). pred_option (\<lambda>r. att_token_digest r = k) (ver_value v))
       (ms_attachment_routes st) \<and>
     list_all (\<lambda>(k, v). marker_digest (ver_value v) = k) (ms_replay st)"

definition wakeups_ok :: "nat \<Rightarrow> MemoryState \<Rightarrow> bool" where
  "wakeups_ok max_len st \<longleftrightarrow>
     keys_distinct (ms_streams st) \<and> keys_distinct (ms_groups st) \<and>
     list_all (\<lambda>(_, s). stream_ok max_len (ms_next_stream_id st) (stream_entries s)) (ms_streams st) \<and>
     list_all (\<lambda>(k, g). group_ok (stream_of st (fst k)) (ms_next_stream_id st) g) (ms_groups st)"

definition coordinator_ok :: "MemoryCoordinator \<Rightarrow> bool" where
  "coordinator_ok mc \<longleftrightarrow>
     0 < mc_max_stream_len mc \<and> mc_max_stream_len mc \<le> 1000000 \<and>
     0 < mc_tombstone_ttl mc \<and> mc_tombstone_ttl mc \<le> MAX_RETENTION \<and>
     0 < mc_stream_ttl mc \<and> mc_stream_ttl mc \<le> MAX_RETENTION \<and>
     hints_ok (mc_state mc) \<and> wakeups_ok (mc_max_stream_len mc) (mc_state mc)"

section \<open>Clean-up\<close>

lemma drop_streams_sel [simp]:
  "ms_workers (drop_streams ws st) = ms_workers st"
  "ms_routes (drop_streams ws st) = ms_routes st"
  "ms_attachment_routes (drop_streams ws st) = ms_attachment_routes st"
  "ms_replay (drop_streams ws st) = ms_replay st"
  "ms_wakeup_sequences (drop_streams ws st) = ms_wakeup_sequences st"
  "ms_next_stream_id (drop_streams ws st) = ms_next_stream_id st"
  "ms_streams (drop_streams ws st) = filter (\<lambda>p. fst p \<notin> set ws) (ms_streams st)"
  "ms_groups (drop_streams ws st) = filter (\<lambda>p. fst (fst p) \<notin> set ws) (ms_groups st)"
  by (induction ws arbitrary: st)
    (auto simp: AList.delete_eq conj_commute intro!: filter_cong)

lemma cleanup_sel [simp]:
  "ms_workers (cleanup_locked now st) = retain_live now (ms_workers st)"
  "ms_routes (cleanup_locked now st) = retain_live now (ms_routes st)"
  "ms_attachment_routes (cleanup_locked now st) = retain_live now (ms_attachment_routes st)"
  "ms_replay (cleanup_locked now st) = retain_live now (ms_replay st)"
  "ms_wakeup_sequences (cleanup_locked now st) = retain_live now (ms_wakeup_sequences st)"
  "ms_next_stream_id (cleanup_locked now st) = ms_next_stream_id st"
  by (simp_all add: cleanup_locked_def)

lemma cleanup_streams:
  assumes "keys_distinct (ms_streams st)"
  shows "ms_streams (cleanup_locked now st) =
    filter (\<lambda>(_, s). now < stream_retained_until s) (ms_streams st)"
proof -
  have "fst p \<in> fst ` set (filter (\<lambda>(_, s). stream_retained_until s \<le> now) (ms_streams st)) \<longleftrightarrow>
      stream_retained_until (snd p) \<le> now" if "p \<in> set (ms_streams st)" for p
    using key_in_retain [OF assms that] by (simp add: split_beta)
  then show ?thesis
    by (simp add: cleanup_locked_def not_le [symmetric] split_beta cong: filter_cong)
qed

lemma cleanup_groups:
  "set (ms_groups (cleanup_locked now st)) \<subseteq>
     {(k, g) \<in> set (ms_groups st).
        \<forall>s. (fst k, s) \<in> set (ms_streams st) \<longrightarrow> now < stream_retained_until s}"
  by (force simp: cleanup_locked_def image_iff not_le)

lemma cleanup_groups_distinct:
  "keys_distinct (ms_groups st) \<Longrightarrow> keys_distinct (ms_groups (cleanup_locked now st))"
  by (simp add: cleanup_locked_def)

lemma retain_live_distinct [simp]: "keys_distinct m \<Longrightarrow> keys_distinct (retain_live now m)"
  by (simp add: retain_live_def)

lemma retain_live_subset: "set (retain_live now m) \<subseteq> set m"
  by (auto simp: retain_live_def)

lemma retain_live_all [simp]: "list_all P m \<Longrightarrow> list_all P (retain_live now m)"
  by (auto simp: list_all_iff retain_live_def)

lemma retain_live_Some:
  "keys_distinct m \<Longrightarrow>
   map_of (retain_live now m) k = Some v \<longleftrightarrow> map_of m k = Some v \<and> now < ver_retained_until v"
  by (simp add: retain_live_def map_of_retain_Some)

lemma cleanup_stream_of:
  assumes "keys_distinct (ms_streams st)" "(k, g) \<in> set (ms_groups (cleanup_locked now st))"
  shows "stream_of (cleanup_locked now st) (fst k) = stream_of st (fst k)"
proof -
  have live: "now < stream_retained_until s" if "map_of (ms_streams st) (fst k) = Some s" for s
    using cleanup_groups [of now st] assms(2) that in_map_of [OF assms(1), of "fst k" s] by auto
  show ?thesis
    by (cases "map_of (ms_streams st) (fst k)")
      (auto simp: stream_of_def cleanup_streams [OF assms(1)] map_of_retain [OF assms(1)] live)
qed

lemma hints_cleanup [simp]: "hints_ok st \<Longrightarrow> hints_ok (cleanup_locked now st)"
  by (simp add: hints_ok_def)

lemma wakeups_cleanup [simp]:
  assumes "wakeups_ok n st"
  shows "wakeups_ok n (cleanup_locked now st)"
proof -
  from assms have d: "keys_distinct (ms_streams st)" "keys_distinct (ms_groups st)"
    by (auto simp: wakeups_ok_def)
  have "group_ok (stream_of (cleanup_locked now st) (fst k)) (ms_next_stream_id st) g"
    if "(k, g) \<in> set (ms_groups (cleanup_locked now st))" for k g
    using cleanup_stream_of [OF d(1) that] cleanup_groups [of now st] that assms
    by (auto simp: wakeups_ok_def list_all_iff)
  moreover have "list_all (\<lambda>(_, s). stream_ok n (ms_next_stream_id st) (stream_entries s))
      (ms_streams (cleanup_locked now st))"
    using assms by (auto simp: cleanup_streams [OF d(1)] wakeups_ok_def list_all_iff)
  ultimately show ?thesis
    using d by (simp add: wakeups_ok_def cleanup_streams cleanup_groups_distinct list_all_iff
      split_beta)
qed

section \<open>Versioned updates\<close>

lemma apply_versioned_distinct [simp]:
  "keys_distinct m \<Longrightarrow> keys_distinct (fst (apply_versioned m k s v t))"
  by (simp add: apply_versioned_def Let_def split: option.split)

lemma apply_versioned_all:
  "list_all P m \<Longrightarrow>
   P (k, \<lparr>ver_sequence = s, ver_value = v, ver_retained_until = t\<rparr>) \<Longrightarrow>
   list_all P (fst (apply_versioned m k s v t))"
  by (simp add: apply_versioned_def Let_def list_all_update split: option.split)

lemma wakeups_hints_update [simp]:
  "wakeups_ok n (st\<lparr>ms_workers := ws\<rparr>) = wakeups_ok n st"
  "wakeups_ok n (st\<lparr>ms_routes := rs\<rparr>) = wakeups_ok n st"
  "wakeups_ok n (st\<lparr>ms_attachment_routes := as\<rparr>) = wakeups_ok n st"
  "wakeups_ok n (st\<lparr>ms_replay := ps\<rparr>) = wakeups_ok n st"
  "wakeups_ok n (st\<lparr>ms_wakeup_sequences := qs\<rparr>) = wakeups_ok n st"
  by (simp_all add: wakeups_ok_def stream_of_def)

lemma hints_wakeups_update [simp]:
  "hints_ok (st\<lparr>ms_streams := ss\<rparr>) = hints_ok st"
  "hints_ok (st\<lparr>ms_groups := gs\<rparr>) = hints_ok st"
  "hints_ok (st\<lparr>ms_next_stream_id := i\<rparr>) = hints_ok st"
  by (simp_all add: hints_ok_def)

lemma hints_apply_worker:
  "hints_ok st \<Longrightarrow> hints_ok (fst (apply_worker ch mc now st s r w))"
  by (auto simp: apply_worker_def Let_def hints_ok_def worker_entry_ok_def list_all_update
      split: sum.split option.split)

lemma wakeups_apply_worker:
  "wakeups_ok n st \<Longrightarrow> wakeups_ok n (fst (apply_worker ch mc now st s r w))"
  by (simp add: apply_worker_def Let_def split: sum.split option.split)

lemmas hint_updates =
  apply_route_def remove_route_def apply_attachment_route_def remove_attachment_route_def
  apply_replay_def

lemma hints_apply_others:
  assumes "hints_ok st"
  shows "hints_ok (fst (apply_route ch mc now st s route))"
    "hints_ok (fst (remove_route ch mc now st s r cid))"
    "hints_ok (fst (apply_attachment_route ch mc now st s att))"
    "hints_ok (fst (remove_attachment_route ch mc now st s r digest))"
    "hints_ok (fst (apply_replay ch mc now st s marker))"
  using assms
  by (auto simp: hint_updates hints_ok_def apply_versioned_all split_beta split: sum.split)

lemma wakeups_apply_others:
  assumes "wakeups_ok n st"
  shows "wakeups_ok n (fst (apply_route ch mc now st s route))"
    "wakeups_ok n (fst (remove_route ch mc now st s r cid))"
    "wakeups_ok n (fst (apply_attachment_route ch mc now st s att))"
    "wakeups_ok n (fst (remove_attachment_route ch mc now st s r digest))"
    "wakeups_ok n (fst (apply_replay ch mc now st s marker))"
  using assms by (auto simp: hint_updates split_beta split: sum.split)

section \<open>Streams\<close>

definition forget_all ::
    "WorkerId \<Rightarrow> u64 list \<Rightarrow> ((WorkerId \<times> rstr) \<times> MemoryConsumerGroup) list \<Rightarrow>
     ((WorkerId \<times> rstr) \<times> MemoryConsumerGroup) list" where
  "forget_all w is = map (\<lambda>(key, g).
     (key, if fst key = w then g\<lparr>group_pending := filter (\<lambda>p. fst p \<notin> set is) (group_pending g)\<rparr>
           else g))"

lemma forget_all_Nil [simp]: "forget_all w [] gs = gs"
  by (simp add: forget_all_def map_idI split_beta)

lemma forget_all_Cons: "forget_all w is (forget_pending w i gs) = forget_all w (i # is) gs"
  by (auto simp: forget_all_def forget_pending_def AList.delete_eq split_beta
      intro!: arg_cong [where f = "\<lambda>x. group_pending_update x g" for g] filter_cong)

lemma trim_stream_eq:
  "trim_stream n w es gs =
     (drop (length es - n) es, forget_all w (map entry_id (take (length es - n) es)) gs)"
proof (induction n w es gs rule: trim_stream.induct)
  case (2 n w e es gs)
  then show ?case by (cases "n < length (e # es)") (simp_all add: Suc_diff_le forget_all_Cons)
qed simp

lemma forget_all_keys [simp]: "map fst (forget_all w is gs) = map fst gs"
  by (simp add: forget_all_def split_beta)

lemma forget_all_in:
  "(k, g') \<in> set (forget_all w is gs) \<Longrightarrow> \<exists>g. (k, g) \<in> set gs \<and>
     g' = (if fst k = w then g\<lparr>group_pending := filter (\<lambda>p. fst p \<notin> set is) (group_pending g)\<rparr> else g)"
  by (auto simp: forget_all_def)

lemma word_succ_less:
  fixes x :: u64
  assumes "x \<noteq> - 1"
  shows "x < x + 1"
proof -
  have "1 + x \<noteq> 0" using assms by (metis add.commute eq_neg_iff_add_eq_0)
  then show ?thesis using unatSuc [of x] by (simp add: word_less_nat_alt add.commute)
qed

lemma stream_ok_publish:
  assumes "stream_ok n next_id es" "next_id \<noteq> - 1" "entry_id e = next_id + 1"
  shows "stream_ok n (next_id + 1) (drop (length (es @ [e]) - n) (es @ [e]))"
proof -
  have lt: "next_id < next_id + 1" using assms(2) by (rule word_succ_less)
  have "sorted_wrt (<) (map entry_id (es @ [e]))"
    using assms lt by (fastforce simp: stream_ok_def sorted_wrt_append list_all_iff)
  then have "sorted_wrt (<) (map entry_id (drop d (es @ [e])))" for d
    by (metis append_take_drop_id map_append sorted_wrt_append)
  moreover have "0 < entry_id x \<and> entry_id x \<le> next_id + 1" if "x \<in> set (es @ [e])" for x
    using that assms(1,3) lt order_le_less_trans [OF word_zero_le lt]
    by (auto simp: stream_ok_def list_all_iff)
  ultimately show ?thesis
    by (auto simp: stream_ok_def list_all_iff simp del: drop_append set_append dest!: in_set_dropD)
qed

lemma group_ok_mono:
  "group_ok es i g \<Longrightarrow> i \<le> j \<Longrightarrow> group_ok es j g"
  by (auto simp: group_ok_def)

lemma group_ok_trim:
  assumes "group_ok es i g" "i \<le> j"
  shows "group_ok (drop d (es @ [e])) j
    (g\<lparr>group_pending := filter (\<lambda>p. fst p \<notin> set (map entry_id (take d (es @ [e])))) (group_pending g)\<rparr>)"
proof -
  have "x \<in> set (map entry_id (drop d (es @ [e])))"
    if "x \<in> set (map entry_id es)" "x \<notin> set (map entry_id (take d (es @ [e])))" for x
  proof -
    have "set (es @ [e]) = set (take d (es @ [e])) \<union> set (drop d (es @ [e]))"
      by (metis append_take_drop_id set_append)
    then show ?thesis using that by (auto simp del: take_append drop_append)
  qed
  then show ?thesis
    using assms by (auto simp: group_ok_def list_all_iff split_beta simp del: take_append drop_append)
qed

lemma stream_of_ok: "wakeups_ok n st \<Longrightarrow> stream_ok n (ms_next_stream_id st) (stream_of st w)"
  by (auto simp: wakeups_ok_def stream_of_def stream_ok_def list_all_iff
      dest!: map_of_SomeD split: option.split)

lemma group_or_default_ok:
  "wakeups_ok n st \<Longrightarrow> group_ok (stream_of st (fst k)) (ms_next_stream_id st) (group_or_default st k)"
  by (auto simp: wakeups_ok_def group_or_default_def list_all_iff
      dest!: map_of_SomeD split: option.split) (simp add: group_ok_def group_default_def)

lemma wakeups_okI:
  assumes "keys_distinct (ms_streams st)" "keys_distinct (ms_groups st)"
    "list_all (\<lambda>(_, s). stream_ok n (ms_next_stream_id st) (stream_entries s)) (ms_streams st)"
    "\<And>k g. (k, g) \<in> set (ms_groups st) \<Longrightarrow>
      group_ok (stream_of st (fst k)) (ms_next_stream_id st) g"
  shows "wakeups_ok n st"
  using assms by (simp add: wakeups_ok_def list_all_iff split_beta)

lemma stream_of_update:
  "ms_streams st' = AList.update w s (ms_streams st) \<Longrightarrow>
   stream_of st' w' = (if w' = w then stream_entries s else stream_of st w')"
  by (simp add: stream_of_def)

lemma hints_publish: "hints_ok st \<Longrightarrow> hints_ok (fst (publish_locked ch mc now st w s r))"
  by (simp add: publish_locked_def Let_def split_beta split: sum.split)

lemma publish_cases:
  obtains (error) e where "publish_locked ch mc now st w s r = (st, Inl e)"
  | (ok) t es where
      "retained_until ch now now (mc_stream_ttl mc) = Inr t" "ms_next_stream_id st \<noteq> - 1"
      "es = stream_of st w @ [\<lparr>entry_id = ms_next_stream_id st + 1, entry_sequence = s, entry_reason = r\<rparr>]"
      "publish_locked ch mc now st w s r =
         (st\<lparr>ms_next_stream_id := ms_next_stream_id st + 1,
             ms_streams := AList.update w
               \<lparr>stream_entries = drop (length es - mc_max_stream_len mc) es, stream_retained_until = t\<rparr>
               (ms_streams st),
             ms_groups := forget_all w
               (map entry_id (take (length es - mc_max_stream_len mc) es)) (ms_groups st)\<rparr>, Inr ())"
  by (cases "retained_until ch now now (mc_stream_ttl mc)"; cases "ms_next_stream_id st = - 1")
    (auto simp: publish_locked_def trim_stream_eq stream_of_def Let_def
      simp del: drop_append take_append)

lemma wakeups_publish:
  assumes ok: "wakeups_ok (mc_max_stream_len mc) st"
  shows "wakeups_ok (mc_max_stream_len mc) (fst (publish_locked ch mc now st w s r))"
proof (cases rule: publish_cases [of ch mc now st w s r])
  case (ok t es)
  let ?n = "mc_max_stream_len mc" and ?i = "ms_next_stream_id st"
  have le: "?i \<le> ?i + 1" using word_succ_less [OF ok(2)] by simp
  have "stream_ok ?n (?i + 1) (drop (length es - ?n) es)"
    unfolding ok(3) by (rule stream_ok_publish [OF stream_of_ok [OF assms] ok(2)]) simp
  moreover have "list_all (\<lambda>(_, s). stream_ok ?n (?i + 1) (stream_entries s)) (ms_streams st)"
    using assms le by (fastforce simp: wakeups_ok_def stream_ok_def list_all_iff)
  moreover have groups: "group_ok (if fst k = w then drop (length es - ?n) es else stream_of st (fst k)) (?i + 1) g"
    if "(k, g) \<in> set (forget_all w (map entry_id (take (length es - ?n) es)) (ms_groups st))" for k g
  proof -
    from forget_all_in [OF that] obtain g0 where g0: "(k, g0) \<in> set (ms_groups st)"
      "g = (if fst k = w then g0\<lparr>group_pending := filter
         (\<lambda>p. fst p \<notin> set (map entry_id (take (length es - ?n) es))) (group_pending g0)\<rparr> else g0)"
      by blast
    then have g: "group_ok (stream_of st (fst k)) ?i g0"
      using assms by (auto simp: wakeups_ok_def list_all_iff)
    show ?thesis
      using group_ok_mono [OF g le] group_ok_trim [OF g le] g0(2) unfolding ok(3)
      by (cases "fst k = w") (simp_all del: take_append drop_append)
  qed
  ultimately show ?thesis
    using assms unfolding ok(4) fst_conv
    by (intro wakeups_okI, simp_all add: wakeups_ok_def list_all_update stream_of_update)
      (use groups in \<open>fastforce split: if_splits\<close>)
qed (use assms in simp)

lemma apply_wakeup_cases:
  obtains (error) e where "apply_wakeup ch mc t1 t2 st s w r = (st, Inl e)"
  | (kept) k m res where "retained_until ch t1 t1 (mc_stream_ttl mc) = Inr k"
      "apply_versioned (ms_wakeup_sequences st) w s r k = (m, res)" "res \<noteq> Inr Applied"
      "apply_wakeup ch mc t1 t2 st s w r = (st\<lparr>ms_wakeup_sequences := m\<rparr>, res)"
  | (publish) k m st' res where "retained_until ch t1 t1 (mc_stream_ttl mc) = Inr k"
      "apply_versioned (ms_wakeup_sequences st) w s r k = (m, Inr Applied)"
      "publish_locked ch mc t2 (st\<lparr>ms_wakeup_sequences := m\<rparr>) w s r = (st', res)"
      "apply_wakeup ch mc t1 t2 st s w r = (st', map_sum id (\<lambda>_. Applied) res)"
proof (cases "retained_until ch t1 t1 (mc_stream_ttl mc)")
  case (Inl e)
  then show ?thesis using error by (simp add: apply_wakeup_def)
next
  case (Inr k)
  obtain m res where m: "apply_versioned (ms_wakeup_sequences st) w s r k = (m, res)" by fastforce
  obtain st' res' where p: "publish_locked ch mc t2 (st\<lparr>ms_wakeup_sequences := m\<rparr>) w s r = (st', res')"
    by fastforce
  show ?thesis
  proof (cases "res = Inr Applied")
    case True
    then show ?thesis
      using publish [OF Inr _ p] Inr m p by (cases res') (simp_all add: apply_wakeup_def)
  next
    case False
    then show ?thesis
      using kept [OF Inr m] Inr m
      by (cases res; cases "projr res") (simp_all add: apply_wakeup_def)
  qed
qed

lemma ok_apply_wakeup:
  assumes "hints_ok st" "wakeups_ok (mc_max_stream_len mc) st"
  shows "hints_ok (fst (apply_wakeup ch mc t1 t2 st s w r)) \<and>
    wakeups_ok (mc_max_stream_len mc) (fst (apply_wakeup ch mc t1 t2 st s w r))"
proof -
  have ok: "hints_ok (st\<lparr>ms_wakeup_sequences := m\<rparr>)"
    if "apply_versioned (ms_wakeup_sequences st) w s r k = (m, res)" for k m res
    using assms(1) apply_versioned_distinct [of "ms_wakeup_sequences st" w s r k] that
    by (simp add: hints_ok_def)
  show ?thesis
  proof (cases rule: apply_wakeup_cases [of ch mc t1 t2 st s w r])
    case (publish k m st' res)
    then show ?thesis
      using hints_publish [OF ok [OF publish(2)], of ch mc t2 w s r]
        wakeups_publish [of mc "st\<lparr>ms_wakeup_sequences := m\<rparr>" ch t2 w s r] assms(2)
      by simp
  qed (use assms ok in auto)
qed

section \<open>Consumer groups\<close>

lemma hints_put_group [simp]: "hints_ok (put_group k g st) = hints_ok st"
  by (simp add: put_group_def)

lemma stream_of_put_group [simp]: "stream_of (put_group k g st) w = stream_of st w"
  by (simp add: put_group_def stream_of_def)

lemma next_id_put_group [simp]: "ms_next_stream_id (put_group k g st) = ms_next_stream_id st"
  by (simp add: put_group_def)

lemma wakeups_put_group:
  assumes "wakeups_ok n st" "group_ok (stream_of st (fst k)) (ms_next_stream_id st) g"
  shows "wakeups_ok n (put_group k g st)"
proof -
  have "stream_of (put_group k g st) = stream_of st" by (rule ext) simp
  then show ?thesis
    using assms by (simp add: wakeups_ok_def list_all_update) (simp add: put_group_def list_all_update)
qed

lemma group_ok_retained [simp]:
  "group_ok es i (g\<lparr>group_retained_until := t\<rparr>) = group_ok es i g"
  "group_ok es i (g\<lparr>group_retained_until := t, group_pending := p\<rparr>) =
   group_ok es i (g\<lparr>group_pending := p\<rparr>)"
  by (simp_all add: group_ok_def)

lemma group_ok_deliver:
  assumes "group_ok es i g" "set ds \<subseteq> set es" "list_all (\<lambda>e. entry_id e \<le> i) ds"
  shows "group_ok es i (deliver c now ds g)"
  using assms
proof (induction c now ds g rule: deliver.induct)
  case (2 c now d ds g)
  have "group_ok es i (g\<lparr>group_last_delivered := max (group_last_delivered g) (entry_id d),
      group_pending := AList.update (entry_id d)
        \<lparr>pending_consumer = c, pending_delivered_at = now\<rparr> (group_pending g)\<rparr>)"
    using "2.prems" unfolding group_ok_def
    by (auto simp: le_max_iff_disj intro!: list_all_update elim: list.pred_mono_strong)
  then show ?case using "2.IH" "2.prems" by simp
qed simp

lemma group_ok_reclaim:
  "group_ok es i g \<Longrightarrow> group_ok es i (g\<lparr>group_pending := reclaim c now is (group_pending g)\<rparr>)"
  by (auto simp: group_ok_def reclaim_def list_all_iff comp_def split_beta)

lemma remove_pending_eq:
  "fst (remove_pending is p) = filter (\<lambda>(i, _). i \<notin> set is) p"
proof (induction "is" p rule: remove_pending.induct)
  case (2 i "is" p)
  then show ?case
    by (auto simp: split_beta Let_def AList.delete_eq intro!: filter_cong)
qed simp

lemma group_ok_remove:
  "group_ok es i g \<Longrightarrow> group_ok es i (g\<lparr>group_pending := fst (remove_pending is (group_pending g))\<rparr>)"
  by (auto simp: group_ok_def remove_pending_eq list_all_iff)

section \<open>Operations\<close>

text \<open>One operation of the coordinator or of one of its consumers, and the coordinators that can
  be reached by operations from a new one. Polling is a sequence of \<open>take_ready\<close> steps.\<close>

inductive coordinator_step :: "chrono \<Rightarrow> MemoryCoordinator \<Rightarrow> MemoryCoordinator \<Rightarrow> bool"
  for ch mc where
  step_apply: "coordinator_step ch mc (fst (coordinator_apply ch t0 t1 t2 mc event))"
| step_worker_hints: "coordinator_step ch mc (fst (worker_hints now mc request))"
| step_route_hint: "coordinator_step ch mc (fst (route_hint now mc cid))"
| step_attachment_route_hint: "coordinator_step ch mc (fst (attachment_route_hint now mc lookup))"
| step_replay_seen: "coordinator_step ch mc (fst (replay_seen now mc digest))"
| step_publish_wakeup: "coordinator_step ch mc (fst (publish_wakeup ch t0 t1 t2 mc w s r))"
| step_wakeup_consumer: "coordinator_step ch mc (fst (wakeup_consumer ch now mc w grp name interval))"
| step_take_ready: "coordinator_step ch mc (fst (take_ready ch now mc c count))"
| step_auto_claim: "coordinator_step ch mc (fst (auto_claim ch now mc c min_idle count))"
| step_acknowledge: "coordinator_step ch mc (fst (consumer_acknowledge ch now mc c entry_ids))"

inductive coordinator_reachable :: "chrono \<Rightarrow> MemoryCoordinator \<Rightarrow> bool" for ch where
  created: "MemoryCoordinator_new deployment n = Inr mc \<Longrightarrow> coordinator_reachable ch mc"
| retained: "coordinator_reachable ch mc \<Longrightarrow> with_retention mc a b = Inr mc' \<Longrightarrow>
    coordinator_reachable ch mc'"
| stepped: "coordinator_reachable ch mc \<Longrightarrow> coordinator_step ch mc mc' \<Longrightarrow>
    coordinator_reachable ch mc'"

definition state_ok :: "nat \<Rightarrow> MemoryState \<Rightarrow> bool" where
  "state_ok n st \<longleftrightarrow> hints_ok st \<and> wakeups_ok n st"

lemma state_ok_cleanup [simp]: "state_ok n st \<Longrightarrow> state_ok n (cleanup_locked now st)"
  by (simp add: state_ok_def)

lemma state_ok_put_group:
  "state_ok n st \<Longrightarrow> group_ok (stream_of st (fst k)) (ms_next_stream_id st) g \<Longrightarrow>
   state_ok n (put_group k g st)"
  by (simp add: state_ok_def wakeups_put_group)

lemma coordinator_ok_state:
  "coordinator_ok mc \<Longrightarrow> state_ok (mc_max_stream_len mc) (mc_state mc)"
  by (simp add: coordinator_ok_def state_ok_def)

lemma coordinator_ok_update:
  "coordinator_ok mc \<Longrightarrow> state_ok (mc_max_stream_len mc) st \<Longrightarrow> coordinator_ok (mc\<lparr>mc_state := st\<rparr>)"
  by (simp add: coordinator_ok_def state_ok_def)

lemma coordinator_ok_poisoned [simp]: "coordinator_ok (mc\<lparr>mc_poisoned := b\<rparr>) = coordinator_ok mc"
  by (simp add: coordinator_ok_def)

lemma state_ok_payload:
  "state_ok (mc_max_stream_len mc) st \<Longrightarrow>
   state_ok (mc_max_stream_len mc) (fst (apply_payload ch mc t1 t2 event st))"
  by (cases "event_payload event")
    (simp_all add: apply_payload_def state_ok_def hints_apply_worker wakeups_apply_worker
      hints_apply_others wakeups_apply_others ok_apply_wakeup)

lemma ok_coordinator_apply:
  "coordinator_ok mc \<Longrightarrow> coordinator_ok (fst (coordinator_apply ch t0 t1 t2 mc event))"
  by (simp add: coordinator_apply_def split_beta coordinator_ok_update state_ok_payload
      coordinator_ok_state split: sum.split)

lemma ok_queries:
  assumes "coordinator_ok mc"
  shows "coordinator_ok (fst (worker_hints now mc request))"
    "coordinator_ok (fst (route_hint now mc cid))"
    "coordinator_ok (fst (attachment_route_hint now mc lookup))"
    "coordinator_ok (fst (replay_seen now mc digest))"
  using assms coordinator_ok_update [OF assms state_ok_cleanup [OF coordinator_ok_state [OF assms]]]
  by (simp_all add: worker_hints_def route_hint_def attachment_route_hint_def replay_seen_def
      Let_def split: sum.split option.split)

lemma ok_publish_wakeup:
  assumes "coordinator_ok mc"
  shows "coordinator_ok (fst (publish_wakeup ch t0 t1 t2 mc w s r))"
proof -
  have "state_ok (mc_max_stream_len mc) (cleanup_locked t0 (mc_state mc))"
    by (simp add: coordinator_ok_state assms)
  then have "state_ok (mc_max_stream_len mc)
      (fst (apply_wakeup ch mc t1 t2 (cleanup_locked t0 (mc_state mc)) s w r))"
    using ok_apply_wakeup unfolding state_ok_def by blast
  then show ?thesis
    using assms by (simp add: publish_wakeup_def split_beta coordinator_ok_update)
qed

lemma group_of_ok:
  "state_ok n st \<Longrightarrow> group_ok (stream_of st (fst k)) (ms_next_stream_id st) (group_or_default st k)"
  by (auto simp: state_ok_def intro: group_or_default_ok)

lemma ok_wakeup_consumer:
  assumes "coordinator_ok mc"
  shows "coordinator_ok (fst (wakeup_consumer ch now mc w grp name interval))"
proof -
  have ok: "state_ok (mc_max_stream_len mc) (cleanup_locked now (mc_state mc))"
    by (simp add: coordinator_ok_state assms)
  from group_of_ok [OF ok, of "(w, grp)"] show ?thesis
    using assms ok
    by (auto simp: wakeup_consumer_def Let_def intro!: coordinator_ok_update state_ok_put_group
        split: sum.split)
qed

lemma stream_ids_bounded:
  "state_ok n st \<Longrightarrow> e \<in> set (stream_of st w) \<Longrightarrow> entry_id e \<le> ms_next_stream_id st"
  using stream_of_ok [of n st w] by (auto simp: state_ok_def stream_ok_def list_all_iff)

lemma ok_take_ready:
  assumes "coordinator_ok mc"
  shows "coordinator_ok (fst (take_ready ch now mc c count))"
proof -
  let ?st = "cleanup_locked now (mc_state mc)"
  have ok: "state_ok (mc_max_stream_len mc) ?st"
    by (simp add: coordinator_ok_state assms)
  have "group_ok (stream_of ?st (fst (consumer_key c))) (ms_next_stream_id ?st)
      (deliver (cons_consumer c) now (take count (filter P (stream_of ?st (cons_worker_id c))))
        ((group_or_default ?st (consumer_key c))\<lparr>group_retained_until := r\<rparr>))" for P r
    using group_of_ok [OF ok, of "consumer_key c"] stream_ids_bounded [OF ok, of _ "cons_worker_id c"]
    by (intro group_ok_deliver) (auto simp: consumer_key_def list_all_iff dest: in_set_takeD)
  then show ?thesis
    using assms ok
    by (auto simp: take_ready_def Let_def intro!: coordinator_ok_update state_ok_put_group
        split: sum.split)
qed

lemma put_group_twice: "put_group k g (put_group k g' st) = put_group k g st"
  by (simp add: put_group_def)

lemma ok_auto_claim:
  assumes "coordinator_ok mc"
  shows "coordinator_ok (fst (auto_claim ch now mc c min_idle count))"
proof -
  let ?st = "cleanup_locked now (mc_state mc)"
  have ok: "state_ok (mc_max_stream_len mc) ?st"
    by (simp add: coordinator_ok_state assms)
  have "group_ok (stream_of ?st (fst (consumer_key c))) (ms_next_stream_id ?st)
      ((group_or_default ?st (consumer_key c))\<lparr>group_retained_until := r\<rparr>)" for r
    using group_of_ok [OF ok, of "consumer_key c"] by simp
  from this group_ok_reclaim [OF this] show ?thesis
    using assms ok
    by (auto simp: auto_claim_def Let_def put_group_twice
        intro!: coordinator_ok_update state_ok_put_group split: sum.split option.split)
qed

lemma ok_acknowledge:
  assumes "coordinator_ok mc"
  shows "coordinator_ok (fst (consumer_acknowledge ch now mc c entry_ids))"
proof -
  let ?st = "cleanup_locked now (mc_state mc)"
  have ok: "state_ok (mc_max_stream_len mc) ?st"
    by (simp add: coordinator_ok_state assms)
  note g = group_of_ok [OF ok, of "consumer_key c"]
  from g group_ok_remove [OF g] show ?thesis
    using assms ok
    by (auto simp: consumer_acknowledge_def Let_def split_beta
        intro!: coordinator_ok_update state_ok_put_group split: sum.split)
qed

lemma coordinator_ok_step:
  "coordinator_step ch mc mc' \<Longrightarrow> coordinator_ok mc \<Longrightarrow> coordinator_ok mc'"
  by (induction rule: coordinator_step.induct)
    (simp_all add: ok_coordinator_apply ok_queries ok_publish_wakeup ok_wakeup_consumer
      ok_take_ready ok_auto_claim ok_acknowledge)

lemma coordinator_ok_new: "MemoryCoordinator_new deployment n = Inr mc \<Longrightarrow> coordinator_ok mc"
  by (auto simp: MemoryCoordinator_new_def coordinator_ok_def state_default_def hints_ok_def
      wakeups_ok_def DEFAULT_TOMBSTONE_TTL_def DEFAULT_STREAM_TTL_def MAX_RETENTION_def
      split: if_splits)

lemma coordinator_ok_retention:
  "coordinator_ok mc \<Longrightarrow> with_retention mc a b = Inr mc' \<Longrightarrow> coordinator_ok mc'"
  by (auto simp: with_retention_def coordinator_ok_def split: if_splits)

lemma reachable_ok: "coordinator_reachable ch mc \<Longrightarrow> coordinator_ok mc"
  by (induction rule: coordinator_reachable.induct)
    (auto intro: coordinator_ok_new coordinator_ok_retention coordinator_ok_step)

end
