(* ===== verification/Coord_Hints.thy ===== *)
theory Coord_Hints
  imports Coord_Invariant Complex_Main "HOL-Library.Product_Lexorder" "HOL-Library.Multiset"
begin

text \<open>
  What the coordinator promises to the readers of its hints: the worker selection against a
  reference order on fractions, and the fail-closed lookups of call routes and attachment routes.
\<close>

declare map_of_eq_Some_iff [simp del]

section \<open>Worker selection\<close>

text \<open>The reference order: load as a fraction, reservations, identifier, newest fence.\<close>

definition worker_key :: "WorkerCoordinationSnapshot \<Rightarrow> rat \<times> u64 \<times> uuid \<times> int" where
  "worker_key w =
     (of_nat (unat (wcs_reserved_calls w)) / of_nat (unat (wcs_max_calls w)),
      wcs_reserved_calls w, worker_uuid (lease_worker_id (wcs_lease w)),
      - uint (fence_value (lease_fence (wcs_lease w))))"

lemma frac_compare:
  fixes a b m n :: nat
  assumes "0 < m" "0 < n"
  shows "(of_nat a :: rat) / of_nat m < of_nat b / of_nat n \<longleftrightarrow> a * n < b * m"
    "(of_nat a :: rat) / of_nat m = of_nat b / of_nat n \<longleftrightarrow> a * n = b * m"
  using assms
  by (simp_all add: divide_less_eq less_divide_eq frac_eq_eq flip: of_nat_mult)

lemma unat_64: "unat (x :: u64) < 2 ^ 64"
  using unsigned_less [of x] by simp

lemma unat_worker_load:
  "unat (worker_load a b) = unat (wcs_reserved_calls a) * unat (wcs_max_calls b)"
proof -
  have "unat (wcs_reserved_calls a) * unat (wcs_max_calls b) < 2 ^ 64 * 2 ^ 64"
    by (intro mult_strict_mono) (use unat_64 in simp_all)
  then show ?thesis
    by (simp add: worker_load_def unat_word_ariths unsigned_ucast_eq take_bit_nat_eq_self
        unat_64 [THEN order_less_trans])
qed

lemma worker_uuid_eq: "worker_uuid a = worker_uuid b \<longleftrightarrow> a = b"
  by (auto intro: WorkerId.expand)

lemma worker_le_key:
  assumes "wcs_max_calls a \<noteq> 0" "wcs_max_calls b \<noteq> 0"
  shows "worker_le a b \<longleftrightarrow> worker_key a \<le> worker_key b"
proof -
  define frac where
    "frac w = (of_nat (unat (wcs_reserved_calls w)) :: rat) / of_nat (unat (wcs_max_calls w))"
    for w :: WorkerCoordinationSnapshot
  have pos: "0 < unat (wcs_max_calls a)" "0 < unat (wcs_max_calls b)"
    using assms by (simp_all add: unat_gt_0)
  have less: "worker_load a b < worker_load b a \<longleftrightarrow> frac a < frac b"
    unfolding frac_def frac_compare(1) [OF pos] by (simp only: word_less_nat_alt unat_worker_load)
  have eq: "worker_load a b = worker_load b a \<longleftrightarrow> frac a = frac b"
    unfolding frac_def frac_compare(2) [OF pos] by (simp only: word_unat_eq_iff unat_worker_load)
  show ?thesis
    unfolding worker_le_def worker_key_def Let_def less eq frac_def [symmetric]
    by (auto simp: less_eq_prod_def less_WorkerId_def less_eq_WorkerFence_def worker_uuid_eq
        word_le_def [of "fence_value _"] order_le_less [of "worker_uuid _"])
qed

lemma insert_by_key:
  assumes "\<And>y. y \<in> set ys \<Longrightarrow> le x y \<longleftrightarrow> f x \<le> f y"
  shows "insert_by le x ys = insort_key f x ys"
  using assms by (induction ys) auto

lemma sort_by_key:
  assumes "\<And>x y. x \<in> set xs \<Longrightarrow> y \<in> set xs \<Longrightarrow> le x y \<longleftrightarrow> f x \<le> f y"
  shows "sort_by le xs = sort_key f xs"
  using assms
proof (induction xs)
  case (Cons x xs)
  have "sort_by le (x # xs) = insert_by le x (sort_by le xs)" by (simp add: sort_by_def)
  also have "\<dots> = insert_by le x (sort_key f xs)" using Cons by simp
  also have "\<dots> = insort_key f x (sort_key f xs)" using Cons.prems by (intro insert_by_key) auto
  finally show ?case by simp
qed (simp add: sort_by_def)

text \<open>The workers that a selection may return.\<close>

definition selectable :: "time \<Rightarrow> WorkerSelectionRequest \<Rightarrow> MemoryState \<Rightarrow> WorkerCoordinationSnapshot list" where
  "selectable now request st =
     filter (eligible_worker now request) (map (ver_value \<circ> snd) (retain_live now (ms_workers st)))"

lemma worker_hints_selectable:
  "worker_hints now mc request =
     (case selection_validate request of
        Inl e \<Rightarrow> (mc, Inl e)
      | Inr _ \<Rightarrow>
          if mc_poisoned mc then (mc, Inl Unavailable)
          else (mc\<lparr>mc_state := cleanup_locked now (mc_state mc)\<rparr>,
            Inr (take (sel_limit request) (sort_by worker_le (selectable now request (mc_state mc))))))"
  by (simp add: worker_hints_def selectable_def Let_def split: sum.split)

lemma selectable_set:
  assumes "hints_ok st"
  shows "w \<in> set (selectable now request st) \<longleftrightarrow>
    (\<exists>v. map_of (ms_workers st) (lease_worker_id (wcs_lease w)) = Some v \<and> ver_value v = w \<and>
       now < ver_retained_until v) \<and> eligible_worker now request w"
proof -
  have "w \<in> set (selectable now request st) \<longleftrightarrow>
      (\<exists>k v. (k, v) \<in> set (ms_workers st) \<and> ver_value v = w \<and> now < ver_retained_until v) \<and>
      eligible_worker now request w"
    by (auto simp: selectable_def retain_live_def image_iff Bex_def split_beta)
  also have "\<dots> \<longleftrightarrow> (\<exists>v. (lease_worker_id (wcs_lease w), v) \<in> set (ms_workers st) \<and>
      ver_value v = w \<and> now < ver_retained_until v) \<and> eligible_worker now request w"
    using assms by (fastforce simp: hints_ok_def list_all_iff worker_entry_ok_def)
  finally show ?thesis
    using in_map_of [of "ms_workers st" "lease_worker_id (wcs_lease w)"] assms
    unfolding hints_ok_def by presburger
qed

lemma selectable_valid:
  assumes "hints_ok st" "w \<in> set (selectable now request st)"
  shows "wcs_max_calls w \<noteq> 0"
  using assms by (auto simp: selectable_def retain_live_def hints_ok_def list_all_iff
      worker_entry_ok_def snapshot_validate_def and_then_def guard_err_def split: sum.splits if_splits)

lemma selectable_distinct:
  assumes "hints_ok st"
  shows "distinct (map worker_key (selectable now request st))"
proof -
  have "distinct (map fst (ms_workers st))" using assms by (simp add: hints_ok_def)
  moreover have "fst p = lease_worker_id (wcs_lease (ver_value (snd p)))" if "p \<in> set (ms_workers st)" for p
    using assms that by (auto simp: hints_ok_def list_all_iff worker_entry_ok_def)
  ultimately have "distinct (map (worker_uuid \<circ> lease_worker_id \<circ> wcs_lease \<circ> ver_value \<circ> snd) (ms_workers st))"
    by (auto simp: distinct_map inj_on_def WorkerId.expand)
  then have "distinct (map (worker_uuid \<circ> lease_worker_id \<circ> wcs_lease) (selectable now request st))"
    by (simp add: selectable_def retain_live_def distinct_map filter_map inj_on_def)
  then show ?thesis by (auto simp: distinct_map inj_on_def worker_key_def)
qed

lemma sort_selectable:
  assumes "hints_ok st"
  shows "sort_by worker_le (selectable now request st) = sort_key worker_key (selectable now request st)"
  using selectable_valid [OF assms] worker_le_key by (intro sort_by_key) blast

section \<open>Sample data\<close>

definition sample_chrono :: chrono where
  "sample_chrono =
     \<lparr>checked_add_signed = (\<lambda>t d. if t + d < 2 ^ 80 then Some (t + d) else None),
      delta_from_std = (\<lambda>n. Some (int n))\<rparr>"

definition sample_deployment :: DeploymentId where
  "sample_deployment = DeploymentId (lit ''prod'')"

definition sample_coordinator :: MemoryCoordinator where
  "sample_coordinator =
     \<lparr>mc_deployment = sample_deployment, mc_max_stream_len = 2, mc_tombstone_ttl = 100,
      mc_stream_ttl = 100, mc_poisoned = False, mc_state = state_default\<rparr>"

definition sample_worker :: "uuid \<Rightarrow> u64 \<Rightarrow> usize \<Rightarrow> WorkerCoordinationSnapshot" where
  "sample_worker w fence reserved =
     \<lparr>wcs_lease = \<lparr>lease_worker_id = WorkerId w, lease_fence = WorkerFence fence\<rparr>,
      wcs_max_calls = 4, wcs_reserved_calls = reserved, wcs_draining = False,
      wcs_capabilities = [lit ''sip''], wcs_lease_expires_at = 60\<rparr>"

definition sample_route :: CallRouteHint where
  "sample_route =
     \<lparr>route_call_id = CallId 9,
      route_worker = \<lparr>lease_worker_id = WorkerId 2, lease_fence = WorkerFence 1\<rparr>,
      route_expires_at = 50\<rparr>"

definition sample_attachment :: AttachmentRouteHint where
  "sample_attachment =
     \<lparr>att_token_digest = AttachmentTokenDigest 5,
      att_worker = \<lparr>lease_worker_id = WorkerId 2, lease_fence = WorkerFence 1\<rparr>,
      att_route_catalog_fingerprint = None, att_transport = Sip,
      att_tenant_binding = PrincipalFingerprint 3, att_expires_at = 50\<rparr>"

definition sample_event :: "u64 \<Rightarrow> CoordinationPayload \<Rightarrow> CoordinationEvent" where
  "sample_event n payload =
     \<lparr>event_deployment = sample_deployment, event_sequence = ProjectionSequence n,
      event_payload = payload, event_recorded_at = 10\<rparr>"

text \<open>The sample coordinator after a list of payloads at time \<open>10\<close>, numbered from \<open>1\<close>.\<close>

definition sample_applied :: "CoordinationPayload list \<Rightarrow> MemoryCoordinator" where
  "sample_applied payloads =
     fst (fold (\<lambda>p (mc, n). (fst (coordinator_apply sample_chrono 10 10 10 mc (sample_event n p)), n + 1))
       payloads (sample_coordinator, 1))"

lemma sample_coordinator_ok: "coordinator_ok sample_coordinator"
  by (simp add: coordinator_ok_def sample_coordinator_def MAX_RETENTION_def state_default_def
      hints_ok_def wakeups_ok_def)

lemma sample_applied_ok [simp]: "coordinator_ok (sample_applied payloads)"
proof -
  have "coordinator_ok (fst acc) \<Longrightarrow> coordinator_ok (fst (fold (\<lambda>p (mc, n).
      (fst (coordinator_apply sample_chrono 10 10 10 mc (sample_event n p)), n + 1)) payloads acc))" for acc
    by (induction payloads arbitrary: acc) (simp_all add: split_beta ok_coordinator_apply)
  then show ?thesis by (simp add: sample_applied_def sample_coordinator_ok)
qed

section \<open>Properties\<close>

text \<open>
  C12: worker selection returns the least loaded workers. The answer is the first \<open>limit\<close>
  elements of a list that holds exactly the stored workers with an unexpired lease that do not
  drain, have free capacity and the required capabilities, each once, in the order of the
  reference key (load as an exact fraction, then reservations, identifier and newest fence); the
  cross multiplication in 128 bits never overflows.
\<close>

theorem worker_hints_exact:
  assumes "coordinator_ok mc" "\<not> mc_poisoned mc" "selection_validate request = Inr ()"
  shows "\<exists>ranked. snd (worker_hints now mc request) = Inr (take (sel_limit request) ranked) \<and>
    distinct ranked \<and> sorted_wrt (\<lambda>a b. worker_key a \<le> worker_key b) ranked \<and>
    (\<forall>w. w \<in> set ranked \<longleftrightarrow>
      (\<exists>v. map_of (ms_workers (mc_state mc)) (lease_worker_id (wcs_lease w)) = Some v \<and>
         ver_value v = w \<and> now < ver_retained_until v) \<and>
      now < wcs_lease_expires_at w \<and> \<not> wcs_draining w \<and>
      wcs_reserved_calls w < wcs_max_calls w \<and>
      set (sel_required_capabilities request) \<subseteq> set (wcs_capabilities w))"
proof -
  have ok: "hints_ok (mc_state mc)" using assms(1) by (simp add: coordinator_ok_def)
  let ?ws = "selectable now request (mc_state mc)"
  have "snd (worker_hints now mc request) = Inr (take (sel_limit request) (sort_key worker_key ?ws))"
    using assms(2,3) by (simp add: worker_hints_selectable sort_selectable [OF ok])
  moreover have "sorted_wrt (\<lambda>a b. worker_key a \<le> worker_key b) (sort_key worker_key ?ws)"
    using sorted_sort_key [of worker_key ?ws] by (simp add: sorted_wrt_map)
  moreover have "distinct (sort_key worker_key ?ws)"
    using selectable_distinct [OF ok, of now request] by (simp add: distinct_map)
  moreover have "w \<in> set (sort_key worker_key ?ws) \<longleftrightarrow> w \<in> set ?ws" for w
    by simp
  ultimately show ?thesis
    unfolding selectable_set [OF ok] eligible_worker_def list_all_iff subset_iff Ball_def by blast
qed

theorem worker_hints_exact_witness:
  "\<exists>ranked. snd (worker_hints 20 (sample_applied
      [Worker (sample_worker 1 1 3), Worker (sample_worker 2 1 1)])
      \<lparr>sel_required_capabilities = [lit ''sip''], sel_limit = 1\<rparr>) = Inr (take 1 ranked) \<and>
    sorted_wrt (\<lambda>a b. worker_key a \<le> worker_key b) ranked"
proof -
  have "\<not> mc_poisoned (sample_applied
      [Worker (sample_worker 1 1 3), Worker (sample_worker 2 1 1)])"
    "selection_validate \<lparr>sel_required_capabilities = [lit ''sip''], sel_limit = 1\<rparr> = Inr ()"
    by code_simp+
  from worker_hints_exact [OF sample_applied_ok this, of 20] show ?thesis by auto
qed

text \<open>
  The selection does not depend on the iteration order of the hash map: two coordinators that
  store the same workers in a different order give the same ranked answer.
\<close>

theorem worker_hints_order_free:
  assumes "coordinator_ok mc" "coordinator_ok mc'"
    "map_of (ms_workers (mc_state mc)) = map_of (ms_workers (mc_state mc'))"
    "mc_poisoned mc = mc_poisoned mc'"
  shows "snd (worker_hints now mc request) = snd (worker_hints now mc' request)"
proof -
  have ok: "hints_ok (mc_state mc)" "hints_ok (mc_state mc')"
    using assms(1,2) by (simp_all add: coordinator_ok_def)
  let ?a = "selectable now request (mc_state mc)" and ?b = "selectable now request (mc_state mc')"
  have d: "distinct (map worker_key ?a)" "distinct (map worker_key ?b)"
    using ok by (simp_all add: selectable_distinct)
  have "set ?a = set ?b"
    using selectable_set [OF ok(1)] selectable_set [OF ok(2)] assms(3) by (intro set_eqI) presburger
  then have "mset ?a = mset ?b" using d by (simp add: distinct_map set_eq_iff_mset_eq_distinct)
  then have "sort_key worker_key ?a = sort_key worker_key ?b"
    using d by (intro sort_key_inj_key_eq) (auto simp: distinct_map)
  then show ?thesis
    using assms(4) sort_selectable ok by (simp add: worker_hints_selectable split: sum.split)
qed

definition sample_reordered :: MemoryCoordinator where
  "sample_reordered =
     (let mc = sample_applied [Worker (sample_worker 1 1 3), Worker (sample_worker 2 1 1)]
      in mc\<lparr>mc_state := (mc_state mc)\<lparr>ms_workers := rev (ms_workers (mc_state mc))\<rparr>\<rparr>)"

lemma sample_reordered_ok: "coordinator_ok sample_reordered"
  using sample_applied_ok [of "[Worker (sample_worker 1 1 3), Worker (sample_worker 2 1 1)]"]
  by (simp add: sample_reordered_def Let_def coordinator_ok_def hints_ok_def list_all_iff rev_map [symmetric])

lemma sample_reordered_map:
  "map_of (ms_workers (mc_state (sample_applied
     [Worker (sample_worker 1 1 3), Worker (sample_worker 2 1 1)]))) =
   map_of (ms_workers (mc_state sample_reordered))"
  using sample_applied_ok [of "[Worker (sample_worker 1 1 3), Worker (sample_worker 2 1 1)]"]
  by (auto simp: sample_reordered_def Let_def coordinator_ok_def hints_ok_def rev_map [symmetric]
      intro!: map_of_inject_set [THEN iffD2])

theorem worker_hints_order_free_witness:
  "snd (worker_hints 20 (sample_applied
      [Worker (sample_worker 1 1 3), Worker (sample_worker 2 1 1)])
      \<lparr>sel_required_capabilities = [], sel_limit = 2\<rparr>) =
   snd (worker_hints 20 sample_reordered \<lparr>sel_required_capabilities = [], sel_limit = 2\<rparr>)"
  by (rule worker_hints_order_free [OF sample_applied_ok sample_reordered_ok sample_reordered_map])
    code_simp

lemma worker_is_live_iff:
  assumes "hints_ok st"
  shows "worker_is_live now (cleanup_locked now st) lease draining_allowed \<longleftrightarrow>
    (\<exists>w. map_of (ms_workers st) (lease_worker_id lease) = Some w \<and> now < ver_retained_until w \<and>
       wcs_lease (ver_value w) = lease \<and> now < wcs_lease_expires_at (ver_value w) \<and>
       (draining_allowed \<or> \<not> wcs_draining (ver_value w)))"
proof -
  have "keys_distinct (ms_workers st)" using assms by (simp add: hints_ok_def)
  from retain_live_Some [OF this, of now "lease_worker_id lease"] show ?thesis
    by (auto simp: worker_is_live_def split: option.split)
qed

lemma route_lookup:
  assumes "hints_ok st"
  shows "Option.bind (map_of (retain_live now (ms_routes st)) cid) ver_value = Some r \<longleftrightarrow>
    (\<exists>v. map_of (ms_routes st) cid = Some v \<and> now < ver_retained_until v \<and> ver_value v = Some r)"
  using retain_live_Some [of "ms_routes st" now cid] assms
  by (auto simp: hints_ok_def Option.bind_eq_Some_conv)

lemma attachment_lookup:
  assumes "hints_ok st"
  shows "Option.bind (map_of (retain_live now (ms_attachment_routes st)) d) ver_value = Some r \<longleftrightarrow>
    (\<exists>v. map_of (ms_attachment_routes st) d = Some v \<and> now < ver_retained_until v \<and>
       ver_value v = Some r)"
  using retain_live_Some [of "ms_attachment_routes st" now d] assms
  by (auto simp: hints_ok_def Option.bind_eq_Some_conv)

lemma stored_route_key:
  "hints_ok st \<Longrightarrow> map_of (ms_routes st) cid = Some v \<Longrightarrow> ver_value v = Some r \<Longrightarrow> route_call_id r = cid"
  by (auto simp: hints_ok_def dest!: list_all_lookup [where m = "ms_routes st"])

lemma stored_attachment_key:
  "hints_ok st \<Longrightarrow> map_of (ms_attachment_routes st) d = Some v \<Longrightarrow> ver_value v = Some r \<Longrightarrow>
   att_token_digest r = d"
  by (auto simp: hints_ok_def dest!: list_all_lookup [where m = "ms_attachment_routes st"])

text \<open>
  A call route is answered if and only if it is stored and unexpired and its worker is
  stored, under the same incarnation (identifier and fence), with an unexpired lease. A route of a
  worker that has been superseded or has lapsed is not answered; a draining worker keeps its calls.
\<close>

theorem route_hint_exact:
  assumes "coordinator_ok mc" "\<not> mc_poisoned mc"
  shows "snd (route_hint now mc cid) = Inr (Some r) \<longleftrightarrow>
    (\<exists>v w. map_of (ms_routes (mc_state mc)) cid = Some v \<and> ver_value v = Some r \<and>
       route_call_id r = cid \<and> now < ver_retained_until v \<and> now < route_expires_at r \<and>
       map_of (ms_workers (mc_state mc)) (lease_worker_id (route_worker r)) = Some w \<and>
       now < ver_retained_until w \<and> wcs_lease (ver_value w) = route_worker r \<and>
       now < wcs_lease_expires_at (ver_value w))"
proof -
  have ok: "hints_ok (mc_state mc)" using assms(1) by (simp add: coordinator_ok_def)
  let ?st = "cleanup_locked now (mc_state mc)"
  have "snd (route_hint now mc cid) = Inr (Some r) \<longleftrightarrow>
      Option.bind (map_of (retain_live now (ms_routes (mc_state mc))) cid) ver_value = Some r \<and>
      now < route_expires_at r \<and> worker_is_live now ?st (route_worker r) True"
    using assms(2) by (auto simp: route_hint_def Let_def split: option.split)
  then show ?thesis
    unfolding route_lookup [OF ok] worker_is_live_iff [OF ok] using stored_route_key [OF ok] by blast
qed

theorem route_hint_exact_witness:
  "snd (route_hint 20 (sample_applied [Worker (sample_worker 2 1 1), Route sample_route]) (CallId 9)) =
     Inr (Some sample_route) \<and>
   snd (route_hint 20 (sample_applied
     [Worker (sample_worker 2 1 1), Route sample_route, Worker (sample_worker 2 2 0)]) (CallId 9)) \<noteq>
     Inr (Some sample_route)"
proof -
  let ?a = "sample_applied [Worker (sample_worker 2 1 1), Route sample_route]"
  let ?b = "sample_applied
    [Worker (sample_worker 2 1 1), Route sample_route, Worker (sample_worker 2 2 0)]"
  have p: "\<not> mc_poisoned ?a" "\<not> mc_poisoned ?b" by code_simp+
  have "map_of (ms_workers (mc_state ?b)) (lease_worker_id (route_worker sample_route)) =
      Some \<lparr>ver_sequence = ProjectionSequence 3, ver_value = sample_worker 2 2 0, ver_retained_until = 160\<rparr>"
    by code_simp
  moreover have "wcs_lease (sample_worker 2 2 0) \<noteq> route_worker sample_route" by code_simp
  moreover have "snd (route_hint 20 ?a (CallId 9)) = Inr (Some sample_route)" by code_simp
  ultimately show ?thesis
    using route_hint_exact [OF sample_applied_ok p(2), of 20 "CallId 9" sample_route] by auto
qed

text \<open>
  An attachment route is answered only for the presented token digest, transport and tenant,
  before its expiry, and only when its worker is stored under the same incarnation, holds an
  unexpired lease and is not draining; and it is answered whenever that holds.
\<close>

theorem attachment_route_hint_exact:
  assumes "coordinator_ok mc" "\<not> mc_poisoned mc"
  shows "snd (attachment_route_hint now mc lookup) = Inr (Some r) \<longleftrightarrow>
    (\<exists>v w. map_of (ms_attachment_routes (mc_state mc)) (lookup_token_digest lookup) = Some v \<and>
       ver_value v = Some r \<and> att_token_digest r = lookup_token_digest lookup \<and>
       att_transport r = lookup_transport lookup \<and>
       att_tenant_binding r = lookup_tenant_binding lookup \<and>
       now < ver_retained_until v \<and> now < att_expires_at r \<and>
       map_of (ms_workers (mc_state mc)) (lease_worker_id (att_worker r)) = Some w \<and>
       now < ver_retained_until w \<and> wcs_lease (ver_value w) = att_worker r \<and>
       now < wcs_lease_expires_at (ver_value w) \<and> \<not> wcs_draining (ver_value w))"
proof -
  have ok: "hints_ok (mc_state mc)" using assms(1) by (simp add: coordinator_ok_def)
  let ?st = "cleanup_locked now (mc_state mc)"
  have "snd (attachment_route_hint now mc lookup) = Inr (Some r) \<longleftrightarrow>
      Option.bind (map_of (retain_live now (ms_attachment_routes (mc_state mc)))
        (lookup_token_digest lookup)) ver_value = Some r \<and>
      now < att_expires_at r \<and> att_transport r = lookup_transport lookup \<and>
      att_tenant_binding r = lookup_tenant_binding lookup \<and>
      worker_is_live now ?st (att_worker r) False"
    using assms(2) by (auto simp: attachment_route_hint_def Let_def split: option.split)
  then show ?thesis
    unfolding attachment_lookup [OF ok] worker_is_live_iff [OF ok]
    using stored_attachment_key [OF ok] by blast
qed

theorem attachment_route_hint_exact_witness:
  "snd (attachment_route_hint 20
     (sample_applied [Worker (sample_worker 2 1 1), AttachmentRoute sample_attachment])
     \<lparr>lookup_token_digest = AttachmentTokenDigest 5, lookup_transport = Sip,
      lookup_tenant_binding = PrincipalFingerprint 3\<rparr>) = Inr (Some sample_attachment)"
proof -
  let ?a = "sample_applied [Worker (sample_worker 2 1 1), AttachmentRoute sample_attachment]"
  have p: "\<not> mc_poisoned ?a" by code_simp
  show ?thesis
    unfolding attachment_route_hint_exact [OF sample_applied_ok p]
    by (rule exI [of _ "\<lparr>ver_sequence = ProjectionSequence 2, ver_value = Some sample_attachment,
          ver_retained_until = 150\<rparr>"], rule exI [of _ "\<lparr>ver_sequence = ProjectionSequence 1,
          ver_value = sample_worker 2 1 1, ver_retained_until = 160\<rparr>"]) code_simp
qed

end
