(* ===== verification/Coord_Versions.thy ===== *)
theory Coord_Versions
  imports Coord_Hints
begin

text \<open>
  Versioned tables of the coordinator. Call routes, attachment routes and replay markers share one
  contract: an event of the table's kind is written through \<open>apply_versioned\<close>, every other event
  leaves the table alone, and clean-up only drops entries past their retention. The locale
  \<open>versioned_table\<close> states it and shows that deliveries within the retention converge to the
  newest version whatever their order and repetition; the three tables are its interpretations.
\<close>

section \<open>Deliveries\<close>

text \<open>An event together with the three clock readings of its \<open>apply\<close>.\<close>

type_synonym delivery = "time \<times> time \<times> time \<times> CoordinationEvent"

abbreviation delivered_event :: "delivery \<Rightarrow> CoordinationEvent" where
  "delivered_event d \<equiv> snd (snd (snd d))"

definition apply_delivery :: "chrono \<Rightarrow> delivery \<Rightarrow> MemoryCoordinator \<Rightarrow> MemoryCoordinator" where
  "apply_delivery ch = (\<lambda>(t0, t1, t2, e) mc. fst (coordinator_apply ch t0 t1 t2 mc e))"

definition apply_deliveries :: "chrono \<Rightarrow> delivery list \<Rightarrow> MemoryCoordinator \<Rightarrow> MemoryCoordinator" where
  "apply_deliveries ch = fold (apply_delivery ch)"

definition payload_expiry :: "CoordinationEvent \<Rightarrow> time" where
  "payload_expiry e =
     (case event_payload e of
        Worker w \<Rightarrow> wcs_lease_expires_at w
      | Route r \<Rightarrow> route_expires_at r
      | AttachmentRoute r \<Rightarrow> att_expires_at r
      | Replay m \<Rightarrow> marker_expires_at m
      | _ \<Rightarrow> event_recorded_at e)"

text \<open>A valid delivery of this deployment, before \<open>B\<close> and within the tombstone retention.\<close>

definition delivered_within :: "chrono \<Rightarrow> MemoryCoordinator \<Rightarrow> time \<Rightarrow> delivery \<Rightarrow> bool" where
  "delivered_within ch mc B = (\<lambda>(t0, t1, t2, e).
     event_validate ch e = Inr () \<and> event_deployment e = mc_deployment mc \<and>
     t0 < B \<and> B \<le> t1 + int (mc_tombstone_ttl mc) \<and>
     is_ok (retained_until ch (payload_expiry e) t1 (mc_tombstone_ttl mc)))"

lemma retained_until_Inr:
  assumes "chrono_laws ch" "retained_until ch x now ttl = Inr r"
  shows "r = max x now + int ttl"
  using assms by (auto simp: retained_until_def chrono_laws_def split: option.splits)

lemma apply_delivery_keeps [simp]:
  "mc_deployment (apply_delivery ch d mc) = mc_deployment mc"
  "mc_tombstone_ttl (apply_delivery ch d mc) = mc_tombstone_ttl mc"
  "mc_poisoned (apply_delivery ch d mc) = mc_poisoned mc"
  by (auto simp: apply_delivery_def coordinator_apply_def split_beta Let_def split: sum.split)

lemma apply_delivery_ok: "coordinator_ok mc \<Longrightarrow> coordinator_ok (apply_delivery ch d mc)"
  by (simp add: apply_delivery_def split_beta ok_coordinator_apply)

lemma apply_deliveries_keeps:
  "coordinator_ok mc \<Longrightarrow> \<not> mc_poisoned mc \<Longrightarrow>
   coordinator_ok (apply_deliveries ch ds mc) \<and> \<not> mc_poisoned (apply_deliveries ch ds mc)"
  unfolding apply_deliveries_def
  by (induction ds arbitrary: mc) (simp_all add: apply_delivery_ok)

lemma delivered_within_keeps [simp]:
  "delivered_within ch (apply_delivery ch d mc) B = delivered_within ch mc B"
  by (simp add: delivered_within_def)

lemma apply_delivery_state:
  assumes "delivered_within ch mc B (t0, t1, t2, e)" "\<not> mc_poisoned mc"
  shows "mc_state (apply_delivery ch (t0, t1, t2, e) mc) =
    fst (apply_payload ch mc t1 t2 e (cleanup_locked t0 (mc_state mc)))"
  using assms by (auto simp: delivered_within_def apply_delivery_def coordinator_apply_def split_beta)

section \<open>The contract of a versioned table\<close>

text \<open>
  The set \<open>vs\<close> of versions that have been seen, and what the table stores for the key.
\<close>

definition newest :: "time \<Rightarrow> (ProjectionSequence \<times> 'v) set \<Rightarrow> 'v Versioned option \<Rightarrow> bool" where
  "newest B vs entry \<longleftrightarrow>
     (case entry of
        None \<Rightarrow> vs = {}
      | Some r \<Rightarrow> B \<le> ver_retained_until r \<and> (ver_sequence r, ver_value r) \<in> vs \<and>
                  (\<forall>p\<in>vs. fst p \<le> ver_sequence r))"

definition versions_of ::
    "(CoordinationEvent \<Rightarrow> ('k \<times> 'v) option) \<Rightarrow> 'k \<Rightarrow> CoordinationEvent list \<Rightarrow>
     (ProjectionSequence \<times> 'v) set" where
  "versions_of version k es = {(event_sequence e, v) | e v. e \<in> set es \<and> version e = Some (k, v)}"

lemma versions_Nil [simp]: "versions_of version k [] = {}"
  by (simp add: versions_of_def)

lemma versions_Cons:
  "versions_of version k (e # es) =
     (case version e of
        Some (k', v) \<Rightarrow> if k' = k then insert (event_sequence e, v) (versions_of version k es)
                        else versions_of version k es
      | None \<Rightarrow> versions_of version k es)"
  by (auto simp: versions_of_def split: option.split)

text \<open>What a reader can see of an entry, and sequences that name one value each.\<close>

definition stored_version :: "('k \<times> 'v Versioned) list \<Rightarrow> 'k \<Rightarrow> (ProjectionSequence \<times> 'v) option" where
  "stored_version m k = map_option (\<lambda>r. (ver_sequence r, ver_value r)) (map_of m k)"

definition functional_versions :: "(ProjectionSequence \<times> 'v) set \<Rightarrow> bool" where
  "functional_versions vs \<longleftrightarrow> (\<forall>p\<in>vs. \<forall>q\<in>vs. fst p = fst q \<longrightarrow> p = q)"

lemma newest_unique:
  assumes "newest B vs a" "newest B' vs b" "functional_versions vs"
  shows "map_option (\<lambda>r. (ver_sequence r, ver_value r)) a = map_option (\<lambda>r. (ver_sequence r, ver_value r)) b"
proof (cases a; cases b)
  fix x y
  assume ab: "a = Some x" "b = Some y"
  have mem: "(ver_sequence x, ver_value x) \<in> vs" "(ver_sequence y, ver_value y) \<in> vs"
    and "\<forall>p\<in>vs. fst p \<le> ver_sequence x" "\<forall>p\<in>vs. fst p \<le> ver_sequence y"
    using assms(1,2) ab by (simp_all add: newest_def)
  then have "ver_sequence x = ver_sequence y" by (metis fst_conv order_antisym)
  with mem assms(3) have "(ver_sequence x, ver_value x) = (ver_sequence y, ver_value y)"
    unfolding functional_versions_def by (metis fst_conv)
  then show ?thesis using ab by simp
qed (use assms in \<open>auto simp: newest_def\<close>)

lemma newest_insert:
  assumes "newest B vs (map_of m k)" "B \<le> r"
  shows "newest B (insert (s, v) vs) (map_of (fst (apply_versioned m k s v r)) k)"
  using assms
  by (auto simp: newest_def apply_versioned_def Let_def split: option.splits if_splits)

lemma apply_versioned_other:
  "k' \<noteq> k \<Longrightarrow> map_of (fst (apply_versioned m k s v r)) k' = map_of m k'"
  by (simp add: apply_versioned_def Let_def split: option.split)

lemma newest_cleanup:
  assumes "newest B vs (map_of m k)" "t < B" "keys_distinct m"
  shows "newest B vs (map_of (retain_live t m) k)"
proof -
  have "map_of (retain_live t m) k = map_of m k"
    using assms by (auto simp: newest_def retain_live_def map_of_retain split: option.splits)
  then show ?thesis using assms(1) by simp
qed

locale versioned_table =
  fixes tbl :: "MemoryState \<Rightarrow> ('k \<times> 'v Versioned) list"
    and version :: "CoordinationEvent \<Rightarrow> ('k \<times> 'v) option"
  assumes tbl_cleanup: "tbl (cleanup_locked now st) = retain_live now (tbl st)"
    and tbl_distinct: "hints_ok st \<Longrightarrow> keys_distinct (tbl st)"
    and tbl_miss: "version e = None \<Longrightarrow> tbl (fst (apply_payload ch mc t1 t2 e st)) = tbl st"
    and tbl_hit: "version e = Some (k, v) \<Longrightarrow>
      retained_until ch (payload_expiry e) t1 (mc_tombstone_ttl mc) = Inr r \<Longrightarrow>
      tbl (fst (apply_payload ch mc t1 t2 e st)) =
        fst (apply_versioned (tbl st) k (event_sequence e) v r)"
begin

lemma newest_delivery:
  assumes "chrono_laws ch" "coordinator_ok mc" "\<not> mc_poisoned mc" "delivered_within ch mc B d"
    "newest B vs (map_of (tbl (mc_state mc)) k)"
  shows "newest B (versions_of version k [delivered_event d] \<union> vs) (map_of (tbl (mc_state (apply_delivery ch d mc))) k)"
proof -
  obtain t0 t1 t2 e where d: "d = (t0, t1, t2, e)" using prod_cases4 by blast
  let ?st = "cleanup_locked t0 (mc_state mc)"
  have w: "t0 < B" "B \<le> t1 + int (mc_tombstone_ttl mc)"
    "is_ok (retained_until ch (payload_expiry e) t1 (mc_tombstone_ttl mc))"
    using assms(4) by (auto simp: d delivered_within_def)
  then obtain r where r: "retained_until ch (payload_expiry e) t1 (mc_tombstone_ttl mc) = Inr r"
    by (auto simp: is_ok_def split: sum.splits)
  have "B \<le> r" using retained_until_Inr [OF assms(1) r] w(2) by simp
  moreover have "newest B vs (map_of (tbl ?st) k)"
    unfolding tbl_cleanup using assms(2) w(1)
    by (intro newest_cleanup [OF assms(5)] tbl_distinct) (auto simp: coordinator_ok_def)
  moreover have "mc_state (apply_delivery ch d mc) = fst (apply_payload ch mc t1 t2 e ?st)"
    using apply_delivery_state assms(3,4) unfolding d by blast
  ultimately show ?thesis
    using tbl_miss [of e ch mc t1 t2 ?st] tbl_hit [OF _ r, of _ _ t2 ?st]
    by (auto simp: d versions_Cons newest_insert apply_versioned_other split: option.split prod.split)
qed

lemma converge:
  assumes "chrono_laws ch" "coordinator_ok mc" "\<not> mc_poisoned mc"
    "list_all (delivered_within ch mc B) ds" "newest B vs (map_of (tbl (mc_state mc)) k)"
  shows "newest B (versions_of version k (map delivered_event ds) \<union> vs) (map_of (tbl (mc_state (apply_deliveries ch ds mc))) k)"
  using assms(2-)
proof (induction ds arbitrary: mc vs)
  case (Cons d ds)
  let ?mc = "apply_delivery ch d mc"
  have "newest B (versions_of version k [delivered_event d] \<union> vs) (map_of (tbl (mc_state ?mc)) k)"
    using Cons.prems by (intro newest_delivery [OF assms(1)]) auto
  then have "newest B (versions_of version k (map delivered_event ds) \<union> (versions_of version k [delivered_event d] \<union> vs))
      (map_of (tbl (mc_state (apply_deliveries ch ds ?mc))) k)"
    using Cons.prems by (intro Cons.IH) (auto simp: apply_delivery_ok)
  moreover have "versions_of version k (map delivered_event ds) \<union> (versions_of version k [delivered_event d] \<union> vs) = versions_of version k (map delivered_event (d # ds)) \<union> vs"
    by (auto simp: versions_Cons split: option.split)
  ultimately show ?case by (simp add: apply_deliveries_def)
qed (simp add: apply_deliveries_def)

lemma converge_fresh:
  assumes "chrono_laws ch" "coordinator_ok mc" "\<not> mc_poisoned mc"
    "list_all (delivered_within ch mc B) ds" "map_of (tbl (mc_state mc)) k = None"
  shows "newest B (versions_of version k (map delivered_event ds)) (map_of (tbl (mc_state (apply_deliveries ch ds mc))) k)"
  using converge [OF assms(1-4), of "{}" k] assms(5) by (simp add: newest_def)

text \<open>Two orders of the same events, with any repetitions, store the same version.\<close>

lemma order_free:
  assumes "chrono_laws ch" "coordinator_ok mc" "\<not> mc_poisoned mc"
    "list_all (delivered_within ch mc B) ds" "list_all (delivered_within ch mc B') ds'"
    "map_of (tbl (mc_state mc)) k = None"
    "set (map delivered_event ds) = set (map delivered_event ds')"
    "functional_versions (versions_of version k (map delivered_event ds))"
  shows "stored_version (tbl (mc_state (apply_deliveries ch ds mc))) k =
    stored_version (tbl (mc_state (apply_deliveries ch ds' mc))) k"
proof -
  have "versions_of version k (map delivered_event ds') = versions_of version k (map delivered_event ds)"
    using assms(7) by (simp add: versions_of_def del: set_map)
  then have "newest B' (versions_of version k (map delivered_event ds))
      (map_of (tbl (mc_state (apply_deliveries ch ds' mc))) k)"
    using converge_fresh [OF assms(1-3,5,6)] by simp
  from newest_unique [OF converge_fresh [OF assms(1-4,6)] this assms(8)] show ?thesis
    by (simp add: stored_version_def)
qed

end

section \<open>The three tables\<close>

definition route_version :: "CoordinationEvent \<Rightarrow> (CallId \<times> CallRouteHint option) option" where
  "route_version e =
     (case event_payload e of
        Route r \<Rightarrow> Some (route_call_id r, Some r)
      | RouteRemoved cid \<Rightarrow> Some (cid, None)
      | _ \<Rightarrow> None)"

definition attachment_version ::
    "CoordinationEvent \<Rightarrow> (AttachmentTokenDigest \<times> AttachmentRouteHint option) option" where
  "attachment_version e =
     (case event_payload e of
        AttachmentRoute r \<Rightarrow> Some (att_token_digest r, Some r)
      | AttachmentRouteRemoved digest \<Rightarrow> Some (digest, None)
      | _ \<Rightarrow> None)"

definition marker_version :: "CoordinationEvent \<Rightarrow> (ReplayDigest \<times> ReplayMarker) option" where
  "marker_version e =
     (case event_payload e of Replay m \<Rightarrow> Some (marker_digest m, m) | _ \<Rightarrow> None)"

lemma publish_hints [simp]:
  "ms_routes (fst (publish_locked ch mc now st w s r)) = ms_routes st"
  "ms_attachment_routes (fst (publish_locked ch mc now st w s r)) = ms_attachment_routes st"
  "ms_replay (fst (publish_locked ch mc now st w s r)) = ms_replay st"
  "ms_workers (fst (publish_locked ch mc now st w s r)) = ms_workers st"
proof -
  have "ms_routes (fst (publish_locked ch mc now st w s r)) = ms_routes st \<and>
      ms_attachment_routes (fst (publish_locked ch mc now st w s r)) = ms_attachment_routes st \<and>
      ms_replay (fst (publish_locked ch mc now st w s r)) = ms_replay st \<and>
      ms_workers (fst (publish_locked ch mc now st w s r)) = ms_workers st"
    by (cases rule: publish_cases [of ch mc now st w s r]) simp_all
  then show "ms_routes (fst (publish_locked ch mc now st w s r)) = ms_routes st"
    "ms_attachment_routes (fst (publish_locked ch mc now st w s r)) = ms_attachment_routes st"
    "ms_replay (fst (publish_locked ch mc now st w s r)) = ms_replay st"
    "ms_workers (fst (publish_locked ch mc now st w s r)) = ms_workers st" by blast+
qed

lemma apply_wakeup_hints [simp]:
  "ms_routes (fst (apply_wakeup ch mc t1 t2 st s w r)) = ms_routes st"
  "ms_attachment_routes (fst (apply_wakeup ch mc t1 t2 st s w r)) = ms_attachment_routes st"
  "ms_replay (fst (apply_wakeup ch mc t1 t2 st s w r)) = ms_replay st"
  "ms_workers (fst (apply_wakeup ch mc t1 t2 st s w r)) = ms_workers st"
proof -
  have "ms_routes (fst (apply_wakeup ch mc t1 t2 st s w r)) = ms_routes st \<and>
      ms_attachment_routes (fst (apply_wakeup ch mc t1 t2 st s w r)) = ms_attachment_routes st \<and>
      ms_replay (fst (apply_wakeup ch mc t1 t2 st s w r)) = ms_replay st \<and>
      ms_workers (fst (apply_wakeup ch mc t1 t2 st s w r)) = ms_workers st"
  proof (cases rule: apply_wakeup_cases [of ch mc t1 t2 st s w r])
    case (publish k m st' res)
    then show ?thesis
      using publish_hints [of ch mc t2 "st\<lparr>ms_wakeup_sequences := m\<rparr>" w s r] by simp
  qed simp_all
  then show "ms_routes (fst (apply_wakeup ch mc t1 t2 st s w r)) = ms_routes st"
    "ms_attachment_routes (fst (apply_wakeup ch mc t1 t2 st s w r)) = ms_attachment_routes st"
    "ms_replay (fst (apply_wakeup ch mc t1 t2 st s w r)) = ms_replay st"
    "ms_workers (fst (apply_wakeup ch mc t1 t2 st s w r)) = ms_workers st" by blast+
qed

lemma apply_worker_hints [simp]:
  "ms_routes (fst (apply_worker ch mc now st s r w)) = ms_routes st"
  "ms_attachment_routes (fst (apply_worker ch mc now st s r w)) = ms_attachment_routes st"
  "ms_replay (fst (apply_worker ch mc now st s r w)) = ms_replay st"
  by (simp_all add: apply_worker_def Let_def split: sum.split option.split)

interpretation routes: versioned_table ms_routes route_version
  by unfold_locales
    (auto simp: hints_ok_def route_version_def apply_payload_def payload_expiry_def hint_updates
      split_beta split: CoordinationPayload.splits sum.splits)

interpretation attachments: versioned_table ms_attachment_routes attachment_version
  by unfold_locales
    (auto simp: hints_ok_def attachment_version_def apply_payload_def payload_expiry_def hint_updates
      split_beta split: CoordinationPayload.splits sum.splits)

interpretation markers: versioned_table ms_replay marker_version
  by unfold_locales
    (auto simp: hints_ok_def marker_version_def apply_payload_def payload_expiry_def hint_updates
      split_beta split: CoordinationPayload.splits sum.splits)

section \<open>Properties\<close>

lemma sample_chrono_laws: "chrono_laws sample_chrono"
  by (simp add: chrono_laws_def sample_chrono_def)

text \<open>A delivery of the sample event at time \<open>10\<close>.\<close>

definition sample_delivery :: "u64 \<Rightarrow> CoordinationPayload \<Rightarrow> delivery" where
  "sample_delivery n payload = (10, 10, 10, sample_event n payload)"

text \<open>
  C13: the projected call routes do not depend on the order in which the ordered events arrive, nor
  on repetitions. Two series of deliveries of the same events, each shorter than the tombstone
  retention, leave the same version for every call, given that one sequence number names one value.
\<close>

theorem routes_order_free:
  assumes "chrono_laws ch" "coordinator_ok mc" "\<not> mc_poisoned mc"
    "list_all (delivered_within ch mc B) ds" "list_all (delivered_within ch mc B') ds'"
    "map_of (ms_routes (mc_state mc)) cid = None"
    "set (map delivered_event ds) = set (map delivered_event ds')"
    "functional_versions (versions_of route_version cid (map delivered_event ds))"
  shows "stored_version (ms_routes (mc_state (apply_deliveries ch ds mc))) cid =
    stored_version (ms_routes (mc_state (apply_deliveries ch ds' mc))) cid"
  by (rule routes.order_free [OF assms])

theorem routes_order_free_witness:
  "stored_version (ms_routes (mc_state (apply_deliveries sample_chrono
      [sample_delivery 1 (Route sample_route), sample_delivery 2 (RouteRemoved (CallId 9))]
      sample_coordinator))) (CallId 9) =
   stored_version (ms_routes (mc_state (apply_deliveries sample_chrono
      [sample_delivery 2 (RouteRemoved (CallId 9)), sample_delivery 1 (Route sample_route),
       sample_delivery 1 (Route sample_route)] sample_coordinator))) (CallId 9)"
proof (rule routes_order_free [OF sample_chrono_laws sample_coordinator_ok, of 50 _ 50])
  show "functional_versions (versions_of route_version (CallId 9) (map delivered_event
      [sample_delivery 1 (Route sample_route), sample_delivery 2 (RouteRemoved (CallId 9))]))"
    by (auto simp: functional_versions_def versions_Cons sample_delivery_def sample_event_def
        route_version_def)
qed (code_simp, code_simp, code_simp, code_simp, auto)

text \<open>
  A removed attachment route is not resurrected. After any series of deliveries within the
  retention in which the removal of a token carries the greatest sequence number of the token's
  events, no lookup is answered for that token, whatever arrived late.
\<close>

theorem removed_attachment_stays_removed:
  assumes "chrono_laws ch" "coordinator_ok mc" "\<not> mc_poisoned mc"
    "list_all (delivered_within ch mc B) ds"
    "map_of (ms_attachment_routes (mc_state mc)) digest = None"
    "versions_of attachment_version digest (map delivered_event ds) = insert (s, None) older"
    "\<forall>p\<in>older. fst p < s" "lookup_token_digest lookup = digest"
  shows "snd (attachment_route_hint now (apply_deliveries ch ds mc) lookup) = Inr None"
proof -
  let ?mc = "apply_deliveries ch ds mc"
  have keeps: "coordinator_ok ?mc \<and> \<not> mc_poisoned ?mc"
    using assms(2,3) by (rule apply_deliveries_keeps)
  obtain r where r: "map_of (ms_attachment_routes (mc_state ?mc)) digest = Some r"
      "(ver_sequence r, ver_value r) \<in> insert (s, None) older" "s \<le> ver_sequence r"
    using attachments.converge_fresh [OF assms(1-5)] assms(6)
    by (auto simp: newest_def split: option.splits)
  then have "ver_value r = None" using assms(7) by fastforce
  moreover have "keys_distinct (ms_attachment_routes (mc_state ?mc))"
    using keeps by (simp add: coordinator_ok_def hints_ok_def)
  ultimately have "Option.bind (map_of (retain_live now (ms_attachment_routes (mc_state ?mc))) digest)
      ver_value = None"
    using r(1) by (auto simp: retain_live_def map_of_retain)
  then show ?thesis using keeps assms(8) by (simp add: attachment_route_hint_def Let_def)
qed

theorem removed_attachment_stays_removed_witness:
  "snd (attachment_route_hint 20 (apply_deliveries sample_chrono
      [sample_delivery 1 (Worker (sample_worker 2 1 1)),
       sample_delivery 3 (AttachmentRouteRemoved (AttachmentTokenDigest 5)),
       sample_delivery 2 (AttachmentRoute sample_attachment)] sample_coordinator)
      \<lparr>lookup_token_digest = AttachmentTokenDigest 5, lookup_transport = Sip,
       lookup_tenant_binding = PrincipalFingerprint 3\<rparr>) = Inr None"
proof (rule removed_attachment_stays_removed [OF sample_chrono_laws sample_coordinator_ok,
      where B = 50 and digest = "AttachmentTokenDigest 5" and s = "ProjectionSequence 3" and
        older = "{(ProjectionSequence 2, Some sample_attachment)}"])
  show "versions_of attachment_version (AttachmentTokenDigest 5) (map delivered_event
      [sample_delivery 1 (Worker (sample_worker 2 1 1)),
       sample_delivery 3 (AttachmentRouteRemoved (AttachmentTokenDigest 5)),
       sample_delivery 2 (AttachmentRoute sample_attachment)]) =
     insert (ProjectionSequence 3, None) {(ProjectionSequence 2, Some sample_attachment)}"
    by (auto simp: versions_Cons sample_delivery_def sample_event_def attachment_version_def
        sample_attachment_def)
qed (code_simp, code_simp, code_simp, simp add: less_ProjectionSequence_def, simp)

text \<open>
  A replay marker that was projected is seen until it expires. After any series of deliveries
  within the retention that holds a marker of the digest, in which every marker of that digest is
  unexpired at \<open>now\<close>, the digest is reported as seen.
\<close>

theorem projected_marker_is_seen:
  assumes "chrono_laws ch" "coordinator_ok mc" "\<not> mc_poisoned mc"
    "list_all (delivered_within ch mc B) ds" "map_of (ms_replay (mc_state mc)) digest = None"
    "versions_of marker_version digest (map delivered_event ds) \<noteq> {}"
    "\<forall>p\<in>versions_of marker_version digest (map delivered_event ds). now < marker_expires_at (snd p)"
    "now < B"
  shows "snd (replay_seen now (apply_deliveries ch ds mc) digest) = Inr True"
proof -
  let ?mc = "apply_deliveries ch ds mc"
  have keeps: "coordinator_ok ?mc \<and> \<not> mc_poisoned ?mc"
    using assms(2,3) by (rule apply_deliveries_keeps)
  obtain r where r: "map_of (ms_replay (mc_state ?mc)) digest = Some r" "B \<le> ver_retained_until r"
      "now < marker_expires_at (ver_value r)"
    using markers.converge_fresh [OF assms(1-5)] assms(6,7)
    by (fastforce simp: newest_def split: option.splits)
  moreover have "keys_distinct (ms_replay (mc_state ?mc))"
    using keeps by (simp add: coordinator_ok_def hints_ok_def)
  ultimately have "map_of (retain_live now (ms_replay (mc_state ?mc))) digest = Some r"
    using assms(8) by (simp add: retain_live_Some)
  then show ?thesis using keeps r(3) by (simp add: replay_seen_def Let_def)
qed

theorem projected_marker_is_seen_witness:
  "snd (replay_seen 20 (apply_deliveries sample_chrono
      [sample_delivery 1 (Replay \<lparr>marker_digest = ReplayDigest 4, marker_expires_at = 40\<rparr>)]
      sample_coordinator) (ReplayDigest 4)) = Inr True"
proof (rule projected_marker_is_seen [OF sample_chrono_laws sample_coordinator_ok, where B = 50])
  show "versions_of marker_version (ReplayDigest 4) (map delivered_event
      [sample_delivery 1 (Replay \<lparr>marker_digest = ReplayDigest 4, marker_expires_at = 40\<rparr>)]) \<noteq> {}"
    "\<forall>p\<in>versions_of marker_version (ReplayDigest 4) (map delivered_event
      [sample_delivery 1 (Replay \<lparr>marker_digest = ReplayDigest 4, marker_expires_at = 40\<rparr>)]).
       20 < marker_expires_at (snd p)"
    by (auto simp: versions_Cons sample_delivery_def sample_event_def marker_version_def)
qed (code_simp, code_simp, code_simp, simp)

lemma apply_worker_fenced:
  assumes "map_of (ms_workers st) w = Some old" "hints_ok st"
  shows "\<exists>new. map_of (ms_workers (fst (apply_worker ch mc now st s recorded snapshot))) w = Some new \<and>
    (new = old \<or> ver_value new = snapshot \<and> ver_sequence new = s \<and> ver_sequence old < s \<and>
      lease_fence (wcs_lease (ver_value old)) \<le> lease_fence (wcs_lease snapshot) \<and>
      (lease_fence (wcs_lease (ver_value old)) = lease_fence (wcs_lease snapshot) \<longrightarrow>
        recorded < wcs_lease_expires_at (ver_value old) \<and>
        (wcs_draining (ver_value old) \<longrightarrow> wcs_draining snapshot)))"
proof (cases "lease_worker_id (wcs_lease snapshot) = w")
  case True
  then show ?thesis
    using assms(1) by (simp add: apply_worker_def Let_def not_less not_le split: sum.split) auto
qed (simp add: apply_worker_def Let_def assms(1) split: sum.split option.split)

lemma apply_other_workers [simp]:
  "ms_workers (fst (apply_route ch mc now st s route)) = ms_workers st"
  "ms_workers (fst (remove_route ch mc now st s r cid)) = ms_workers st"
  "ms_workers (fst (apply_attachment_route ch mc now st s att)) = ms_workers st"
  "ms_workers (fst (remove_attachment_route ch mc now st s r digest)) = ms_workers st"
  "ms_workers (fst (apply_replay ch mc now st s marker)) = ms_workers st"
  by (simp_all add: hint_updates split_beta split: sum.split)

text \<open>
  C14: the projection of a worker is fenced. As long as the stored snapshot is retained, an event
  leaves it or replaces it by the snapshot of a later sequence number; the fence never falls; and
  within one fence a lapsed lease is not revived and draining is not taken back.
\<close>

theorem worker_projection_fenced:
  assumes "coordinator_ok mc" "map_of (ms_workers (mc_state mc)) w = Some old"
    "t0 < ver_retained_until old"
  shows "\<exists>new. map_of (ms_workers (mc_state (fst (coordinator_apply ch t0 t1 t2 mc e)))) w = Some new \<and>
    (new = old \<or>
      event_payload e = Worker (ver_value new) \<and> ver_sequence new = event_sequence e \<and>
      ver_sequence old < ver_sequence new \<and>
      lease_fence (wcs_lease (ver_value old)) \<le> lease_fence (wcs_lease (ver_value new)) \<and>
      (lease_fence (wcs_lease (ver_value old)) = lease_fence (wcs_lease (ver_value new)) \<longrightarrow>
        event_recorded_at e < wcs_lease_expires_at (ver_value old) \<and>
        (wcs_draining (ver_value old) \<longrightarrow> wcs_draining (ver_value new))))"
proof -
  let ?st = "cleanup_locked t0 (mc_state mc)"
  have ok: "hints_ok ?st" using assms(1) by (simp add: coordinator_ok_def)
  have stored: "map_of (ms_workers ?st) w = Some old"
    using assms by (simp add: coordinator_ok_def hints_ok_def retain_live_Some)
  have "\<exists>new. map_of (ms_workers (fst (apply_payload ch mc t1 t2 e ?st))) w = Some new \<and>
    (new = old \<or>
      event_payload e = Worker (ver_value new) \<and> ver_sequence new = event_sequence e \<and>
      ver_sequence old < ver_sequence new \<and>
      lease_fence (wcs_lease (ver_value old)) \<le> lease_fence (wcs_lease (ver_value new)) \<and>
      (lease_fence (wcs_lease (ver_value old)) = lease_fence (wcs_lease (ver_value new)) \<longrightarrow>
        event_recorded_at e < wcs_lease_expires_at (ver_value old) \<and>
        (wcs_draining (ver_value old) \<longrightarrow> wcs_draining (ver_value new))))"
  proof (cases "event_payload e")
    case (Worker snapshot)
    then show ?thesis
      using apply_worker_fenced [OF stored ok, of ch mc t1 "event_sequence e" "event_recorded_at e" snapshot]
      by (auto simp: apply_payload_def)
  qed (use stored in \<open>simp_all add: apply_payload_def\<close>)
  then show ?thesis
    using assms(2) by (auto simp: coordinator_apply_def split_beta split: sum.split)
qed

theorem worker_projection_fenced_witness:
  "\<exists>new. map_of (ms_workers (mc_state (fst (coordinator_apply sample_chrono 20 20 20
      (sample_applied [Worker ((sample_worker 2 1 1)\<lparr>wcs_draining := True\<rparr>)])
      (sample_event 2 (Worker (sample_worker 2 1 0))))))) (WorkerId 2) = Some new \<and>
    wcs_draining (ver_value new)"
proof -
  let ?mc = "sample_applied [Worker ((sample_worker 2 1 1)\<lparr>wcs_draining := True\<rparr>)]"
  let ?old = "\<lparr>ver_sequence = ProjectionSequence 1,
    ver_value = (sample_worker 2 1 1)\<lparr>wcs_draining := True\<rparr>, ver_retained_until = 160\<rparr>"
  have "map_of (ms_workers (mc_state ?mc)) (WorkerId 2) = Some ?old" by code_simp
  moreover have "(20 :: time) < ver_retained_until ?old" by simp
  ultimately obtain new where
    "map_of (ms_workers (mc_state (fst (coordinator_apply sample_chrono 20 20 20 ?mc
      (sample_event 2 (Worker (sample_worker 2 1 0))))))) (WorkerId 2) = Some new"
    "new = ?old \<or> ver_value new = sample_worker 2 1 0 \<and>
      (lease_fence (wcs_lease (ver_value ?old)) = lease_fence (wcs_lease (ver_value new)) \<longrightarrow>
        wcs_draining (ver_value new))"
    using worker_projection_fenced [OF sample_applied_ok, of
        "[Worker ((sample_worker 2 1 1)\<lparr>wcs_draining := True\<rparr>)]" "WorkerId 2" ?old 20 sample_chrono
        20 20 "sample_event 2 (Worker (sample_worker 2 1 0))"]
    by (auto simp: sample_event_def)
  then show ?thesis by (auto simp: sample_worker_def)
qed

end
