(* ===== verification/Coord_Delivery.thy ===== *)
theory Coord_Delivery
  imports Coord_Versions
begin

text \<open>
  Delivery of wakeups to consumer groups: the invariant of every reachable coordinator, the round
  trip of the stream identifiers, the position of a group in its stream, acknowledgement, and the
  recovery of deliveries that another consumer left idle.
\<close>

section \<open>Reachable coordinators\<close>

text \<open>
  C15: every coordinator that operations can produce satisfies the invariant: one value per key,
  valid worker snapshots under their own identifier, streams of at most \<open>max_stream_len\<close> entries
  with increasing identifiers up to the stream counter, and consumer groups whose pending entries
  are entries of the stream that were delivered.
\<close>

theorem reachable_coordinator_ok:
  "coordinator_reachable ch mc \<Longrightarrow> coordinator_ok mc"
  by (rule reachable_ok)

theorem reachable_coordinator_ok_witness:
  "coordinator_ok (fst (take_ready sample_chrono 30
     (fst (publish_wakeup sample_chrono 20 20 20
       (projr (MemoryCoordinator_new sample_deployment 2)) (WorkerId 2) (ProjectionSequence 1) Effects))
     \<lparr>cons_worker_id = WorkerId 2, cons_group = lit ''g'', cons_consumer = lit ''a'',
      cons_poll_interval = 5\<rparr> 8))"
proof (rule reachable_coordinator_ok [where ch = sample_chrono])
  have "MemoryCoordinator_new sample_deployment 2 = Inr (projr (MemoryCoordinator_new sample_deployment 2))"
    by (simp add: MemoryCoordinator_new_def)
  then show "coordinator_reachable sample_chrono (fst (take_ready sample_chrono 30
     (fst (publish_wakeup sample_chrono 20 20 20
       (projr (MemoryCoordinator_new sample_deployment 2)) (WorkerId 2) (ProjectionSequence 1) Effects))
     \<lparr>cons_worker_id = WorkerId 2, cons_group = lit ''g'', cons_consumer = lit ''a'',
      cons_poll_interval = 5\<rparr> 8))"
    by (rule stepped [OF stepped [OF created step_publish_wakeup] step_take_ready])
qed

section \<open>Stream identifiers\<close>

lemma decimal_digits: "list_all ascii_digit (decimal n)"
proof (induction n rule: decimal.induct)
  case (1 n)
  have "n mod 10 \<le> 9" using mod_less_divisor [of 10 n] by linarith
  then have "ascii_digit (48 + n mod 10)" by (simp add: ascii_digit_def)
  moreover have "n < 10 \<Longrightarrow> ascii_digit (48 + n)" by (simp add: ascii_digit_def)
  ultimately show ?case using 1 by (subst decimal.simps) simp
qed

lemma decimal_not_Nil: "decimal n \<noteq> []"
  by (subst decimal.simps) simp

lemma parse_digits_snoc:
  "parse_digits acc (xs @ [c]) =
     Option.bind (parse_digits acc xs)
       (\<lambda>a. if ascii_digit c \<and> a * 10 + (c - 48) < 2 ^ 64 then Some (a * 10 + (c - 48)) else None)"
  by (induction xs arbitrary: acc) auto

lemma parse_decimal: "n < 2 ^ 64 \<Longrightarrow> parse_digits 0 (decimal n) = Some n"
proof (induction n rule: decimal.induct)
  case (1 n)
  show ?case
  proof (cases "n < 10")
    case True
    then show ?thesis by (subst decimal.simps) (simp add: ascii_digit_def)
  next
    case False
    then have "parse_digits 0 (decimal (n div 10)) = Some (n div 10)" using 1 by simp
    moreover have "n div 10 * 10 + n mod 10 = n" by simp
    ultimately show ?thesis
      using False "1.prems" by (subst decimal.simps) (simp add: parse_digits_snoc ascii_digit_def)
  qed
qed

lemma parse_u64_decimal: "parse_u64 (decimal (unat i)) = Some i"
proof -
  obtain c cs where d: "decimal (unat i) = c # cs" using decimal_not_Nil by (metis list.exhaust)
  then have "c \<noteq> 43" using decimal_digits [of "unat i"] by (auto simp: ascii_digit_def)
  then show ?thesis
    using d parse_decimal [OF unat_64, of i] by (simp add: parse_u64_def)
qed

lemma parse_stream_entry_id: "parse_entry_id (stream_entry_id i) = Inr i"
proof -
  have "strip_suffix (lit ''-0'') (stream_entry_id i) = Some (decimal (unat i))"
    by (simp add: strip_suffix_def stream_entry_id_def)
  then show ?thesis by (simp add: parse_entry_id_def parse_u64_decimal)
qed

lemma stream_entry_id_inject: "stream_entry_id i = stream_entry_id j \<longleftrightarrow> i = j"
  by (metis parse_stream_entry_id sum.inject(2))

lemma parse_messages: "parse_entry_ids (map (msg_entry_id \<circ> memory_message) es) = Inr (map entry_id es)"
  by (induction es) (simp_all add: memory_message_def parse_stream_entry_id and_then_def)

text \<open>
  The identifiers of wakeup messages survive their textual form: acknowledging parses the
  printed identifiers of any messages back to the entries' 64-bit identifiers, and different
  entries have different printed identifiers.
\<close>

theorem message_ids_round_trip:
  "parse_entry_ids (map (msg_entry_id \<circ> memory_message) es) = Inr (map entry_id es) \<and>
   (msg_entry_id (memory_message a) = msg_entry_id (memory_message b) \<longleftrightarrow> entry_id a = entry_id b)"
  by (simp add: parse_messages) (simp add: memory_message_def stream_entry_id_inject)

section \<open>Delivery in order\<close>

lemma deliver_retained [simp]:
  "group_retained_until (deliver c now es g) = group_retained_until g"
  by (induction c now es g rule: deliver.induct) simp_all

lemma deliver_last:
  "group_last_delivered g \<le> group_last_delivered (deliver c now es g) \<and>
   (\<forall>e\<in>set es. entry_id e \<le> group_last_delivered (deliver c now es g))"
  by (induction c now es g rule: deliver.induct) auto

lemma deliver_pending:
  "map_of (group_pending (deliver c now es g)) i =
     (if i \<in> entry_id ` set es then Some \<lparr>pending_consumer = c, pending_delivered_at = now\<rparr>
      else map_of (group_pending g) i)"
  by (induction c now es g rule: deliver.induct) auto

lemma take_ready_ok:
  assumes "take_ready ch now mc c n = (mc', Inr ms)"
  obtains r es where "retained_until ch now now (mc_stream_ttl mc) = Inr r" "\<not> mc_poisoned mc"
    "es = take n (filter
       (\<lambda>e. group_last_delivered (group_or_default (cleanup_locked now (mc_state mc)) (consumer_key c))
            < entry_id e) (stream_of (cleanup_locked now (mc_state mc)) (cons_worker_id c)))"
    "ms = map memory_message es"
    "mc' = mc\<lparr>mc_state := put_group (consumer_key c)
       (deliver (cons_consumer c) now es
         ((group_or_default (cleanup_locked now (mc_state mc)) (consumer_key c))
           \<lparr>group_retained_until := Some r\<rparr>)) (cleanup_locked now (mc_state mc))\<rparr>"
  using assms by (auto simp: take_ready_def Let_def split: sum.splits if_splits)

lemma sorted_take_filter: "sorted_wrt R xs \<Longrightarrow> sorted_wrt R (take n (filter P xs))"
  by (simp add: sorted_wrt_filter sorted_wrt_take)

lemma stream_sorted:
  "state_ok n st \<Longrightarrow> sorted_wrt (\<lambda>a b. entry_id a < entry_id b) (stream_of st w)"
  using stream_of_ok [of n st w] by (simp add: state_ok_def stream_ok_def sorted_wrt_map)

text \<open>
  The group has passed the position \<open>L\<close>: it remembers it and is retained until \<open>R\<close>, or the
  stream no longer holds an entry up to \<open>L\<close>.
\<close>

definition passed :: "time \<Rightarrow> MemoryState \<Rightarrow> WorkerId \<times> rstr \<Rightarrow> u64 \<Rightarrow> bool" where
  "passed R st key L \<longleftrightarrow> L \<le> ms_next_stream_id st \<and>
     ((\<exists>g t. map_of (ms_groups st) key = Some g \<and> L \<le> group_last_delivered g \<and>
         group_retained_until g = Some t \<and> R \<le> t) \<or>
      list_all (\<lambda>e. L < entry_id e) (stream_of st (fst key)))"

lemma cleanup_stream_cases:
  assumes "wakeups_ok n st"
  shows "stream_of (cleanup_locked now st) w = stream_of st w \<or> stream_of (cleanup_locked now st) w = []"
proof -
  have d: "keys_distinct (ms_streams st)" using assms by (simp add: wakeups_ok_def)
  show ?thesis
    by (auto simp: stream_of_def cleanup_streams [OF d] map_of_retain [OF d] split: option.split)
qed

lemma cleanup_group_live:
  assumes "wakeups_ok n st" "map_of (ms_groups st) key = Some g" "group_retained_until g = Some t"
    "now < t" "\<forall>s. map_of (ms_streams st) (fst key) = Some s \<longrightarrow> now < stream_retained_until s"
  shows "map_of (ms_groups (cleanup_locked now st)) key = Some g"
proof -
  have d: "keys_distinct (ms_streams st)" "keys_distinct (ms_groups st)"
    using assms(1) by (simp_all add: wakeups_ok_def)
  have "fst key \<notin> fst ` set (filter (\<lambda>(_, s). stream_retained_until s \<le> now) (ms_streams st))"
  proof
    assume "fst key \<in> fst ` set (filter (\<lambda>(_, s). stream_retained_until s \<le> now) (ms_streams st))"
    then obtain s where "(fst key, s) \<in> set (ms_streams st)" "stream_retained_until s \<le> now" by auto
    then show False using assms(5) in_map_of [OF d(1), of "fst key" s] by auto
  qed
  then show ?thesis using assms(2-4) d(2) by (simp add: cleanup_locked_def map_of_retain)
qed

lemma cleanup_group_kept:
  assumes "wakeups_ok n st" "map_of (ms_groups st) key = Some g"
    "group_retained_until g = Some t" "now < t"
  shows "map_of (ms_groups (cleanup_locked now st)) key = Some g \<or>
    stream_of (cleanup_locked now st) (fst key) = []"
proof (cases "\<forall>s. map_of (ms_streams st) (fst key) = Some s \<longrightarrow> now < stream_retained_until s")
  case False
  have "keys_distinct (ms_streams st)" using assms(1) by (simp add: wakeups_ok_def)
  with False show ?thesis
    by (auto simp: stream_of_def cleanup_streams map_of_retain)
qed (use cleanup_group_live [OF assms] in blast)

lemma passed_cleanup:
  assumes "wakeups_ok n st" "passed R st key L" "now < R"
  shows "passed R (cleanup_locked now st) key L"
proof -
  consider (grp) g t where "map_of (ms_groups st) key = Some g" "L \<le> group_last_delivered g"
      "group_retained_until g = Some t" "R \<le> t"
    | (stream) "list_all (\<lambda>e. L < entry_id e) (stream_of st (fst key))"
    using assms(2) by (auto simp: passed_def)
  then show ?thesis
  proof cases
    case grp
    then show ?thesis
      using cleanup_group_kept [OF assms(1) grp(1,3), of now] assms(2,3) by (auto simp: passed_def)
  next
    case stream
    then show ?thesis
      using cleanup_stream_cases [OF assms(1), of now "fst key"] assms(2) by (auto simp: passed_def)
  qed
qed

lemma forget_all_lookup:
  "map_of (ms_groups st) key = Some g \<Longrightarrow>
   \<exists>g'. map_of (forget_all w is (ms_groups st)) key = Some g' \<and>
     group_last_delivered g' = group_last_delivered g \<and>
     group_retained_until g' = group_retained_until g"
  by (auto simp: forget_all_def map_of_map_snd)

lemma passed_publish:
  assumes "passed R st key L"
  shows "passed R (fst (publish_locked ch mc now st w s r)) key L"
proof (cases rule: publish_cases [of ch mc now st w s r])
  case (ok t es)
  let ?st = "fst (publish_locked ch mc now st w s r)"
  have lt: "ms_next_stream_id st < ms_next_stream_id st + 1" by (rule word_succ_less [OF ok(2)])
  have L: "L \<le> ms_next_stream_id st" using assms by (simp add: passed_def)
  have stream: "stream_of ?st (fst key) =
      (if fst key = w then drop (length es - mc_max_stream_len mc) es else stream_of st (fst key))"
    using ok(4) by (simp add: stream_of_update)
  have "list_all (\<lambda>e. L < entry_id e) (stream_of ?st (fst key))"
    if "list_all (\<lambda>e. L < entry_id e) (stream_of st (fst key))"
    unfolding stream using that L lt
    by (auto simp: ok(3) list_all_iff simp del: drop_append dest!: in_set_dropD)
  moreover have "\<exists>g' t'. map_of (ms_groups ?st) key = Some g' \<and> L \<le> group_last_delivered g' \<and>
      group_retained_until g' = Some t' \<and> R \<le> t'"
    if "map_of (ms_groups st) key = Some g" "L \<le> group_last_delivered g"
      "group_retained_until g = Some t'" "R \<le> t'" for g t'
    using forget_all_lookup [OF that(1), of w "map entry_id (take (length es - mc_max_stream_len mc) es)"]
      that ok(4) by auto
  moreover have "L \<le> ms_next_stream_id ?st" using ok(4) L lt by simp
  ultimately show ?thesis using assms unfolding passed_def by blast
qed (use assms in simp)

lemma passed_update [simp]:
  "passed R (st\<lparr>ms_workers := ws\<rparr>) key L = passed R st key L"
  "passed R (st\<lparr>ms_routes := rs\<rparr>) key L = passed R st key L"
  "passed R (st\<lparr>ms_attachment_routes := as\<rparr>) key L = passed R st key L"
  "passed R (st\<lparr>ms_replay := ps\<rparr>) key L = passed R st key L"
  "passed R (st\<lparr>ms_wakeup_sequences := qs\<rparr>) key L = passed R st key L"
  by (simp_all add: passed_def stream_of_def)

lemma passed_payload:
  assumes "passed R st key L"
  shows "passed R (fst (apply_payload ch mc t1 t2 e st)) key L"
proof (cases "event_payload e")
  case (WakeWorker w reason)
  have "passed R (fst (apply_wakeup ch mc t1 t2 st (event_sequence e) w reason)) key L"
  proof (cases rule: apply_wakeup_cases [of ch mc t1 t2 st "event_sequence e" w reason])
    case (publish k m st' res)
    then show ?thesis
      using passed_publish [of R "st\<lparr>ms_wakeup_sequences := m\<rparr>" key L ch mc t2 w "event_sequence e" reason]
        assms by simp
  qed (use assms in simp_all)
  then show ?thesis using WakeWorker by (simp add: apply_payload_def)
qed (use assms in \<open>simp_all add: apply_payload_def apply_worker_def hint_updates Let_def split_beta
      split: sum.split option.split\<close>)

lemma take_ready_passed:
  assumes "chrono_laws ch" "coordinator_ok mc" "take_ready ch now mc c n = (mc', Inr ms)"
  shows "\<exists>is L. map msg_entry_id ms = map stream_entry_id is \<and> sorted_wrt (<) is \<and>
    list_all (\<lambda>i. i \<le> L) is \<and>
    passed (now + int (mc_stream_ttl mc)) (mc_state mc') (consumer_key c) L"
proof -
  let ?st = "cleanup_locked now (mc_state mc)"
  obtain r es where r: "retained_until ch now now (mc_stream_ttl mc) = Inr r"
    and es: "es = take n (filter (\<lambda>e. group_last_delivered (group_or_default ?st (consumer_key c))
        < entry_id e) (stream_of ?st (cons_worker_id c)))"
    and ms: "ms = map memory_message es"
    and mc': "mc' = mc\<lparr>mc_state := put_group (consumer_key c) (deliver (cons_consumer c) now es
        ((group_or_default ?st (consumer_key c))\<lparr>group_retained_until := Some r\<rparr>)) ?st\<rparr>"
    using assms(3) by (rule take_ready_ok)
  let ?g = "deliver (cons_consumer c) now es
    ((group_or_default ?st (consumer_key c))\<lparr>group_retained_until := Some r\<rparr>)"
  have ok: "state_ok (mc_max_stream_len mc) ?st"
    using assms(2) by (simp add: coordinator_ok_state)
  have "state_ok (mc_max_stream_len mc) (mc_state mc')"
    using ok_take_ready [OF assms(2), of ch now c n] assms(3) mc' coordinator_ok_state by fastforce
  then have "group_last_delivered ?g \<le> ms_next_stream_id (mc_state mc')"
    unfolding mc' by (auto simp: state_ok_def wakeups_ok_def put_group_def group_ok_def
        dest!: list_all_lookup [where k = "consumer_key c" and v = ?g])
  then have "passed (now + int (mc_stream_ttl mc)) (mc_state mc') (consumer_key c)
      (group_last_delivered ?g)"
    using retained_until_Inr [OF assms(1) r] by (simp add: mc' passed_def put_group_def)
  moreover have "map msg_entry_id ms = map stream_entry_id (map entry_id es)"
    by (simp add: ms memory_message_def)
  moreover have "sorted_wrt (<) (map entry_id es)"
    using stream_sorted [OF ok] unfolding es by (simp add: sorted_take_filter sorted_wrt_map)
  moreover have "list_all (\<lambda>i. i \<le> group_last_delivered ?g) (map entry_id es)"
    using deliver_last by (auto simp: list_all_iff)
  ultimately show ?thesis by blast
qed

lemma take_ready_beyond:
  assumes "coordinator_ok mc" "take_ready ch now mc c n = (mc', Inr ms)"
    "passed R (mc_state mc) (consumer_key c) L" "now < R"
  shows "\<exists>is. map msg_entry_id ms = map stream_entry_id is \<and> sorted_wrt (<) is \<and>
    list_all (\<lambda>i. L < i) is"
proof -
  let ?st = "cleanup_locked now (mc_state mc)"
  obtain es where es: "es = take n (filter
        (\<lambda>e. group_last_delivered (group_or_default ?st (consumer_key c)) < entry_id e)
        (stream_of ?st (cons_worker_id c)))"
    and ms: "ms = map memory_message es"
    using assms(2) by (rule take_ready_ok)
  have ok: "state_ok (mc_max_stream_len mc) ?st"
    using assms(1) by (simp add: coordinator_ok_state)
  have "passed R ?st (consumer_key c) L"
    using assms(1,3,4) by (intro passed_cleanup) (auto simp: coordinator_ok_def)
  then have "L < entry_id e" if "e \<in> set es" for e
    using that unfolding es by (auto simp: passed_def group_or_default_def consumer_key_def
        list_all_iff dest!: in_set_takeD)
  moreover have "sorted_wrt (<) (map entry_id es)"
    using stream_sorted [OF ok] unfolding es by (simp add: sorted_take_filter sorted_wrt_map)
  moreover have "map msg_entry_id ms = map stream_entry_id (map entry_id es)"
    by (simp add: ms memory_message_def)
  ultimately show ?thesis by (intro exI [of _ "map entry_id es"]) (auto simp: list_all_iff)
qed

definition sample_consumer :: "rstr \<Rightarrow> MemoryWakeupConsumer" where
  "sample_consumer name =
     \<lparr>cons_worker_id = WorkerId 2, cons_group = lit ''g'', cons_consumer = name,
      cons_poll_interval = 5\<rparr>"

section \<open>Acknowledgement and recovery\<close>

lemma remove_pending_count:
  "distinct is \<Longrightarrow> snd (remove_pending is p) = length (filter (\<lambda>i. map_of p i \<noteq> None) is)"
proof (induction "is" p rule: remove_pending.induct)
  case (2 i "is" p)
  then have "filter (\<lambda>j. map_of (AList.delete i p) j \<noteq> None) is = filter (\<lambda>j. map_of p j \<noteq> None) is"
    by (intro filter_cong) auto
  then show ?case using 2 by (simp add: split_beta Let_def)
qed simp

text \<open>The delivery that a group waits for, if any.\<close>

definition pending_of :: "MemoryState \<Rightarrow> WorkerId \<times> rstr \<Rightarrow> u64 \<Rightarrow> PendingWakeup option" where
  "pending_of st key i = map_of (group_pending (group_or_default st key)) i"

lemma group_or_default_put [simp]: "group_or_default (put_group key g st) key = g"
  by (simp add: group_or_default_def put_group_def)

lemma acknowledge_eq:
  assumes "\<not> mc_poisoned mc" "retained_until ch now now (mc_stream_ttl mc) = Inr r"
    "ids = map (msg_entry_id \<circ> memory_message) es"
  shows "consumer_acknowledge ch now mc c ids =
    (let st = cleanup_locked now (mc_state mc); g = group_or_default st (consumer_key c)
     in (mc\<lparr>mc_state := put_group (consumer_key c) (g\<lparr>group_retained_until := Some r, group_pending :=
            filter (\<lambda>(i, _). i \<notin> set (map entry_id es)) (group_pending g)\<rparr>) st\<rparr>,
         Inr (snd (remove_pending (map entry_id es) (group_pending g)))))"
  using assms
  by (simp add: consumer_acknowledge_def parse_messages Let_def split_beta remove_pending_eq
      del: map_map)

lemma map_of_filter_key: "map_of (filter (\<lambda>(i, _). P i) m) k = (if P k then map_of m k else None)"
  by (induction m) auto

text \<open>
  Acknowledging what a poll returned removes exactly those deliveries from the group's
  pending set and counts each of them, as long as the group and its stream are retained.
\<close>

theorem acknowledge_delivered:
  assumes "coordinator_ok mc" "chrono_laws ch" "take_ready ch now mc c n = (mc', Inr ms)"
    "now' < now + int (mc_stream_ttl mc)" "retained_until ch now' now' (mc_stream_ttl mc) = Inr r"
    "\<forall>s. map_of (ms_streams (mc_state mc')) (cons_worker_id c) = Some s \<longrightarrow> now' < stream_retained_until s"
  shows "\<exists>mc'' es. ms = map memory_message es \<and>
    consumer_acknowledge ch now' mc' c (map msg_entry_id ms) = (mc'', Inr (length ms)) \<and>
    (\<forall>i. pending_of (mc_state mc'') (consumer_key c) i =
       (if i \<in> entry_id ` set es then None else pending_of (mc_state mc') (consumer_key c) i))"
proof -
  let ?st = "cleanup_locked now (mc_state mc)" and ?key = "consumer_key c"
  obtain r0 es where r0: "retained_until ch now now (mc_stream_ttl mc) = Inr r0"
    and np: "\<not> mc_poisoned mc"
    and es: "es = take n (filter (\<lambda>e. group_last_delivered (group_or_default ?st ?key) < entry_id e)
        (stream_of ?st (cons_worker_id c)))"
    and ms: "ms = map memory_message es"
    and mc': "mc' = mc\<lparr>mc_state := put_group ?key (deliver (cons_consumer c) now es
        ((group_or_default ?st ?key)\<lparr>group_retained_until := Some r0\<rparr>)) ?st\<rparr>"
    using assms(3) by (rule take_ready_ok)
  let ?g = "deliver (cons_consumer c) now es ((group_or_default ?st ?key)\<lparr>group_retained_until := Some r0\<rparr>)"
  have ok: "state_ok (mc_max_stream_len mc) ?st" using assms(1) by (simp add: coordinator_ok_state)
  have ok': "wakeups_ok (mc_max_stream_len mc) (mc_state mc')"
    using ok_take_ready [OF assms(1), of ch now c n] assms(3) by (simp add: mc' coordinator_ok_def)
  have stored: "map_of (ms_groups (mc_state mc')) ?key = Some ?g" by (simp add: mc' put_group_def)
  have late: "now' < r0" using retained_until_Inr [OF assms(2) r0] assms(4) by simp
  have "map_of (ms_groups (cleanup_locked now' (mc_state mc'))) ?key = Some ?g"
    using assms(6) late by (intro cleanup_group_live [OF ok' stored]) (auto simp: consumer_key_def)
  then have g: "group_or_default (cleanup_locked now' (mc_state mc')) ?key = ?g"
    by (simp add: group_or_default_def)
  have "distinct (map entry_id es)"
    using stream_sorted [OF ok] unfolding es
    by (intro strict_sorted_iff [THEN iffD1, THEN conjunct2])
      (simp add: sorted_take_filter sorted_wrt_map)
  then have count: "snd (remove_pending (map entry_id es) (group_pending ?g)) = length ms"
    by (simp add: remove_pending_count deliver_pending ms filter_True)
  have "map msg_entry_id ms = map (msg_entry_id \<circ> memory_message) es" by (simp add: ms)
  moreover have "retained_until ch now' now' (mc_stream_ttl mc') = Inr r" "\<not> mc_poisoned mc'"
    using assms(5) np by (simp_all add: mc')
  ultimately have "consumer_acknowledge ch now' mc' c (map msg_entry_id ms) =
      (mc'\<lparr>mc_state := put_group ?key (?g\<lparr>group_retained_until := Some r, group_pending :=
         filter (\<lambda>(i, _). i \<notin> set (map entry_id es)) (group_pending ?g)\<rparr>)
         (cleanup_locked now' (mc_state mc'))\<rparr>, Inr (length ms))"
    using acknowledge_eq g count by (simp add: Let_def)
  then show ?thesis
    using ms stored by (auto simp: pending_of_def map_of_filter_key group_or_default_def put_group_def)
qed

theorem acknowledge_delivered_witness:
  "snd (consumer_acknowledge sample_chrono 30
     (fst (take_ready sample_chrono 20 (sample_applied [WakeWorker (WorkerId 2) Effects])
        (sample_consumer (lit ''a'')) 8)) (sample_consumer (lit ''a'')) [lit ''1-0'']) = Inr 1"
proof -
  let ?a = "take_ready sample_chrono 20 (sample_applied [WakeWorker (WorkerId 2) Effects])
    (sample_consumer (lit ''a'')) 8"
  have a: "?a = (fst ?a, Inr (projr (snd ?a)))" by code_simp
  have s: "map_of (ms_streams (mc_state (fst ?a))) (cons_worker_id (sample_consumer (lit ''a''))) =
      Some \<lparr>stream_entries = [\<lparr>entry_id = 1, entry_sequence = ProjectionSequence 1, entry_reason = Effects\<rparr>],
            stream_retained_until = 110\<rparr>" by code_simp
  have ids: "map msg_entry_id (projr (snd ?a)) = [lit ''1-0'']" "length (projr (snd ?a)) = 1"
    by code_simp+
  have "\<exists>mc'' es. projr (snd ?a) = map memory_message es \<and>
    consumer_acknowledge sample_chrono 30 (fst ?a) (sample_consumer (lit ''a''))
      (map msg_entry_id (projr (snd ?a))) = (mc'', Inr (length (projr (snd ?a)))) \<and>
    (\<forall>i. pending_of (mc_state mc'') (consumer_key (sample_consumer (lit ''a''))) i =
       (if i \<in> entry_id ` set es then None
        else pending_of (mc_state (fst ?a)) (consumer_key (sample_consumer (lit ''a''))) i))"
  proof (rule acknowledge_delivered [OF sample_applied_ok sample_chrono_laws a, where r = 130])
    show "\<forall>s. map_of (ms_streams (mc_state (fst ?a))) (cons_worker_id (sample_consumer (lit ''a''))) =
        Some s \<longrightarrow> 30 < stream_retained_until s" unfolding s by simp
  qed code_simp+
  then show ?thesis unfolding ids by auto
qed

lemma take_idle_all:
  assumes "length p \<le> n" "\<not> idle_overflow ch consumer idle p"
  shows "take_idle ch consumer idle now n p = Some (map fst (filter (idle_pending ch consumer idle now) p))"
  using assms
proof (induction p arbitrary: n)
  case Nil
  then show ?case by (cases n) simp_all
next
  case (Cons x p)
  then obtain m where n: "n = Suc m" "length p \<le> m" by (cases n) auto
  have "\<not> idle_overflow ch consumer idle [x]" "\<not> idle_overflow ch consumer idle p"
    using Cons.prems(2) by (auto simp: idle_overflow_def)
  then show ?case using Cons.IH [of m] Cons.IH [of "Suc m"] n by simp
qed

lemma map_of_reclaim:
  "map_of (reclaim c now is p) i =
     map_option (\<lambda>x. if i \<in> is then x\<lparr>pending_consumer := c, pending_delivered_at := now\<rparr> else x) (map_of p i)"
  unfolding reclaim_def by (rule map_of_map_snd)

lemma reclaimed_iff:
  assumes "group_ok es n g" "map_of (group_pending g) i = Some p"
  shows "i \<in> entry_id ` set (filter (\<lambda>e. entry_id e \<in> set (map fst (filter P (group_pending g)))) es) \<longleftrightarrow>
    P (i, p)"
proof -
  have d: "keys_distinct (group_pending g)" using assms(1) by (simp add: group_ok_def)
  have mem: "(i, p) \<in> set (group_pending g)" using assms(2) in_map_of [OF d] by blast
  have "i \<in> entry_id ` set es" using assms(1) mem by (auto simp: group_ok_def list_all_iff)
  moreover have "i \<in> set (map fst (filter P (group_pending g))) \<longleftrightarrow> P (i, p)"
    using key_in_retain [OF d mem, of P] by simp
  moreover have "i \<in> entry_id ` set (filter (\<lambda>e. entry_id e \<in> A) es) \<longleftrightarrow>
      i \<in> entry_id ` set es \<and> i \<in> A" for A
    by auto
  ultimately show ?thesis by blast
qed

lemma idle_pending_iff:
  assumes "chrono_laws ch" "\<not> idle_overflow ch consumer d pending" "map_of pending i = Some p"
  shows "idle_pending ch consumer d now (i, p) \<longleftrightarrow>
    pending_consumer p \<noteq> consumer \<and> pending_delivered_at p + d \<le> now"
proof -
  have "(i, p) \<in> set pending" using assms(3) by (rule map_of_SomeD)
  then have "pending_consumer p \<noteq> consumer \<Longrightarrow>
      \<exists>t. checked_add_signed ch (pending_delivered_at p) d = Some t"
    using assms(2) by (fastforce simp: idle_overflow_def list_ex_iff)
  then show ?thesis
    using assms(1) by (auto simp: idle_pending_def chrono_laws_def split: option.splits)
qed

text \<open>A delivery to another consumer that is at least \<open>min_idle\<close> old.\<close>

definition left_idle :: "MemoryWakeupConsumer \<Rightarrow> duration \<Rightarrow> time \<Rightarrow> PendingWakeup \<Rightarrow> bool" where
  "left_idle c min_idle now p \<longleftrightarrow>
     pending_consumer p \<noteq> cons_consumer c \<and> pending_delivered_at p + int min_idle \<le> now"

text \<open>
  Deliveries that another consumer of the group has left idle are recovered. With room for
  all pending deliveries, an automatic claim returns every delivery of another consumer that has
  been idle for \<open>min_idle\<close>, makes the claiming consumer its owner from \<open>now\<close> on, and leaves
  every other delivery as it was.
\<close>

theorem auto_claim_recovers:
  assumes "coordinator_ok mc" "\<not> mc_poisoned mc" "chrono_laws ch"
    "0 < min_idle" "0 < n" "n \<le> 1024" "delta_from_std ch min_idle = Some idle"
    "retained_until ch now now (mc_stream_ttl mc) = Inr r"
    "length (group_pending (group_or_default (cleanup_locked now (mc_state mc)) (consumer_key c))) \<le> n"
    "\<not> idle_overflow ch (cons_consumer c) idle
       (group_pending (group_or_default (cleanup_locked now (mc_state mc)) (consumer_key c)))"
  shows "\<exists>mc' ms. auto_claim ch now mc c min_idle n = (mc', Some (Inr ms)) \<and>
    (\<forall>i p. pending_of (cleanup_locked now (mc_state mc)) (consumer_key c) i = Some p \<and>
       left_idle c min_idle now p \<longrightarrow> stream_entry_id i \<in> set (map msg_entry_id ms)) \<and>
    (\<forall>i. pending_of (mc_state mc') (consumer_key c) i =
       map_option (\<lambda>p. if left_idle c min_idle now p
           then \<lparr>pending_consumer = cons_consumer c, pending_delivered_at = now\<rparr> else p)
         (pending_of (cleanup_locked now (mc_state mc)) (consumer_key c) i))"
proof -
  let ?st = "cleanup_locked now (mc_state mc)" and ?key = "consumer_key c"
  define g where "g = group_or_default ?st ?key"
  define eligible where "eligible = map fst (filter (idle_pending ch (cons_consumer c) idle now) (group_pending g))"
  define es where "es = filter (\<lambda>e. entry_id e \<in> set eligible) (stream_of ?st (cons_worker_id c))"
  define g' where "g' = g\<lparr>group_retained_until := Some r, group_pending :=
    reclaim (cons_consumer c) now (entry_id ` set es) (group_pending g)\<rparr>"
  have run: "auto_claim ch now mc c min_idle n =
      (mc\<lparr>mc_state := put_group ?key g' ?st\<rparr>, Some (Inr (map memory_message es)))"
    using assms take_idle_all [OF assms(9,10), of now]
    by (simp add: auto_claim_def Let_def put_group_twice g_def g'_def es_def eligible_def)
  have ok: "group_ok (stream_of ?st (cons_worker_id c)) (ms_next_stream_id ?st) g"
    using group_of_ok [OF state_ok_cleanup [OF coordinator_ok_state [OF assms(1)]], of now ?key]
    by (simp add: g_def consumer_key_def)
  have idle: "idle = int min_idle" using assms(3,7) by (auto simp: chrono_laws_def)
  have reclaimed: "i \<in> entry_id ` set es \<longleftrightarrow> idle_pending ch (cons_consumer c) idle now (i, p)"
    if "map_of (group_pending g) i = Some p" for i p
    using reclaimed_iff [OF ok that] by (simp add: es_def eligible_def)
  have due: "i \<in> entry_id ` set es \<longleftrightarrow> left_idle c min_idle now p"
    if "map_of (group_pending g) i = Some p" for i p
    using reclaimed [OF that] idle_pending_iff [OF assms(3) assms(10) [folded g_def] that]
    by (simp add: idle left_idle_def)
  have "stream_entry_id i \<in> set (map msg_entry_id (map memory_message es))"
    if "pending_of ?st ?key i = Some p" "left_idle c min_idle now p" for i p
    using due that by (auto simp: pending_of_def g_def [symmetric] memory_message_def)
  moreover have "pending_of (put_group ?key g' ?st) ?key i = map_option (\<lambda>p. if left_idle c min_idle now p
      then \<lparr>pending_consumer = cons_consumer c, pending_delivered_at = now\<rparr> else p) (pending_of ?st ?key i)" for i
    using due [of i]
    by (cases "map_of (group_pending g) i")
      (simp_all add: pending_of_def g'_def g_def [symmetric] map_of_reclaim)
  ultimately show ?thesis unfolding run by (intro exI conjI) (auto simp del: set_map map_map)
qed

theorem auto_claim_recovers_witness:
  "snd (auto_claim sample_chrono 60
     (fst (take_ready sample_chrono 20 (sample_applied [WakeWorker (WorkerId 2) Effects])
        (sample_consumer (lit ''a'')) 8)) (sample_consumer (lit ''b'')) 30 8) \<noteq> None \<and>
   (\<exists>mc' ms. auto_claim sample_chrono 60
     (fst (take_ready sample_chrono 20 (sample_applied [WakeWorker (WorkerId 2) Effects])
        (sample_consumer (lit ''a'')) 8)) (sample_consumer (lit ''b'')) 30 8 = (mc', Some (Inr ms)) \<and>
     lit ''1-0'' \<in> set (map msg_entry_id ms) \<and>
     pending_of (mc_state mc') (consumer_key (sample_consumer (lit ''b''))) 1 =
       Some \<lparr>pending_consumer = lit ''b'', pending_delivered_at = 60\<rparr>)"
proof -
  let ?mc = "fst (take_ready sample_chrono 20 (sample_applied [WakeWorker (WorkerId 2) Effects])
    (sample_consumer (lit ''a'')) 8)"
  let ?c = "sample_consumer (lit ''b'')" and ?p = "\<lparr>pending_consumer = lit ''a'', pending_delivered_at = 20\<rparr>"
  have ok: "coordinator_ok ?mc" by (simp add: ok_take_ready)
  have p: "pending_of (cleanup_locked 60 (mc_state ?mc)) (consumer_key ?c) 1 = Some ?p"
    "left_idle ?c 30 60 ?p" "stream_entry_id 1 = lit ''1-0''" "cons_consumer ?c = lit ''b''"
    by code_simp+
  have prem: "\<not> mc_poisoned ?mc" "0 < (30 :: nat)" "0 < (8 :: nat)" "(8 :: nat) \<le> 1024"
    "delta_from_std sample_chrono 30 = Some 30"
    "retained_until sample_chrono 60 60 (mc_stream_ttl ?mc) = Inr 160"
    "length (group_pending (group_or_default (cleanup_locked 60 (mc_state ?mc)) (consumer_key ?c))) \<le> 8"
    "\<not> idle_overflow sample_chrono (cons_consumer ?c) 30
       (group_pending (group_or_default (cleanup_locked 60 (mc_state ?mc)) (consumer_key ?c)))"
    by code_simp+
  obtain mc' ms where run: "auto_claim sample_chrono 60 ?mc ?c 30 8 = (mc', Some (Inr ms)) \<and>
    (\<forall>i p. pending_of (cleanup_locked 60 (mc_state ?mc)) (consumer_key ?c) i = Some p \<and>
       left_idle ?c 30 60 p \<longrightarrow> stream_entry_id i \<in> set (map msg_entry_id ms)) \<and>
    (\<forall>i. pending_of (mc_state mc') (consumer_key ?c) i =
       map_option (\<lambda>p. if left_idle ?c 30 60 p
           then \<lparr>pending_consumer = cons_consumer ?c, pending_delivered_at = 60\<rparr> else p)
         (pending_of (cleanup_locked 60 (mc_state ?mc)) (consumer_key ?c) i))"
    using auto_claim_recovers [OF ok prem(1) sample_chrono_laws prem(2-8)] by blast
  then have "stream_entry_id 1 \<in> set (map msg_entry_id ms)" using p(1,2) by blast
  moreover have "pending_of (mc_state mc') (consumer_key ?c) 1 =
      Some \<lparr>pending_consumer = cons_consumer ?c, pending_delivered_at = 60\<rparr>"
    using run p(1,2) by simp
  ultimately show ?thesis using run p(3,4) by auto
qed

lemma take_idle_overflow:
  assumes "length p \<le> n" "idle_overflow ch consumer idle p"
  shows "take_idle ch consumer idle now n p = None"
  using assms
proof (induction p arbitrary: n)
  case (Cons x p)
  then obtain m where n: "n = Suc m" "length p \<le> m" by (cases n) auto
  have "idle_overflow ch consumer idle [x] \<or> idle_overflow ch consumer idle p"
    using Cons.prems(2) by (auto simp: idle_overflow_def)
  then show ?case using Cons.IH [of m] Cons.IH [of "Suc m"] n by auto
qed (simp add: idle_overflow_def)

text \<open>
  C17: an idle time so large that its addition to a delivery time overflows makes the automatic
  claim panic while it holds the mutex. The coordinator is poisoned: every valid event is refused
  as unavailable from then on.
\<close>

theorem auto_claim_overflow_poisons:
  assumes "\<not> mc_poisoned mc" "0 < min_idle" "0 < n" "n \<le> 1024"
    "delta_from_std ch min_idle = Some idle" "retained_until ch now now (mc_stream_ttl mc) = Inr r"
    "length (group_pending (group_or_default (cleanup_locked now (mc_state mc)) (consumer_key c))) \<le> n"
    "idle_overflow ch (cons_consumer c) idle
       (group_pending (group_or_default (cleanup_locked now (mc_state mc)) (consumer_key c)))"
    "event_validate ch event = Inr ()" "event_deployment event = mc_deployment mc"
  shows "snd (auto_claim ch now mc c min_idle n) = None \<and>
    snd (coordinator_apply ch t0 t1 t2 (fst (auto_claim ch now mc c min_idle n)) event) = Inl Unavailable"
  using assms take_idle_overflow [OF assms(7,8), of now]
  by (simp add: auto_claim_def coordinator_apply_def Let_def)

theorem auto_claim_overflow_poisons_witness:
  "snd (auto_claim sample_chrono 60
     (fst (take_ready sample_chrono 20 (sample_applied [WakeWorker (WorkerId 2) Effects])
        (sample_consumer (lit ''a'')) 8)) (sample_consumer (lit ''b'')) (2 ^ 80) 8) = None \<and>
   snd (coordinator_apply sample_chrono 70 70 70 (fst (auto_claim sample_chrono 60
     (fst (take_ready sample_chrono 20 (sample_applied [WakeWorker (WorkerId 2) Effects])
        (sample_consumer (lit ''a'')) 8)) (sample_consumer (lit ''b'')) (2 ^ 80) 8))
     (sample_event 2 (WakeWorker (WorkerId 2) Controls))) = Inl Unavailable"
proof -
  let ?mc = "fst (take_ready sample_chrono 20 (sample_applied [WakeWorker (WorkerId 2) Effects])
    (sample_consumer (lit ''a'')) 8)"
  let ?c = "sample_consumer (lit ''b'')"
  have delta: "delta_from_std sample_chrono (2 ^ 80) = Some (2 ^ 80)"
    by (simp add: sample_chrono_def)
  have "\<not> mc_poisoned ?mc"
    "retained_until sample_chrono 60 60 (mc_stream_ttl ?mc) = Inr 160"
    "length (group_pending (group_or_default (cleanup_locked 60 (mc_state ?mc)) (consumer_key ?c))) \<le> 8"
    "idle_overflow sample_chrono (cons_consumer ?c) (2 ^ 80)
       (group_pending (group_or_default (cleanup_locked 60 (mc_state ?mc)) (consumer_key ?c)))"
    "event_validate sample_chrono (sample_event 2 (WakeWorker (WorkerId 2) Controls)) = Inr ()"
    "event_deployment (sample_event 2 (WakeWorker (WorkerId 2) Controls)) = mc_deployment ?mc"
    by code_simp+
  from auto_claim_overflow_poisons [OF this(1) _ _ _ delta this(2-6)] show ?thesis by simp
qed

end
