(* ===== verification/Coord_Outbox.thy ===== *)
theory Coord_Outbox
  imports Coord_Delivery
begin

text \<open>
  The ordered outbox of \<open>src/coordination/outbox.rs\<close>: the records and their life cycle, the
  standalone outbox (\<open>MemoryCoordinationOutbox\<close>), and the projector that applies claimed events
  and acknowledges them. A \<open>BTreeMap\<close> is the list of its entries in key order.
\<close>

section \<open>Records\<close>

datatype CoordinationOutboxState =
  Ready
| Claimed rstr CoordinationClaimGeneration time time
| Applied time

record CoordinationOutboxRecord =
  rec_event :: CoordinationEvent
  rec_state :: CoordinationOutboxState

record CoordinationOutboxClaim =
  claim_record :: CoordinationOutboxRecord
  claim_generation :: CoordinationClaimGeneration

record MemoryOutboxState =
  os_last_sequence :: "ProjectionSequence option"
  os_records :: "(ProjectionSequence \<times> CoordinationOutboxRecord) list"

record MemoryCoordinationOutbox =
  mo_deployment :: DeploymentId
  mo_poisoned :: bool
  mo_state :: MemoryOutboxState

definition MemoryCoordinationOutbox_new :: "DeploymentId \<Rightarrow> MemoryCoordinationOutbox" where
  "MemoryCoordinationOutbox_new deployment =
     \<lparr>mo_deployment = deployment, mo_poisoned = False,
      mo_state = \<lparr>os_last_sequence = None, os_records = []\<rparr>\<rparr>"

text \<open>\<open>BTreeMap::insert\<close>.\<close>

fun btree_insert :: "'k :: linorder \<Rightarrow> 'v \<Rightarrow> ('k \<times> 'v) list \<Rightarrow> ('k \<times> 'v) list" where
  "btree_insert k v [] = [(k, v)]"
| "btree_insert k v ((k', v') # m) =
     (if k < k' then (k, v) # (k', v') # m
      else if k = k' then (k, v) # m
      else (k', v') # btree_insert k v m)"

definition outbox_append ::
    "chrono \<Rightarrow> time \<Rightarrow> MemoryCoordinationOutbox \<Rightarrow> CoordinationPayload \<Rightarrow>
     MemoryCoordinationOutbox \<times> (CoordinationError, CoordinationOutboxRecord) result" where
  "outbox_append ch now ob payload =
     (if mo_poisoned ob then (ob, Inl Unavailable)
      else case (case os_last_sequence (mo_state ob) of
                   Some s \<Rightarrow> sequence_next s | None \<Rightarrow> Inr sequence_initial) of
        Inl e \<Rightarrow> (ob, Inl e)
      | Inr sequence \<Rightarrow>
          let event = \<lparr>event_deployment = mo_deployment ob, event_sequence = sequence,
                       event_payload = payload, event_recorded_at = now\<rparr>
          in case event_validate ch event of
               Inl e \<Rightarrow> (ob, Inl e)
             | Inr _ \<Rightarrow>
                 let record = \<lparr>rec_event = event, rec_state = Ready\<rparr>
                 in (ob\<lparr>mo_state := \<lparr>os_last_sequence = Some sequence,
                        os_records = btree_insert sequence record (os_records (mo_state ob))\<rparr>\<rparr>,
                     Inr record))"

definition outbox_record ::
    "MemoryCoordinationOutbox \<Rightarrow> ProjectionSequence \<Rightarrow>
     (CoordinationError, CoordinationOutboxRecord option) result" where
  "outbox_record ob sequence =
     (if mo_poisoned ob then Inl Unavailable else Inr (map_of (os_records (mo_state ob)) sequence))"

definition validate_projector :: "rstr \<Rightarrow> (CoordinationError, unit) result" where
  "validate_projector projector =
     guard_err (projector = [] \<or> utf8_len projector > 128 \<or>
         list_ex (\<lambda>b. ascii_whitespace b \<or> ascii_control b) projector)
       (InvalidInput ''invalid coordination projector ID'')"

text \<open>
  The loop of \<open>claim\<close> over the records in sequence order, with room for \<open>limit\<close> more claims:
  applied records are skipped, an unexpired claim ends the loop, and an exhausted generation is an
  error that leaves the claims made so far in the records.
\<close>

fun claim_records ::
    "rstr \<Rightarrow> time \<Rightarrow> time \<Rightarrow> nat \<Rightarrow> (ProjectionSequence \<times> CoordinationOutboxRecord) list \<Rightarrow>
     (ProjectionSequence \<times> CoordinationOutboxRecord) list \<times>
     (CoordinationError, CoordinationOutboxClaim list) result" where
  "claim_records projector now expires_at limit [] = ([], Inr [])"
| "claim_records projector now expires_at limit ((k, record) # records) =
     (if limit = 0 then ((k, record) # records, Inr [])
      else
        let take = (\<lambda>previous.
              case claim_next previous of
                Inl e \<Rightarrow> ((k, record) # records, Inl e)
              | Inr generation \<Rightarrow>
                  let record =
                        record\<lparr>rec_state := Claimed projector generation now expires_at\<rparr>;
                      (records, r) = claim_records projector now expires_at (limit - 1) records
                  in ((k, record) # records,
                      map_sum id ((#) \<lparr>claim_record = record, claim_generation = generation\<rparr>) r))
        in case rec_state record of
             Applied _ \<Rightarrow>
               let (records, r) = claim_records projector now expires_at limit records
               in ((k, record) # records, r)
           | Ready \<Rightarrow> take claim_generation_default
           | Claimed _ generation _ expires \<Rightarrow>
               if expires \<le> now then take generation else ((k, record) # records, Inr []))"

definition outbox_claim ::
    "chrono \<Rightarrow> time \<Rightarrow> MemoryCoordinationOutbox \<Rightarrow> rstr \<Rightarrow> duration \<Rightarrow> nat \<Rightarrow>
     MemoryCoordinationOutbox \<times> (CoordinationError, CoordinationOutboxClaim list) result" where
  "outbox_claim ch now ob projector claim_ttl limit =
     (case and_then (validate_projector projector) (\<lambda>_.
             and_then (guard_err (limit = 0 \<or> limit > 1024) (InvalidInput ''invalid coordination claim limit''))
               (\<lambda>_. checked_claim_expiry ch now claim_ttl)) of
        Inl e \<Rightarrow> (ob, Inl e)
      | Inr expires_at \<Rightarrow>
     if mo_poisoned ob then (ob, Inl Unavailable)
     else
       let (records, r) = claim_records projector now expires_at limit (os_records (mo_state ob))
       in (ob\<lparr>mo_state := (mo_state ob)\<lparr>os_records := records\<rparr>\<rparr>, r))"

text \<open>\<open>get_mut\<close> followed by an assignment of the state.\<close>

definition set_state ::
    "ProjectionSequence \<Rightarrow> CoordinationOutboxState \<Rightarrow>
     (ProjectionSequence \<times> CoordinationOutboxRecord) list \<Rightarrow>
     (ProjectionSequence \<times> CoordinationOutboxRecord) list" where
  "set_state sequence s = map (\<lambda>(k, record). (k, if k = sequence then record\<lparr>rec_state := s\<rparr> else record))"

definition outbox_acknowledge ::
    "time \<Rightarrow> MemoryCoordinationOutbox \<Rightarrow> ProjectionSequence \<Rightarrow> rstr \<Rightarrow> CoordinationClaimGeneration \<Rightarrow>
     MemoryCoordinationOutbox \<times> (CoordinationError, unit) result" where
  "outbox_acknowledge now ob sequence projector generation =
     (case validate_projector projector of
        Inl e \<Rightarrow> (ob, Inl e)
      | Inr _ \<Rightarrow>
     if mo_poisoned ob then (ob, Inl Unavailable)
     else case map_of (os_records (mo_state ob)) sequence of
        None \<Rightarrow> (ob, Inl StaleClaim)
      | Some record \<Rightarrow>
          (case rec_state record of
             Claimed owner g claimed_at expires_at \<Rightarrow>
               if owner = projector \<and> g = generation \<and> claimed_at \<le> now \<and> now < expires_at
               then (ob\<lparr>mo_state := (mo_state ob)
                      \<lparr>os_records := set_state sequence (Applied now) (os_records (mo_state ob))\<rparr>\<rparr>,
                     Inr ())
               else (ob, Inl StaleClaim)
           | _ \<Rightarrow> (ob, Inl StaleClaim)))"

section \<open>The projector\<close>

text \<open>
  \<open>project_once\<close> for any outbox state and any projection state. The operations of the two
  components are arguments: the \<open>i\<close>-th event of a batch is applied by \<open>apply i\<close> and acknowledged
  by \<open>ack i\<close>, so that each call has its own reading of the clock.
\<close>

fun project_claims ::
    "(nat \<Rightarrow> 'p \<Rightarrow> CoordinationEvent \<Rightarrow> 'p \<times> (CoordinationError, ProjectionApplyOutcome) result) \<Rightarrow>
     (nat \<Rightarrow> 'o \<Rightarrow> ProjectionSequence \<Rightarrow> CoordinationClaimGeneration \<Rightarrow> 'o \<times> (CoordinationError, unit) result) \<Rightarrow>
     nat \<Rightarrow> CoordinationOutboxClaim list \<Rightarrow> 'o \<Rightarrow> 'p \<Rightarrow> 'o \<times> 'p \<times> (CoordinationError, nat) result" where
  "project_claims apply ack i [] ob p = (ob, p, Inr 0)"
| "project_claims apply ack i (claim # claims) ob p =
     (case apply i p (rec_event (claim_record claim)) of
        (p, Inl e) \<Rightarrow> (ob, p, Inl e)
      | (p, Inr _) \<Rightarrow>
          (case ack i ob (event_sequence (rec_event (claim_record claim))) (claim_generation claim) of
             (ob, Inl e) \<Rightarrow> (ob, p, Inl e)
           | (ob, Inr _) \<Rightarrow>
               (case project_claims apply ack (Suc i) claims ob p of
                  (ob, p, r) \<Rightarrow> (ob, p, map_sum id Suc r))))"

definition project_once ::
    "('o \<Rightarrow> 'o \<times> (CoordinationError, CoordinationOutboxClaim list) result) \<Rightarrow>
     (nat \<Rightarrow> 'p \<Rightarrow> CoordinationEvent \<Rightarrow> 'p \<times> (CoordinationError, ProjectionApplyOutcome) result) \<Rightarrow>
     (nat \<Rightarrow> 'o \<Rightarrow> ProjectionSequence \<Rightarrow> CoordinationClaimGeneration \<Rightarrow> 'o \<times> (CoordinationError, unit) result) \<Rightarrow>
     'o \<Rightarrow> 'p \<Rightarrow> 'o \<times> 'p \<times> (CoordinationError, nat) result" where
  "project_once claim apply ack ob p =
     (case claim ob of
        (ob, Inl e) \<Rightarrow> (ob, p, Inl e)
      | (ob, Inr claims) \<Rightarrow> project_claims apply ack 0 claims ob p)"

record CoordinationProjector =
  proj_projector :: rstr
  proj_claim_ttl :: duration
  proj_batch_size :: nat

definition CoordinationProjector_new ::
    "chrono \<Rightarrow> time \<Rightarrow> rstr \<Rightarrow> duration \<Rightarrow> nat \<Rightarrow> (CoordinationError, CoordinationProjector) result" where
  "CoordinationProjector_new ch now projector claim_ttl batch_size =
     and_then (validate_projector projector) (\<lambda>_.
     and_then (guard_err (batch_size = 0 \<or> batch_size > 1024) (InvalidInput ''invalid projector batch size'')) (\<lambda>_.
     and_then (checked_claim_expiry ch now claim_ttl) (\<lambda>_.
       Inr \<lparr>proj_projector = projector, proj_claim_ttl = claim_ttl, proj_batch_size = batch_size\<rparr>)))"

section \<open>Invariant\<close>

fun is_applied :: "CoordinationOutboxState \<Rightarrow> bool" where
  "is_applied (Applied _) = True"
| "is_applied _ = False"

type_synonym outbox_records = "(ProjectionSequence \<times> CoordinationOutboxRecord) list"

definition sequences_to :: "nat \<Rightarrow> ProjectionSequence list" where
  "sequences_to n = map (\<lambda>i. ProjectionSequence (of_nat i)) [1..<Suc n]"

text \<open>The records are numbered from one without gaps, and each is stored under its own number.\<close>

definition outbox_ok :: "MemoryCoordinationOutbox \<Rightarrow> bool" where
  "outbox_ok ob \<longleftrightarrow>
     (let records = os_records (mo_state ob); n = length records in
      n < 2 ^ 63 \<and> map fst records = sequences_to n \<and>
      os_last_sequence (mo_state ob) = (if n = 0 then None else Some (ProjectionSequence (of_nat n))) \<and>
      list_all (\<lambda>(k, r). event_sequence (rec_event r) = k \<and>
        event_deployment (rec_event r) = mo_deployment ob) records)"

definition record_events :: "outbox_records \<Rightarrow> (ProjectionSequence \<times> CoordinationEvent) list" where
  "record_events = map (\<lambda>(k, r). (k, rec_event r))"

definition unapplied_of :: "outbox_records \<Rightarrow> CoordinationEvent list" where
  "unapplied_of records =
     map (rec_event \<circ> snd) (filter (\<lambda>p. \<not> is_applied (rec_state (snd p))) records)"

definition unapplied :: "MemoryCoordinationOutbox \<Rightarrow> CoordinationEvent list" where
  "unapplied ob = unapplied_of (os_records (mo_state ob))"

abbreviation claim_event :: "CoordinationOutboxClaim \<Rightarrow> CoordinationEvent" where
  "claim_event c \<equiv> rec_event (claim_record c)"

lemma record_events_keys: "map fst (record_events rs) = map fst rs"
  by (simp add: record_events_def split_beta)

lemma outbox_ok_events:
  "outbox_ok ob \<longleftrightarrow>
     (let es = record_events (os_records (mo_state ob)); n = length es in
      n < 2 ^ 63 \<and> map fst es = sequences_to n \<and>
      os_last_sequence (mo_state ob) = (if n = 0 then None else Some (ProjectionSequence (of_nat n))) \<and>
      list_all (\<lambda>(k, e). event_sequence e = k \<and> event_deployment e = mo_deployment ob) es)"
  by (simp add: outbox_ok_def Let_def record_events_keys)
    (simp add: record_events_def list_all_iff split_beta)

lemma claim_records_cases:
  obtains
    (stop) "claim_records p now ex n ((k, r) # rs) = ((k, r) # rs, Inr [])"
  | (error) e where "claim_records p now ex n ((k, r) # rs) = ((k, r) # rs, Inl e)"
  | (skip) t where "rec_state r = Applied t"
      "claim_records p now ex n ((k, r) # rs) =
         ((k, r) # fst (claim_records p now ex n rs), snd (claim_records p now ex n rs))"
  | (claim) g m where "n = Suc m" "\<not> is_applied (rec_state r)"
      "rec_state r = Ready \<and> g = CoordinationClaimGeneration 1 \<or>
       (\<exists>q g0 c0 e0. rec_state r = Claimed q g0 c0 e0 \<and> e0 \<le> now \<and> claim_next g0 = Inr g)"
      "claim_records p now ex n ((k, r) # rs) =
         ((k, r\<lparr>rec_state := Claimed p g now ex\<rparr>) # fst (claim_records p now ex m rs),
          map_sum id ((#) \<lparr>claim_record = r\<lparr>rec_state := Claimed p g now ex\<rparr>, claim_generation = g\<rparr>)
            (snd (claim_records p now ex m rs)))"
proof (cases n)
  case (Suc m)
  have initial: "claim_next claim_generation_default = Inr (CoordinationClaimGeneration 1)"
    by (simp add: claim_next_def claim_generation_default_def MAX_PERSISTED_GENERATION_def)
  show ?thesis
  proof (cases "rec_state r")
    case Ready
    then show ?thesis
      using claim [OF Suc, of "CoordinationClaimGeneration 1"] Suc initial by (simp add: split_beta Let_def)
  next
    case (Claimed q g0 c0 e0)
    then show ?thesis
      using claim [OF Suc] error stop Suc
      by (cases "e0 \<le> now"; cases "claim_next g0") (simp_all add: split_beta Let_def)
  next
    case (Applied t)
    then show ?thesis using skip Suc by (simp add: split_beta)
  qed
qed (use stop in simp)

lemma claim_records_events: "record_events (fst (claim_records p now ex n rs)) = record_events rs"
proof (induction rs arbitrary: n)
  case (Cons x rs)
  obtain k r where x: "x = (k, r)" by fastforce
  show ?case
    unfolding x by (cases rule: claim_records_cases [of p now ex n k r rs])
      (use Cons in \<open>simp_all add: record_events_def\<close>)
qed simp

lemma claim_records_unapplied: "unapplied_of (fst (claim_records p now ex n rs)) = unapplied_of rs"
proof (induction rs arbitrary: n)
  case (Cons x rs)
  obtain k r where x: "x = (k, r)" by fastforce
  show ?case
    unfolding x by (cases rule: claim_records_cases [of p now ex n k r rs])
      (use Cons in \<open>simp_all add: unapplied_of_def\<close>)
qed simp

lemma claim_records_prefix:
  "snd (claim_records p now ex n rs) = Inr cs \<Longrightarrow>
   \<exists>rest. unapplied_of rs = map claim_event cs @ rest"
proof (induction rs arbitrary: n cs)
  case (Cons x rs)
  obtain k r where x: "x = (k, r)" by fastforce
  show ?case
  proof (cases rule: claim_records_cases [of p now ex n k r rs])
    case (claim g m)
    then obtain ds where "snd (claim_records p now ex m rs) = Inr ds"
        "cs = \<lparr>claim_record = r\<lparr>rec_state := Claimed p g now ex\<rparr>, claim_generation = g\<rparr> # ds"
      using Cons.prems x by (cases "snd (claim_records p now ex m rs)") auto
    then show ?thesis using Cons.IH claim(2) x by (auto simp: unapplied_of_def)
  qed (use Cons x in \<open>auto simp: unapplied_of_def\<close>)
qed simp

lemma set_state_keys: "map fst (set_state s v rs) = map fst rs"
  by (simp add: set_state_def split_beta)

lemma set_state_events: "record_events (set_state s v rs) = record_events rs"
  by (simp add: set_state_def record_events_def split_beta)

lemma set_state_lookup:
  "map_of (set_state s v rs) k = map_option (\<lambda>r. if k = s then r\<lparr>rec_state := v\<rparr> else r) (map_of rs k)"
  unfolding set_state_def by (rule map_of_map_snd)

lemma set_state_unapplied:
  assumes "list_all (\<lambda>(k, r). event_sequence (rec_event r) = k) rs"
  shows "unapplied_of (set_state s (Applied t) rs) = filter (\<lambda>e. event_sequence e \<noteq> s) (unapplied_of rs)"
  using assms by (induction rs) (auto simp: set_state_def unapplied_of_def)

lemma unat_of_nat_63: "i < 2 ^ 63 \<Longrightarrow> unat (of_nat i :: u64) = i"
  by (simp add: unat_of_nat)

lemma sequences_distinct: "n < 2 ^ 63 \<Longrightarrow> distinct (sequences_to n)"
proof -
  assume n: "n < 2 ^ 63"
  have "inj_on (\<lambda>i. ProjectionSequence (of_nat i)) (set [1..<Suc n])"
  proof (rule inj_onI)
    fix i j
    assume ij: "i \<in> set [1..<Suc n]" "j \<in> set [1..<Suc n]"
      "ProjectionSequence (of_nat i) = ProjectionSequence (of_nat j)"
    then have "i < 2 ^ 63" "j < 2 ^ 63" using n by (auto intro: le_less_trans)
    then show "i = j" using unat_of_nat_63 ij(3) by (metis ProjectionSequence.inject)
  qed
  then show ?thesis by (simp add: sequences_to_def distinct_map)
qed

lemma outbox_keys: "outbox_ok ob \<Longrightarrow> keys_distinct (os_records (mo_state ob))"
  unfolding outbox_ok_def Let_def by (metis sequences_distinct)

lemma unapplied_distinct:
  assumes "outbox_ok ob"
  shows "distinct (map event_sequence (unapplied ob))"
proof -
  have "map event_sequence (unapplied ob) =
      map fst (filter (\<lambda>p. \<not> is_applied (rec_state (snd p))) (os_records (mo_state ob)))"
    using assms by (auto simp: unapplied_def unapplied_of_def outbox_ok_def Let_def list_all_iff)
  then show ?thesis using outbox_keys [OF assms] by simp
qed

lemma btree_insert_last:
  "\<forall>k'\<in>fst ` set m. k' < k \<Longrightarrow> btree_insert k v m = m @ [(k, v)]"
  by (induction k v m rule: btree_insert.induct) auto

lemma sequences_below:
  assumes "Suc n < 2 ^ 63" "k \<in> set (sequences_to n)"
  shows "k < ProjectionSequence (of_nat (Suc n))"
proof -
  obtain i where "1 \<le> i" "i \<le> n" "k = ProjectionSequence (of_nat i)"
    using assms(2) by (auto simp: sequences_to_def)
  then show ?thesis
    using assms(1) unat_of_nat_63 [of i] unat_of_nat_63 [of "Suc n"]
    by (simp add: less_ProjectionSequence_def word_less_nat_alt del: of_nat_Suc)
qed

lemma append_sequence:
  assumes "outbox_ok ob" "n = length (os_records (mo_state ob))"
    "(case os_last_sequence (mo_state ob) of Some s \<Rightarrow> sequence_next s | None \<Rightarrow> Inr sequence_initial) = Inr s"
  shows "Suc n < 2 ^ 63 \<and> s = ProjectionSequence (of_nat (Suc n))"
proof (cases "n = 0")
  case True
  then show ?thesis using assms by (auto simp: outbox_ok_def Let_def sequence_initial_def)
next
  case False
  then have "os_last_sequence (mo_state ob) = Some (ProjectionSequence (of_nat n))" "n < 2 ^ 63"
    using assms(1,2) by (auto simp: outbox_ok_def Let_def)
  then have "sequence_next (ProjectionSequence (of_nat n)) = Inr s" using assms(3) by simp
  then have "of_nat n < MAX_PERSISTED_GENERATION" "s = ProjectionSequence (of_nat (Suc n))"
    by (auto simp: sequence_next_def not_le add.commute split: if_splits)
  moreover have "unat MAX_PERSISTED_GENERATION = 2 ^ 63 - 1"
    by (simp add: MAX_PERSISTED_GENERATION_def)
  ultimately show ?thesis
    using unat_of_nat_63 [OF \<open>n < 2 ^ 63\<close>] by (simp add: word_less_nat_alt)
qed

lemma ok_append:
  assumes "outbox_ok ob"
  shows "outbox_ok (fst (outbox_append ch now ob payload))"
proof (cases "snd (outbox_append ch now ob payload)")
  case (Inl e)
  then show ?thesis
    using assms by (auto simp: outbox_append_def Let_def split: sum.splits if_splits option.splits)
next
  case (Inr rec)
  let ?rs = "os_records (mo_state ob)"
  obtain s where s: "(case os_last_sequence (mo_state ob) of Some s \<Rightarrow> sequence_next s
      | None \<Rightarrow> Inr sequence_initial) = Inr s" "event_sequence (rec_event rec) = s"
      "event_deployment (rec_event rec) = mo_deployment ob"
      "fst (outbox_append ch now ob payload) =
        ob\<lparr>mo_state := \<lparr>os_last_sequence = Some s, os_records = btree_insert s rec ?rs\<rparr>\<rparr>"
    using Inr by (auto simp: outbox_append_def Let_def split: sum.splits if_splits)
  have n: "Suc (length ?rs) < 2 ^ 63" "s = ProjectionSequence (of_nat (Suc (length ?rs)))"
    using append_sequence [OF assms refl s(1)] by auto
  have keys: "map fst ?rs = sequences_to (length ?rs)" using assms by (simp add: outbox_ok_def Let_def)
  have "\<forall>k\<in>fst ` set ?rs. k < s"
    using sequences_below [OF n(1)] n(2) keys by (metis list.set_map)
  then have "btree_insert s rec ?rs = ?rs @ [(s, rec)]" by (rule btree_insert_last)
  moreover have "sequences_to (Suc m) = sequences_to m @ [ProjectionSequence (of_nat (Suc m))]" for m
    by (simp add: sequences_to_def)
  ultimately show ?thesis
    using assms s(2-) n keys by (simp add: outbox_ok_def Let_def del: of_nat_Suc)
qed

lemma ok_claim:
  assumes "outbox_ok ob"
  shows "outbox_ok (fst (outbox_claim ch now ob p ttl n))"
proof -
  have "outbox_ok (ob\<lparr>mo_state := (mo_state ob)\<lparr>os_records :=
      fst (claim_records p now ex n (os_records (mo_state ob)))\<rparr>\<rparr>)" for ex
    using assms unfolding outbox_ok_events
    by (simp add: claim_records_events)
  then show ?thesis
    using assms by (auto simp: outbox_claim_def split_beta split: sum.split)
qed

lemma ok_acknowledge_outbox:
  assumes "outbox_ok ob"
  shows "outbox_ok (fst (outbox_acknowledge now ob s p g))"
proof -
  have "outbox_ok (ob\<lparr>mo_state := (mo_state ob)\<lparr>os_records :=
      set_state s (Applied now) (os_records (mo_state ob))\<rparr>\<rparr>)"
    using assms unfolding outbox_ok_events by (simp add: set_state_events)
  then show ?thesis
    using assms
    by (auto simp: outbox_acknowledge_def split: sum.split option.split CoordinationOutboxState.split)
qed

inductive outbox_step :: "chrono \<Rightarrow> time \<Rightarrow> MemoryCoordinationOutbox \<Rightarrow> MemoryCoordinationOutbox \<Rightarrow> bool"
  for ch now ob where
  step_append: "outbox_step ch now ob (fst (outbox_append ch now ob payload))"
| step_claim: "outbox_step ch now ob (fst (outbox_claim ch now ob p ttl n))"
| step_ack: "outbox_step ch now ob (fst (outbox_acknowledge now ob s p g))"

inductive outbox_reachable :: "chrono \<Rightarrow> MemoryCoordinationOutbox \<Rightarrow> bool" for ch where
  outbox_created: "outbox_reachable ch (MemoryCoordinationOutbox_new deployment)"
| outbox_stepped: "outbox_reachable ch ob \<Longrightarrow> outbox_step ch now ob ob' \<Longrightarrow> outbox_reachable ch ob'"

lemma outbox_ok_step: "outbox_step ch now ob ob' \<Longrightarrow> outbox_ok ob \<Longrightarrow> outbox_ok ob'"
  by (induction rule: outbox_step.induct) (simp_all add: ok_append ok_claim ok_acknowledge_outbox)

lemma outbox_reachable_ok: "outbox_reachable ch ob \<Longrightarrow> outbox_ok ob"
proof (induction rule: outbox_reachable.induct)
  case (outbox_created deployment)
  then show ?case
    by (simp add: MemoryCoordinationOutbox_new_def outbox_ok_def sequences_to_def)
qed (rule outbox_ok_step)

section \<open>The contract of an ordered outbox\<close>

text \<open>
  What the projector relies on: a claim returns a prefix of the unapplied events and changes
  nothing about them, and an acknowledgement removes exactly its event, or nothing if it fails.
\<close>

locale ordered_outbox =
  fixes inv :: "'o \<Rightarrow> bool"
    and events :: "'o \<Rightarrow> CoordinationEvent list"
    and claim :: "'o \<Rightarrow> 'o \<times> (CoordinationError, CoordinationOutboxClaim list) result"
    and ack :: "nat \<Rightarrow> 'o \<Rightarrow> ProjectionSequence \<Rightarrow> CoordinationClaimGeneration \<Rightarrow>
      'o \<times> (CoordinationError, unit) result"
  assumes claim_inv: "inv ob \<Longrightarrow> inv (fst (claim ob))"
    and claim_events: "inv ob \<Longrightarrow> events (fst (claim ob)) = events ob"
    and claim_prefix: "inv ob \<Longrightarrow> snd (claim ob) = Inr cs \<Longrightarrow>
      \<exists>rest. events ob = map claim_event cs @ rest"
    and ack_inv: "inv ob \<Longrightarrow> inv (fst (ack i ob s g))"
    and ack_ok: "inv ob \<Longrightarrow> snd (ack i ob s g) = Inr u \<Longrightarrow>
      events (fst (ack i ob s g)) = filter (\<lambda>e. event_sequence e \<noteq> s) (events ob)"
    and ack_error: "inv ob \<Longrightarrow> snd (ack i ob s g) = Inl e \<Longrightarrow> events (fst (ack i ob s g)) = events ob"
    and events_distinct: "inv ob \<Longrightarrow> distinct (map event_sequence (events ob))"

text \<open>The projection after the first events of a batch.\<close>

fun apply_events ::
    "(nat \<Rightarrow> 'p \<Rightarrow> CoordinationEvent \<Rightarrow> 'p \<times> (CoordinationError, ProjectionApplyOutcome) result) \<Rightarrow>
     nat \<Rightarrow> CoordinationEvent list \<Rightarrow> 'p \<Rightarrow> 'p" where
  "apply_events apply i [] p = p"
| "apply_events apply i (e # es) p = apply_events apply (Suc i) es (fst (apply i p e))"

text \<open>The projection takes every one of the events, in order, without an error.\<close>

fun applied_ok ::
    "(nat \<Rightarrow> 'p \<Rightarrow> CoordinationEvent \<Rightarrow> 'p \<times> (CoordinationError, ProjectionApplyOutcome) result) \<Rightarrow>
     nat \<Rightarrow> CoordinationEvent list \<Rightarrow> 'p \<Rightarrow> bool" where
  "applied_ok apply i [] p = True"
| "applied_ok apply i (e # es) p \<longleftrightarrow>
     is_ok (snd (apply i p e)) \<and> applied_ok apply (Suc i) es (fst (apply i p e))"

text \<open>
  The outcome of a batch. The first \<open>k\<close> events were taken by the projection, in order and without
  an error, and have left the outbox. Without an error these are all events. With an error there is
  a next event: it was offered to the projection and is still in the outbox, and either the
  projection refused it with this error, or took it and the acknowledgement failed.
\<close>

definition projected ::
    "(nat \<Rightarrow> 'p \<Rightarrow> CoordinationEvent \<Rightarrow> 'p \<times> (CoordinationError, ProjectionApplyOutcome) result) \<Rightarrow>
     nat \<Rightarrow> CoordinationEvent list \<Rightarrow> 'p \<Rightarrow> CoordinationEvent list \<Rightarrow> 'p \<Rightarrow> (CoordinationError, nat) result \<Rightarrow> bool" where
  "projected apply i es p es' p' r \<longleftrightarrow>
     (\<exists>k\<le>length es. es' = drop k es \<and> applied_ok apply i (take k es) p \<and>
       (case r of
          Inr n \<Rightarrow> n = length es \<and> k = length es \<and> p' = apply_events apply i es p
        | Inl err \<Rightarrow> k < length es \<and> p' = apply_events apply i (take (Suc k) es) p \<and>
            (case snd (apply (i + k) (apply_events apply i (take k es) p) (es ! k)) of
               Inl refused \<Rightarrow> refused = err
             | Inr _ \<Rightarrow> True)))"

lemma projected_done: "projected apply i [] p [] p (Inr 0)"
  by (simp add: projected_def)

lemma projected_stopped:
  "apply i p e = (p', x) \<Longrightarrow> (\<And>refused. x = Inl refused \<Longrightarrow> refused = err) \<Longrightarrow>
     projected apply i (e # es) p (e # es) p' (Inl err)"
  unfolding projected_def by (intro exI [of _ 0]) (simp split: sum.split)

lemma projected_step:
  assumes "projected apply (Suc i) es (fst (apply i p e)) es' p' r" "is_ok (snd (apply i p e))"
  shows "projected apply i (e # es) p es' p' (map_sum id Suc r)"
proof -
  let ?p = "fst (apply i p e)"
  obtain k where k: "k \<le> length es" "es' = drop k es" "applied_ok apply (Suc i) (take k es) ?p"
      "case r of
          Inr n \<Rightarrow> n = length es \<and> k = length es \<and> p' = apply_events apply (Suc i) es ?p
        | Inl err \<Rightarrow> k < length es \<and> p' = apply_events apply (Suc i) (take (Suc k) es) ?p \<and>
            (case snd (apply (Suc i + k) (apply_events apply (Suc i) (take k es) ?p) (es ! k)) of
               Inl refused \<Rightarrow> refused = err | Inr _ \<Rightarrow> True)"
    using assms(1) unfolding projected_def by blast
  then show ?thesis
    unfolding projected_def using assms(2) by (intro exI [of _ "Suc k"]) (cases r; simp)
qed

context ordered_outbox
begin

lemma ack_head:
  assumes "inv ob" "snd (ack i ob (event_sequence e) g) = Inr u" "events ob = e # es"
  shows "events (fst (ack i ob (event_sequence e) g)) = es"
proof -
  have "\<forall>x\<in>set es. event_sequence x \<noteq> event_sequence e"
    using events_distinct [OF assms(1)] assms(3) by (auto simp: image_iff)
  then show ?thesis using ack_ok [OF assms(1,2)] assms(3) by (simp add: filter_id_conv)
qed

lemma project_claims_projected:
  assumes "inv ob" "events ob = map claim_event cs @ rest"
    "project_claims apply ack i cs ob p = (ob', p', r)"
  shows "inv ob' \<and> (\<exists>es'. events ob' = es' @ rest \<and> projected apply i (map claim_event cs) p es' p' r)"
  using assms
proof (induction cs arbitrary: i ob p ob' p' r)
  case Nil
  then show ?case using projected_done by auto
next
  case (Cons c cs)
  let ?e = "claim_event c" and ?es = "map claim_event cs"
  obtain p1 a where a: "apply i p ?e = (p1, a)" by fastforce
  obtain ob1 b where b: "ack i ob (event_sequence ?e) (claim_generation c) = (ob1, b)" by fastforce
  show ?case
  proof (cases a)
    case (Inl err)
    then have out: "ob' = ob" "p' = p1" "r = Inl err" using Cons.prems(3) a by simp_all
    have "projected apply i (?e # ?es) p (?e # ?es) p1 (Inl err)"
      by (rule projected_stopped [where x = a]) (simp_all add: a Inl)
    then show ?thesis unfolding out using Cons.prems(1,2) by simp
  next
    case a_ok: (Inr x)
    show ?thesis
    proof (cases b)
      case (Inl err)
      then have "events ob1 = events ob" "inv ob1"
        using ack_error [of ob i "event_sequence ?e" "claim_generation c"] ack_inv [of ob] Cons.prems(1) b
        by (metis fst_conv snd_conv)+
      moreover have out: "ob' = ob1" "p' = p1" "r = Inl err" using Cons.prems(3) a b a_ok Inl by simp_all
      moreover have "projected apply i (?e # ?es) p (?e # ?es) p1 (Inl err)"
        by (rule projected_stopped [where x = a]) (simp_all add: a a_ok)
      ultimately show ?thesis unfolding out using Cons.prems(2) by simp
    next
      case (Inr u)
      obtain r' where rec: "project_claims apply ack (Suc i) cs ob1 p1 = (ob', p', r')"
          "r = map_sum id Suc r'"
        using Cons.prems(3) a b a_ok Inr by (auto split: prod.splits)
      have inv: "inv ob1" using ack_inv [OF Cons.prems(1)] b by (metis fst_conv)
      have "events ob1 = ?es @ rest"
        using ack_head [OF Cons.prems(1), of i ?e "claim_generation c" u "?es @ rest"] b Inr Cons.prems(2)
        by simp
      from Cons.IH [OF inv this rec(1)] obtain es' where "inv ob'" "events ob' = es' @ rest"
          "projected apply (Suc i) ?es p1 es' p' r'" by blast
      moreover from this(3) have "projected apply i (?e # ?es) p es' p' r"
        unfolding rec(2) using a a_ok by (intro projected_step) (simp_all add: is_ok_def)
      ultimately show ?thesis by auto
    qed
  qed
qed

lemma project_once_projected:
  assumes "inv ob" "project_once claim apply ack ob p = (ob', p', r)"
  shows "inv ob' \<and>
    (case snd (claim ob) of
       Inl err \<Rightarrow> events ob' = events ob \<and> p' = p \<and> r = Inl err
     | Inr cs \<Rightarrow> \<exists>es' rest. events ob = map claim_event cs @ rest \<and> events ob' = es' @ rest \<and>
         projected apply 0 (map claim_event cs) p es' p' r)"
proof (cases "snd (claim ob)")
  case (Inl e)
  then have "ob' = fst (claim ob)" "p' = p" "r = Inl e"
    using assms(2) by (auto simp: project_once_def split: prod.splits)
  then show ?thesis
    using claim_inv [OF assms(1)] claim_events [OF assms(1)] Inl by simp
next
  case (Inr cs)
  obtain rest where rest: "events ob = map claim_event cs @ rest" using claim_prefix [OF assms(1) Inr] by blast
  have run: "project_claims apply ack 0 cs (fst (claim ob)) p = (ob', p', r)"
    using assms(2) Inr by (auto simp: project_once_def split: prod.splits)
  have "events (fst (claim ob)) = map claim_event cs @ rest" using claim_events [OF assms(1)] rest by simp
  from project_claims_projected [OF claim_inv [OF assms(1)] this run] show ?thesis
    unfolding Inr sum.case using rest by blast
qed

end

end
