(* ===== verification/Coord_Projector.thy ===== *)
theory Coord_Projector
  imports Coord_Outbox
begin

text \<open>
  The standalone outbox as a provider of the ordered-outbox contract, and what the outbox and the
  projector promise: gapless numbering, the life cycle of a record, exclusive claims, projection in
  order with acknowledgement only after the projection, and progress.
\<close>

section \<open>The standalone outbox keeps the contract\<close>

lemma acknowledge_ok_cases:
  assumes "snd (outbox_acknowledge now ob s p g) = Inr u"
  obtains r c e where "map_of (os_records (mo_state ob)) s = Some r"
    "rec_state r = Claimed p g c e" "c \<le> now" "now < e"
    "fst (outbox_acknowledge now ob s p g) = ob\<lparr>mo_state := (mo_state ob)
       \<lparr>os_records := set_state s (Applied now) (os_records (mo_state ob))\<rparr>\<rparr>"
  using assms
  by (auto simp: outbox_acknowledge_def split: sum.splits if_splits option.splits
      CoordinationOutboxState.splits)

lemma acknowledge_error:
  "snd (outbox_acknowledge now ob s p g) = Inl e \<Longrightarrow> fst (outbox_acknowledge now ob s p g) = ob"
  by (auto simp: outbox_acknowledge_def split: sum.splits if_splits option.splits
      CoordinationOutboxState.splits)

lemma claim_ok_cases:
  assumes "outbox_claim ch now ob p ttl n = (ob', Inr cs)"
  obtains ex rs where "validate_projector p = Inr ()" "checked_claim_expiry ch now ttl = Inr ex"
    "\<not> mo_poisoned ob" "claim_records p now ex n (os_records (mo_state ob)) = (rs, Inr cs)"
    "ob' = ob\<lparr>mo_state := (mo_state ob)\<lparr>os_records := rs\<rparr>\<rparr>"
  using assms
  by (auto simp: outbox_claim_def and_then_def guard_err_def
      split: sum.splits if_splits prod.splits)

interpretation memory_outbox: ordered_outbox outbox_ok unapplied
  "\<lambda>ob. outbox_claim ch now ob projector ttl n"
  "\<lambda>i ob s g. outbox_acknowledge (ack_time i) ob s projector g"
  for ch now projector ttl n ack_time
proof unfold_locales
  fix ob :: MemoryCoordinationOutbox
  assume ok: "outbox_ok ob"
  show "outbox_ok (fst (outbox_claim ch now ob projector ttl n))" using ok by (rule ok_claim)
  show "unapplied (fst (outbox_claim ch now ob projector ttl n)) = unapplied ob"
    by (auto simp: outbox_claim_def unapplied_def claim_records_unapplied split_beta split: sum.split)
  show "distinct (map event_sequence (unapplied ob))" using ok by (rule unapplied_distinct)
next
  fix ob :: MemoryCoordinationOutbox and cs
  assume "snd (outbox_claim ch now ob projector ttl n) = Inr cs"
  then show "\<exists>rest. unapplied ob = map claim_event cs @ rest"
    by (metis claim_ok_cases claim_records_prefix prod.collapse snd_conv unapplied_def)
next
  fix ob i s g u
  assume ok: "outbox_ok ob" and "snd (outbox_acknowledge (ack_time i) ob s projector g) = Inr u"
  then show "unapplied (fst (outbox_acknowledge (ack_time i) ob s projector g)) =
      filter (\<lambda>e. event_sequence e \<noteq> s) (unapplied ob)"
    by (elim acknowledge_ok_cases)
      (auto simp: unapplied_def outbox_ok_def Let_def list_all_iff intro!: set_state_unapplied)
qed (auto simp: ok_acknowledge_outbox acknowledge_error)

section \<open>Life cycle of a record\<close>

text \<open>The specification: how one record may change at time \<open>now\<close>.\<close>

inductive record_step :: "time \<Rightarrow> CoordinationOutboxState \<Rightarrow> CoordinationOutboxState \<Rightarrow> bool" for now where
  record_kept: "record_step now s s"
| record_claimed: "now < e \<Longrightarrow> record_step now Ready (Claimed p (CoordinationClaimGeneration 1) now e)"
| record_reclaimed: "e0 \<le> now \<Longrightarrow> claim_next g0 = Inr g \<Longrightarrow> now < e \<Longrightarrow>
    record_step now (Claimed q g0 c0 e0) (Claimed p g now e)"
| record_applied: "c0 \<le> now \<Longrightarrow> now < e0 \<Longrightarrow> record_step now (Claimed q g c0 e0) (Applied now)"

lemma claim_records_step:
  assumes "map_of rs s = Some r" "now < ex"
  shows "\<exists>r'. map_of (fst (claim_records p now ex n rs)) s = Some r' \<and>
    rec_event r' = rec_event r \<and> record_step now (rec_state r) (rec_state r')"
  using assms(1)
proof (induction rs arbitrary: n)
  case (Cons x rs)
  obtain k r0 where x: "x = (k, r0)" by fastforce
  show ?case
  proof (cases rule: claim_records_cases [of p now ex n k r0 rs])
    case (claim g m)
    have "record_step now (rec_state r0) (Claimed p g now ex)"
      using claim(3) assms(2) by (auto intro: record_claimed record_reclaimed)
    then show ?thesis using Cons x claim(4) by auto
  qed (use Cons x in \<open>auto intro: record_kept\<close>)
qed simp

lemma map_of_snoc_old: "map_of m k = Some v \<Longrightarrow> map_of (m @ n) k = Some v"
  by (simp add: map_of_append)

lemma append_keeps:
  assumes "outbox_ok ob" "map_of (os_records (mo_state ob)) s = Some r"
  shows "map_of (os_records (mo_state (fst (outbox_append ch now ob payload)))) s = Some r"
proof (cases "snd (outbox_append ch now ob payload)")
  case (Inl e)
  then show ?thesis
    using assms by (auto simp: outbox_append_def Let_def split: sum.splits if_splits option.splits)
next
  case (Inr rec)
  let ?rs = "os_records (mo_state ob)"
  obtain k where k: "(case os_last_sequence (mo_state ob) of Some s \<Rightarrow> sequence_next s
      | None \<Rightarrow> Inr sequence_initial) = Inr k"
      "os_records (mo_state (fst (outbox_append ch now ob payload))) = btree_insert k rec ?rs"
    using Inr by (auto simp: outbox_append_def Let_def split: sum.splits if_splits)
  have "\<forall>k'\<in>fst ` set ?rs. k' < k"
    using append_sequence [OF assms(1) refl k(1)] sequences_below assms(1)
    unfolding outbox_ok_def Let_def by (metis list.set_map)
  then show ?thesis using k(2) assms(2) by (simp add: btree_insert_last map_of_snoc_old)
qed

text \<open>
  A record of the outbox follows its life cycle. Whatever operation runs, an existing record
  keeps its event, and its state stays, becomes claimed (from ready, or from a lapsed claim with
  the next generation), or becomes applied within the claim interval; an applied record is final.
\<close>

theorem outbox_record_lifecycle:
  assumes "outbox_ok ob" "chrono_laws ch" "outbox_step ch now ob ob'"
    "map_of (os_records (mo_state ob)) s = Some r"
  shows "\<exists>r'. map_of (os_records (mo_state ob')) s = Some r' \<and> rec_event r' = rec_event r \<and>
    record_step now (rec_state r) (rec_state r')"
  using assms(3)
proof cases
  case (step_append payload)
  then show ?thesis using append_keeps [OF assms(1,4)] by (auto intro: record_kept)
next
  case (step_claim p ttl n)
  have "now < ex" if "checked_claim_expiry ch now ttl = Inr ex" for ex
    using checked_claim_expiry_Inr [OF that assms(2)] by simp
  then show ?thesis
    using step_claim assms(4) claim_records_step [OF assms(4)]
    by (auto simp: outbox_claim_def and_then_def guard_err_def split_beta intro: record_kept
        split: sum.splits if_splits)
next
  case (step_ack s' p g)
  show ?thesis
  proof (cases "snd (outbox_acknowledge now ob s' p g)")
    case (Inl e)
    then show ?thesis using acknowledge_error [OF Inl] step_ack assms(4) by (auto intro: record_kept)
  next
    case (Inr u)
    then obtain r' c e where "map_of (os_records (mo_state ob)) s' = Some r'"
        "rec_state r' = Claimed p g c e" "c \<le> now" "now < e"
        "os_records (mo_state ob') = set_state s' (Applied now) (os_records (mo_state ob))"
      using step_ack by (auto elim!: acknowledge_ok_cases)
    then show ?thesis
      using assms(4) by (auto simp: set_state_lookup intro: record_kept record_applied)
  qed
qed

section \<open>Claims\<close>

lemma claimed_key:
  assumes "snd (claim_records p now ex n rs) = Inr cs" "c \<in> set cs"
    "list_all (\<lambda>(k, r). event_sequence (rec_event r) = k) rs"
  shows "event_sequence (claim_event c) \<in> fst ` set rs"
proof -
  obtain rest where "unapplied_of rs = map claim_event cs @ rest"
    using claim_records_prefix assms(1) by blast
  then have "claim_event c \<in> set (unapplied_of rs)" using assms(2) by simp
  then show ?thesis using assms(3) by (force simp: unapplied_of_def list_all_iff)
qed

text \<open>What a successful claim leaves in the records.\<close>

lemma claim_records_stored:
  assumes "claim_records p now ex n rs = (rs', Inr cs)" "keys_distinct rs"
    "list_all (\<lambda>(k, r). event_sequence (rec_event r) = k) rs" "c \<in> set cs"
  shows "map_of rs' (event_sequence (claim_event c)) = Some (claim_record c) \<and>
    rec_state (claim_record c) = Claimed p (claim_generation c) now ex"
  using assms
proof (induction rs arbitrary: n rs' cs)
  case (Cons x rs)
  obtain k r where x: "x = (k, r)" by fastforce
  have tail: "event_sequence (claim_event c) \<noteq> k"
    if "snd (claim_records p now ex m rs) = Inr ds" "c \<in> set ds" for m ds
    using claimed_key [OF that] Cons.prems(2,3) x by force
  show ?case
  proof (cases rule: claim_records_cases [of p now ex n k r rs])
    case (claim g m)
    let ?c = "\<lparr>claim_record = r\<lparr>rec_state := Claimed p g now ex\<rparr>, claim_generation = g\<rparr>"
    obtain rs1 ds where ds: "claim_records p now ex m rs = (rs1, Inr ds)" "cs = ?c # ds"
        "rs' = (k, r\<lparr>rec_state := Claimed p g now ex\<rparr>) # rs1"
      using Cons.prems(1) claim(4) x
      by (cases "claim_records p now ex m rs"; cases "snd (claim_records p now ex m rs)") auto
    show ?thesis
    proof (cases "c = ?c")
      case False
      then show ?thesis using ds Cons.IH [OF ds(1)] Cons.prems(2-4) tail [of m ds] x by auto
    qed (use ds Cons.prems(3) x in auto)
  next
    case (skip t)
    then obtain rs1 where rs1: "claim_records p now ex n rs = (rs1, Inr cs)" "rs' = (k, r) # rs1"
      using Cons.prems(1) x by (cases "claim_records p now ex n rs") auto
    then show ?thesis using Cons.IH [OF rs1(1)] Cons.prems(2-4) tail [of n cs] x by auto
  qed (use Cons.prems x in auto)
qed simp

lemma claim_records_claimable:
  assumes "claim_records p now ex n rs = (rs', Inr cs)" "c \<in> set cs" "keys_distinct rs"
    "list_all (\<lambda>(k, r). event_sequence (rec_event r) = k) rs"
    "map_of rs (event_sequence (claim_event c)) = Some r" "rec_state r = Claimed q g0 c0 e0"
  shows "e0 \<le> now \<and> claim_next g0 = Inr (claim_generation c)"
  using assms
proof (induction rs arbitrary: n rs' cs)
  case (Cons x rs)
  obtain k r0 where x: "x = (k, r0)" by fastforce
  have key: "event_sequence (rec_event r0) = k" using Cons.prems(4) x by simp
  show ?case
  proof (cases rule: claim_records_cases [of p now ex n k r0 rs])
    case (claim g m)
    let ?c = "\<lparr>claim_record = r0\<lparr>rec_state := Claimed p g now ex\<rparr>, claim_generation = g\<rparr>"
    obtain rs1 ds where ds: "claim_records p now ex m rs = (rs1, Inr ds)" "cs = ?c # ds"
      using Cons.prems(1) claim(4) x
      by (cases "claim_records p now ex m rs"; cases "snd (claim_records p now ex m rs)") auto
    show ?thesis
    proof (cases "c = ?c")
      case True
      then have "r0 = r" using Cons.prems(5) x key by simp
      then show ?thesis using claim(3) Cons.prems(6) True by auto
    next
      case False
      then have "c \<in> set ds" using Cons.prems(2) ds(2) by simp
      moreover have "event_sequence (claim_event c) \<noteq> k"
        using claimed_key [of p now ex m rs ds c] ds(1) Cons.prems(3,4) x \<open>c \<in> set ds\<close> by force
      ultimately show ?thesis using Cons.IH [OF ds(1)] Cons.prems(3-6) x by simp
    qed
  next
    case (skip t)
    then obtain rs1 where rs1: "claim_records p now ex n rs = (rs1, Inr cs)"
      using Cons.prems(1) x by (cases "claim_records p now ex n rs") auto
    show ?thesis
    proof (cases "event_sequence (claim_event c) = k")
      case True
      then show ?thesis using Cons.prems(5,6) skip(1) x by simp
    next
      case False
      then show ?thesis using Cons.IH [OF rs1 Cons.prems(2)] Cons.prems(3-6) x by simp
    qed
  qed (use Cons.prems x in auto)
qed simp

section \<open>Sample data\<close>

definition sample_outbox :: "CoordinationPayload list \<Rightarrow> MemoryCoordinationOutbox" where
  "sample_outbox payloads =
     fold (\<lambda>p ob. fst (outbox_append sample_chrono 10 ob p)) payloads
       (MemoryCoordinationOutbox_new sample_deployment)"

lemma sample_outbox_reachable: "outbox_reachable sample_chrono (sample_outbox payloads)"
proof -
  have "outbox_reachable sample_chrono ob \<Longrightarrow> outbox_reachable sample_chrono
      (fold (\<lambda>p ob. fst (outbox_append sample_chrono 10 ob p)) payloads ob)" for ob
    by (induction payloads arbitrary: ob) (auto intro: outbox_stepped step_append)
  then show ?thesis by (simp add: sample_outbox_def outbox_created)
qed

lemmas sample_outbox_ok = outbox_reachable_ok [OF sample_outbox_reachable]

definition sample_payloads :: "CoordinationPayload list" where
  "sample_payloads =
     [Worker (sample_worker 2 1 1), Route sample_route, WakeWorker (WorkerId 2) Effects]"

theorem outbox_record_lifecycle_witness:
  "\<exists>r'. map_of (os_records (mo_state (fst (outbox_claim sample_chrono 20 (sample_outbox sample_payloads)
       (lit ''p'') 5 8)))) (ProjectionSequence 2) = Some r' \<and>
    event_payload (rec_event r') = Route sample_route \<and> record_step 20 Ready (rec_state r')"
proof -
  have "map_of (os_records (mo_state (sample_outbox sample_payloads))) (ProjectionSequence 2) =
      Some \<lparr>rec_event = \<lparr>event_deployment = sample_deployment, event_sequence = ProjectionSequence 2,
        event_payload = Route sample_route, event_recorded_at = 10\<rparr>, rec_state = Ready\<rparr>"
    by code_simp
  from outbox_record_lifecycle [OF sample_outbox_ok sample_chrono_laws step_claim this, of 20 "lit ''p''" 5 8]
  show ?thesis by auto
qed

text \<open>
  The outbox numbers its events from one without gaps, in the order of their appends, and
  stores each under its own number and deployment, whatever claims and acknowledgements ran.
\<close>

theorem outbox_is_numbered:
  assumes "outbox_reachable ch ob"
  shows "map fst (os_records (mo_state ob)) =
      map (\<lambda>i. ProjectionSequence (of_nat i)) [1..<Suc (length (os_records (mo_state ob)))] \<and>
    distinct (map fst (os_records (mo_state ob))) \<and>
    (\<forall>(k, r)\<in>set (os_records (mo_state ob)).
      event_sequence (rec_event r) = k \<and> event_deployment (rec_event r) = mo_deployment ob)"
  using outbox_reachable_ok [OF assms] outbox_keys [OF outbox_reachable_ok [OF assms]]
  by (simp add: outbox_ok_def Let_def sequences_to_def list_all_iff)

theorem outbox_is_numbered_witness:
  "map fst (os_records (mo_state (sample_outbox sample_payloads))) =
   map (\<lambda>i. ProjectionSequence (of_nat i)) [1..<Suc (length (os_records (mo_state (sample_outbox sample_payloads))))]"
  using outbox_is_numbered [OF sample_outbox_reachable [of sample_payloads]] by simp

text \<open>
  C18: claims are exclusive and fenced. If two claims in a row return the same event, the first
  claim has expired by the time of the second, the second carries a greater generation, and the
  holder of the first can no longer acknowledge the event.
\<close>

theorem outbox_claims_exclusive:
  assumes "outbox_ok ob" "chrono_laws ch"
    "outbox_claim ch now ob p ttl n = (ob1, Inr cs)" "c \<in> set cs"
    "outbox_claim ch now' ob1 p' ttl' n' = (ob2, Inr cs')" "c' \<in> set cs'"
    "event_sequence (claim_event c') = event_sequence (claim_event c)"
  shows "now + int ttl \<le> now' \<and> claim_generation c < claim_generation c' \<and>
    snd (outbox_acknowledge t ob2 (event_sequence (claim_event c)) p (claim_generation c)) = Inl StaleClaim"
proof -
  obtain ex rs where 1: "validate_projector p = Inr ()" "checked_claim_expiry ch now ttl = Inr ex"
      "\<not> mo_poisoned ob" "claim_records p now ex n (os_records (mo_state ob)) = (rs, Inr cs)"
      "ob1 = ob\<lparr>mo_state := (mo_state ob)\<lparr>os_records := rs\<rparr>\<rparr>"
    using assms(3) by (rule claim_ok_cases)
  obtain ex' rs' where 2: "claim_records p' now' ex' n' rs = (rs', Inr cs')"
      "ob2 = ob\<lparr>mo_state := (mo_state ob)\<lparr>os_records := rs'\<rparr>\<rparr>"
    using assms(5) 1(5) by (auto elim!: claim_ok_cases)
  have ok1: "outbox_ok ob1" using ok_claim [OF assms(1), of ch now p ttl n] assms(3) by simp
  have keys: "keys_distinct (os_records (mo_state ob))" "keys_distinct rs"
    "list_all (\<lambda>(k, r). event_sequence (rec_event r) = k) (os_records (mo_state ob))"
    "list_all (\<lambda>(k, r). event_sequence (rec_event r) = k) rs"
    using outbox_keys [OF assms(1)] outbox_keys [OF ok1] assms(1) ok1 1(5)
    by (auto simp: outbox_ok_def Let_def list_all_iff)
  have stored: "map_of rs (event_sequence (claim_event c)) = Some (claim_record c)"
    "rec_state (claim_record c) = Claimed p (claim_generation c) now ex"
    using claim_records_stored [OF 1(4) keys(1,3) assms(4)] by auto
  have next_gen: "ex \<le> now'" "claim_next (claim_generation c) = Inr (claim_generation c')"
    using claim_records_claimable [OF 2(1) assms(6) keys(2,4) _ stored(2)] stored(1) assms(7) by auto
  then have less: "claim_generation c < claim_generation c'" using claim_next_Inr by blast
  have "map_of rs' (event_sequence (claim_event c)) = Some (claim_record c')"
    "rec_state (claim_record c') = Claimed p' (claim_generation c') now' ex'"
    using claim_records_stored [OF 2(1) keys(2,4) assms(6)] assms(7) by auto
  then have "snd (outbox_acknowledge t ob2 (event_sequence (claim_event c)) p (claim_generation c)) =
      Inl StaleClaim"
    using 1(1,3) 2(2) less by (auto simp: outbox_acknowledge_def)
  then show ?thesis
    using next_gen(1) less checked_claim_expiry_Inr [OF 1(2) assms(2)] by simp
qed

theorem outbox_claims_exclusive_witness:
  "snd (outbox_acknowledge 50 (fst (outbox_claim sample_chrono 40
      (fst (outbox_claim sample_chrono 20 (sample_outbox sample_payloads) (lit ''p'') 5 1)) (lit ''p'') 30 1))
     (ProjectionSequence 1) (lit ''p'') (CoordinationClaimGeneration 1)) = Inl StaleClaim"
proof -
  let ?a = "outbox_claim sample_chrono 20 (sample_outbox sample_payloads) (lit ''p'') 5 1"
  let ?b = "outbox_claim sample_chrono 40 (fst ?a) (lit ''p'') 30 1"
  have ab: "?a = (fst ?a, Inr [hd (projr (snd ?a))])" "?b = (fst ?b, Inr [hd (projr (snd ?b))])"
    "event_sequence (claim_event (hd (projr (snd ?a)))) = ProjectionSequence 1"
    "event_sequence (claim_event (hd (projr (snd ?b)))) = ProjectionSequence 1"
    "claim_generation (hd (projr (snd ?a))) = CoordinationClaimGeneration 1"
    by code_simp+
  from outbox_claims_exclusive [OF sample_outbox_ok sample_chrono_laws ab(1) _ ab(2), of
      "hd (projr (snd ?a))" "hd (projr (snd ?b))" 50]
  show ?thesis unfolding ab(3-5) by simp
qed

section \<open>The projector\<close>

text \<open>
  C19: the projector applies the claimed events in outbox order and acknowledges an event only after
  the projection took it. With any projection and whatever fails, after one round the events that
  have left the outbox are the first \<open>k\<close> of the claimed batch, the projection took each of them, in
  order, without an error, and when the round reports success these are all of the batch. When it
  reports an error after the claim, the next event was offered to the projection as well and is
  still in the outbox: the projection refused it with that error, or it took it and the
  acknowledgement failed. When the claim itself fails, nothing changes.
\<close>

theorem project_once_in_order:
  assumes "outbox_ok ob"
    "project_once (\<lambda>ob. outbox_claim ch now ob projector ttl n) apply
       (\<lambda>i ob s g. outbox_acknowledge (ack_time i) ob s projector g) ob p = (ob', p', r)"
  shows "outbox_ok ob' \<and>
    (case snd (outbox_claim ch now ob projector ttl n) of
       Inl err \<Rightarrow> unapplied ob' = unapplied ob \<and> p' = p \<and> r = Inl err
     | Inr cs \<Rightarrow> \<exists>es' rest. unapplied ob = map claim_event cs @ rest \<and> unapplied ob' = es' @ rest \<and>
         projected apply 0 (map claim_event cs) p es' p' r)"
  by (rule memory_outbox.project_once_projected [OF assms])

text \<open>A projection that refuses the second event: the first one leaves the outbox, the second stays.\<close>

definition sample_refusing ::
    "nat \<Rightarrow> ProjectionSequence list \<Rightarrow> CoordinationEvent \<Rightarrow>
     ProjectionSequence list \<times> (CoordinationError, ProjectionApplyOutcome) result" where
  "sample_refusing i seen e =
     (seen @ [event_sequence e], if i = 1 then Inl Unavailable else Inr ProjectionApplyOutcome.Applied)"

theorem project_once_in_order_witness:
  "\<exists>ob' seen r cs es' rest.
    project_once (\<lambda>ob. outbox_claim sample_chrono 20 ob (lit ''p'') 30 2) sample_refusing
      (\<lambda>i ob s g. outbox_acknowledge 25 ob s (lit ''p'') g) (sample_outbox sample_payloads) [] = (ob', seen, r) \<and>
    length cs = 2 \<and> unapplied (sample_outbox sample_payloads) = map claim_event cs @ rest \<and>
    unapplied ob' = es' @ rest \<and> projected sample_refusing 0 (map claim_event cs) [] es' seen r"
proof -
  let ?claim = "outbox_claim sample_chrono 20 (sample_outbox sample_payloads) (lit ''p'') 30 2"
  obtain ob' seen r where run: "project_once (\<lambda>ob. outbox_claim sample_chrono 20 ob (lit ''p'') 30 2)
      sample_refusing (\<lambda>i ob s g. outbox_acknowledge 25 ob s (lit ''p'') g)
      (sample_outbox sample_payloads) [] = (ob', seen, r)"
    using prod_cases3 by blast
  have cs: "snd ?claim = Inr (projr (snd ?claim))" "length (projr (snd ?claim)) = 2" by code_simp+
  from project_once_in_order [where ack_time = "\<lambda>i. 25", OF sample_outbox_ok run] run cs show ?thesis
    by (auto split: sum.splits)
qed

text \<open>A record that a claim at time \<open>now\<close> can take, or that needs no claim.\<close>

fun claimable :: "time \<Rightarrow> CoordinationOutboxState \<Rightarrow> bool" where
  "claimable now Ready = True"
| "claimable now (Claimed q g c e) = (e \<le> now \<and> is_ok (claim_next g))"
| "claimable now (Applied t) = True"

lemma claim_records_all:
  assumes "list_all (\<lambda>p. claimable now (rec_state (snd p))) rs"
  shows "\<exists>cs. snd (claim_records p now ex n rs) = Inr cs \<and> map claim_event cs = take n (unapplied_of rs)"
  using assms
proof (induction rs arbitrary: n)
  case (Cons x rs)
  obtain k r where x: "x = (k, r)" by fastforce
  have ok: "claimable now (rec_state r)" "list_all (\<lambda>p. claimable now (rec_state (snd p))) rs"
    using Cons.prems x by auto
  have initial: "claim_next claim_generation_default = Inr (CoordinationClaimGeneration 1)"
    by (simp add: claim_next_def claim_generation_default_def MAX_PERSISTED_GENERATION_def)
  show ?case
  proof (cases n)
    case (Suc m)
    obtain cs where m: "snd (claim_records p now ex m rs) = Inr cs"
        "map claim_event cs = take m (unapplied_of rs)" using Cons.IH [OF ok(2)] by blast
    obtain ds where n: "snd (claim_records p now ex n rs) = Inr ds"
        "map claim_event ds = take n (unapplied_of rs)" using Cons.IH [OF ok(2)] by blast
    show ?thesis
      using ok(1) m n x Suc initial
      by (cases "rec_state r")
        (auto simp: split_beta Let_def unapplied_of_def is_ok_def split: sum.splits)
  qed (simp add: x)
qed (simp add: unapplied_of_def)

definition claim_stored :: "rstr \<Rightarrow> time \<Rightarrow> time \<Rightarrow> MemoryCoordinationOutbox \<Rightarrow> CoordinationOutboxClaim \<Rightarrow> bool" where
  "claim_stored projector now ex ob c \<longleftrightarrow>
     map_of (os_records (mo_state ob)) (event_sequence (claim_event c)) = Some (claim_record c) \<and>
     rec_state (claim_record c) = Claimed projector (claim_generation c) now ex"

lemma acknowledge_stored:
  assumes "claim_stored projector now ex ob c" "validate_projector projector = Inr ()"
    "\<not> mo_poisoned ob" "now \<le> t" "t < ex"
  shows "outbox_acknowledge t ob (event_sequence (claim_event c)) projector (claim_generation c) =
    (ob\<lparr>mo_state := (mo_state ob)\<lparr>os_records :=
       set_state (event_sequence (claim_event c)) (Applied t) (os_records (mo_state ob))\<rparr>\<rparr>, Inr ())"
  using assms by (simp add: outbox_acknowledge_def claim_stored_def)

lemma project_claims_complete:
  assumes "validate_projector projector = Inr ()" "\<forall>i. now \<le> ack_time i \<and> ack_time i < ex"
    "\<forall>i p e. is_ok (snd (apply i p e))"
    "\<not> mo_poisoned ob" "list_all (claim_stored projector now ex ob) cs"
    "distinct (map (event_sequence \<circ> claim_event) cs)"
  shows "\<exists>ob' p'. project_claims apply (\<lambda>i ob s g. outbox_acknowledge (ack_time i) ob s projector g)
    i cs ob p = (ob', p', Inr (length cs))"
  using assms(4-)
proof (induction cs arbitrary: i ob p)
  case (Cons c cs)
  let ?s = "event_sequence (claim_event c)"
  define ob1 where "ob1 = ob\<lparr>mo_state := (mo_state ob)\<lparr>os_records :=
    set_state ?s (Applied (ack_time i)) (os_records (mo_state ob))\<rparr>\<rparr>"
  obtain p1 out where a: "apply i p (claim_event c) = (p1, Inr out)"
    using assms(3) by (cases "apply i p (claim_event c)") (metis is_ok_def snd_conv sum.case(1) sum.exhaust)
  have ack: "outbox_acknowledge (ack_time i) ob ?s projector (claim_generation c) = (ob1, Inr ())"
    using acknowledge_stored [of projector now ex ob c "ack_time i"] assms(1,2) Cons.prems
    by (simp add: ob1_def)
  have "claim_stored projector now ex ob1 d" if "d \<in> set cs" for d
  proof -
    have "?s \<notin> (\<lambda>x. event_sequence (claim_event x)) ` set cs"
      using Cons.prems(3) by (simp add: comp_def)
    then have "event_sequence (claim_event d) \<noteq> ?s" using that by (metis imageI)
    moreover have "claim_stored projector now ex ob d" using Cons.prems(2) that by (simp add: list_all_iff)
    ultimately show ?thesis by (simp add: ob1_def claim_stored_def set_state_lookup)
  qed
  then have "\<exists>ob' p'. project_claims apply (\<lambda>i ob s g. outbox_acknowledge (ack_time i) ob s projector g)
      (Suc i) cs ob1 p1 = (ob', p', Inr (length cs))"
    using Cons.prems by (intro Cons.IH) (auto simp: ob1_def list_all_iff)
  then show ?case using a ack by auto
qed simp

text \<open>
  The projector makes progress. If every unapplied record can be claimed, the projection takes
  every event, and the acknowledgements happen before the claim expires, one round projects and
  acknowledges the first \<open>n\<close> unapplied events, or all of them if there are fewer.
\<close>

theorem project_once_progress:
  assumes "outbox_ok ob" "\<not> mo_poisoned ob" "validate_projector projector = Inr ()"
    "0 < n" "n \<le> 1024" "checked_claim_expiry ch now ttl = Inr ex"
    "list_all (\<lambda>p. claimable now (rec_state (snd p))) (os_records (mo_state ob))"
    "\<forall>i. now \<le> ack_time i \<and> ack_time i < ex" "\<forall>i p e. is_ok (snd (apply i p e))"
  shows "\<exists>ob' p'. project_once (\<lambda>ob. outbox_claim ch now ob projector ttl n) apply
      (\<lambda>i ob s g. outbox_acknowledge (ack_time i) ob s projector g) ob p =
        (ob', p', Inr (min n (length (unapplied ob)))) \<and>
    unapplied ob' = drop n (unapplied ob)"
proof -
  obtain rs cs where cs: "claim_records projector now ex n (os_records (mo_state ob)) = (rs, Inr cs)"
      "map claim_event cs = take n (unapplied ob)"
    using claim_records_all [OF assms(7), of projector ex n]
    by (cases "claim_records projector now ex n (os_records (mo_state ob))") (auto simp: unapplied_def)
  define ob1 where "ob1 = ob\<lparr>mo_state := (mo_state ob)\<lparr>os_records := rs\<rparr>\<rparr>"
  have claim: "outbox_claim ch now ob projector ttl n = (ob1, Inr cs)"
    using assms(2-6) cs(1) by (simp add: outbox_claim_def and_then_def guard_err_def ob1_def)
  have keys: "keys_distinct (os_records (mo_state ob))"
    "list_all (\<lambda>(k, r). event_sequence (rec_event r) = k) (os_records (mo_state ob))"
    using outbox_keys [OF assms(1)] assms(1) by (auto simp: outbox_ok_def Let_def list_all_iff)
  have "list_all (claim_stored projector now ex ob1) cs"
    using claim_records_stored [OF cs(1) keys] by (simp add: list_all_iff claim_stored_def ob1_def)
  moreover have "distinct (map (event_sequence \<circ> claim_event) cs)"
    using unapplied_distinct [OF assms(1)] cs(2) by (metis distinct_take map_map take_map)
  ultimately obtain ob' p' where run: "project_claims apply
      (\<lambda>i ob s g. outbox_acknowledge (ack_time i) ob s projector g) 0 cs ob1 p = (ob', p', Inr (length cs))"
    using project_claims_complete [OF assms(3,8,9), of ob1 cs 0 p] assms(2) by (auto simp: ob1_def)
  have len: "length cs = min n (length (unapplied ob))" using cs(2) by (metis length_map length_take min.commute)
  have "outbox_ok ob1" using ok_claim [OF assms(1), of ch now projector ttl n] claim by simp
  moreover have "unapplied ob1 = map claim_event cs @ drop n (unapplied ob)"
    using memory_outbox.claim_events [OF assms(1), of ch now projector ttl n] claim cs(2) by simp
  ultimately have "unapplied ob' = drop n (unapplied ob)"
    using memory_outbox.project_claims_projected [OF _ _ run] by (fastforce simp: projected_def)
  then show ?thesis using run claim len by (simp add: project_once_def)
qed

theorem project_once_progress_witness:
  "\<exists>ob' p'. project_once (\<lambda>ob. outbox_claim sample_chrono 20 ob (lit ''p'') 30 2)
      (\<lambda>i log e. (log @ [event_sequence e], Inr ProjectionApplyOutcome.Applied))
      (\<lambda>i ob s g. outbox_acknowledge 25 ob s (lit ''p'') g) (sample_outbox sample_payloads) [] =
        (ob', p', Inr (min 2 (length (unapplied (sample_outbox sample_payloads))))) \<and>
    unapplied ob' = drop 2 (unapplied (sample_outbox sample_payloads))"
  by (rule project_once_progress [where ack_time = "\<lambda>i. 25" and ex = 50, OF sample_outbox_ok])
    (code_simp, code_simp, simp, simp, code_simp, code_simp, simp, simp)

end
