(* ===== verification/Coord_Polling.thy ===== *)
theory Coord_Polling
  imports Coord_Delivery
begin

text \<open>
  The order in which a consumer group is handed new wakeups, over every sequence of operations of
  the coordinator and its consumers. A call carries its own clock readings. A poll is a sequence of
  \<open>take_ready\<close> calls with the calls of other tasks in between; \<open>auto_claim\<close> hands a delivery out
  again on purpose, and what it returns does not count as a new delivery.
\<close>

declare map_of_eq_Some_iff [simp del]

section \<open>Calls\<close>

datatype CoordinatorCall =
  Apply time time time CoordinationEvent
| WorkerHints time WorkerSelectionRequest
| RouteHint time CallId
| AttachmentHint time AttachmentRouteLookup
| ReplaySeen time ReplayDigest
| PublishWakeup time time time WorkerId ProjectionSequence WakeupReason
| OpenConsumer time WorkerId rstr rstr duration
| TakeReady time MemoryWakeupConsumer nat
| AutoClaim time MemoryWakeupConsumer duration nat
| Acknowledge time MemoryWakeupConsumer "rstr list"

fun coordinator_call :: "chrono \<Rightarrow> MemoryCoordinator \<Rightarrow> CoordinatorCall \<Rightarrow> MemoryCoordinator" where
  "coordinator_call ch mc (Apply t0 t1 t2 event) = fst (coordinator_apply ch t0 t1 t2 mc event)"
| "coordinator_call ch mc (WorkerHints now request) = fst (worker_hints now mc request)"
| "coordinator_call ch mc (RouteHint now cid) = fst (route_hint now mc cid)"
| "coordinator_call ch mc (AttachmentHint now lookup) = fst (attachment_route_hint now mc lookup)"
| "coordinator_call ch mc (ReplaySeen now digest) = fst (replay_seen now mc digest)"
| "coordinator_call ch mc (PublishWakeup t0 t1 t2 w s r) = fst (publish_wakeup ch t0 t1 t2 mc w s r)"
| "coordinator_call ch mc (OpenConsumer now w grp name interval) =
     fst (wakeup_consumer ch now mc w grp name interval)"
| "coordinator_call ch mc (TakeReady now c n) = fst (take_ready ch now mc c n)"
| "coordinator_call ch mc (AutoClaim now c min_idle n) = fst (auto_claim ch now mc c min_idle n)"
| "coordinator_call ch mc (Acknowledge now c ids) = fst (consumer_acknowledge ch now mc c ids)"

text \<open>The reading of the clock at which a call cleans up.\<close>

fun coordinator_call_time :: "CoordinatorCall \<Rightarrow> time" where
  "coordinator_call_time (Apply t0 t1 t2 event) = t0"
| "coordinator_call_time (WorkerHints now request) = now"
| "coordinator_call_time (RouteHint now cid) = now"
| "coordinator_call_time (AttachmentHint now lookup) = now"
| "coordinator_call_time (ReplaySeen now digest) = now"
| "coordinator_call_time (PublishWakeup t0 t1 t2 w s r) = t0"
| "coordinator_call_time (OpenConsumer now w grp name interval) = now"
| "coordinator_call_time (TakeReady now c n) = now"
| "coordinator_call_time (AutoClaim now c min_idle n) = now"
| "coordinator_call_time (Acknowledge now c ids) = now"

text \<open>The new deliveries of a call to one group, and those of a sequence of calls.\<close>

fun delivered_by :: "chrono \<Rightarrow> WorkerId \<times> rstr \<Rightarrow> MemoryCoordinator \<Rightarrow> CoordinatorCall \<Rightarrow> rstr list" where
  "delivered_by ch key mc (TakeReady now c n) =
     (if consumer_key c = key
      then (case snd (take_ready ch now mc c n) of Inl _ \<Rightarrow> [] | Inr ms \<Rightarrow> map msg_entry_id ms)
      else [])"
| "delivered_by ch key mc _ = []"

fun new_deliveries :: "chrono \<Rightarrow> WorkerId \<times> rstr \<Rightarrow> MemoryCoordinator \<Rightarrow> CoordinatorCall list \<Rightarrow> rstr list" where
  "new_deliveries ch key mc [] = []"
| "new_deliveries ch key mc (c # cs) =
     delivered_by ch key mc c @ new_deliveries ch key (coordinator_call ch mc c) cs"

lemma coordinator_call_ok: "coordinator_ok mc \<Longrightarrow> coordinator_ok (coordinator_call ch mc c)"
  by (cases c)
    (simp_all add: ok_coordinator_apply ok_queries ok_publish_wakeup ok_wakeup_consumer ok_take_ready
      ok_auto_claim ok_acknowledge)

lemma coordinator_call_ttl: "mc_stream_ttl (coordinator_call ch mc c) = mc_stream_ttl mc"
  by (cases c)
    (auto simp: coordinator_apply_def worker_hints_def route_hint_def attachment_route_hint_def replay_seen_def
      publish_wakeup_def wakeup_consumer_def take_ready_def auto_claim_def consumer_acknowledge_def Let_def
      split_beta split: sum.split option.split)

section \<open>A position that was passed stays passed\<close>

lemma passed_mono: "passed R st key L \<Longrightarrow> R' \<le> R \<Longrightarrow> passed R' st key L"
  unfolding passed_def by force

text \<open>Writing a group back: its position must not fall and its retention must reach \<open>R\<close>.\<close>

lemma passed_put_group:
  assumes "passed R st key L"
    and "key' = key \<Longrightarrow> group_last_delivered (group_or_default st key) \<le> group_last_delivered g"
    and "key' = key \<Longrightarrow> group_retained_until g = Some t \<and> R \<le> t \<or>
      group_retained_until g = group_retained_until (group_or_default st key)"
  shows "passed R (put_group key' g st) key L"
proof (cases "key' = key")
  case True
  from assms(1) consider (grp) h u where "map_of (ms_groups st) key = Some h" "L \<le> group_last_delivered h"
      "group_retained_until h = Some u" "R \<le> u"
    | (stream) "list_all (\<lambda>e. L < entry_id e) (stream_of st (fst key))" by (auto simp: passed_def)
  then show ?thesis
  proof cases
    case grp
    then show ?thesis
      using assms True by (auto simp: passed_def put_group_def group_or_default_def)
  qed (use assms(1) in \<open>simp add: passed_def put_group_def stream_of_def\<close>)
qed (use assms(1) in \<open>auto simp: passed_def put_group_def stream_of_def\<close>)

lemma passed_take_ready:
  assumes laws: "chrono_laws ch" and st: "passed R (cleanup_locked now (mc_state mc)) key L"
    and old: "passed R (mc_state mc) key L" and R: "R \<le> now + int (mc_stream_ttl mc)"
  shows "passed R (mc_state (fst (take_ready ch now mc c n))) key L"
proof (cases "retained_until ch now now (mc_stream_ttl mc)")
  case (Inr r)
  have "R \<le> r" using retained_until_Inr [OF laws Inr] R by simp
  moreover have "group_last_delivered g \<le> group_last_delivered (deliver x now es (g\<lparr>group_retained_until := Some r\<rparr>))"
    for g x es using deliver_last [of "g\<lparr>group_retained_until := Some r\<rparr>" x now es] by simp
  ultimately show ?thesis
    using st old Inr by (auto simp: take_ready_def Let_def intro!: passed_put_group [where t = r])
qed (use old in \<open>simp add: take_ready_def\<close>)

lemma passed_auto_claim:
  assumes laws: "chrono_laws ch" and st: "passed R (cleanup_locked now (mc_state mc)) key L"
    and old: "passed R (mc_state mc) key L" and R: "R \<le> now + int (mc_stream_ttl mc)"
  shows "passed R (mc_state (fst (auto_claim ch now mc c min_idle n))) key L"
proof (cases "retained_until ch now now (mc_stream_ttl mc)")
  case (Inr r)
  have "R \<le> r" using retained_until_Inr [OF laws Inr] R by simp
  then show ?thesis
    using st old Inr
    by (auto simp: auto_claim_def Let_def put_group_twice intro!: passed_put_group [where t = r]
        split: option.split)
qed (use old st in \<open>auto simp: auto_claim_def Let_def split: option.split\<close>)

lemma passed_acknowledge:
  assumes laws: "chrono_laws ch" and st: "passed R (cleanup_locked now (mc_state mc)) key L"
    and old: "passed R (mc_state mc) key L" and R: "R \<le> now + int (mc_stream_ttl mc)"
  shows "passed R (mc_state (fst (consumer_acknowledge ch now mc c ids))) key L"
proof (cases "retained_until ch now now (mc_stream_ttl mc)")
  case (Inr r)
  have "R \<le> r" using retained_until_Inr [OF laws Inr] R by simp
  then show ?thesis
    using st old Inr
    by (auto simp: consumer_acknowledge_def Let_def split_beta intro!: passed_put_group [where t = r]
        split: sum.split)
next
  case (Inl e)
  then show ?thesis
    using st old
    by (auto simp: consumer_acknowledge_def Let_def intro!: passed_put_group [where t = 0] split: sum.split)
qed

lemma passed_wakeup_consumer:
  assumes laws: "chrono_laws ch" and st: "passed R (cleanup_locked now (mc_state mc)) key L"
    and old: "passed R (mc_state mc) key L" and R: "R \<le> now + int (mc_stream_ttl mc)"
  shows "passed R (mc_state (fst (wakeup_consumer ch now mc w grp name interval))) key L"
proof (cases "retained_until ch now now (mc_stream_ttl mc)")
  case (Inr r)
  have "R \<le> r" using retained_until_Inr [OF laws Inr] R by simp
  then show ?thesis
    using st old Inr
    by (auto simp: wakeup_consumer_def Let_def and_then_def intro!: passed_put_group [where t = r]
        split: sum.splits)
qed (use old in \<open>auto simp: wakeup_consumer_def and_then_def split: sum.splits\<close>)

lemma passed_publish_wakeup:
  assumes st: "passed R (cleanup_locked t0 (mc_state mc)) key L" and old: "passed R (mc_state mc) key L"
  shows "passed R (mc_state (fst (publish_wakeup ch t0 t1 t2 mc w s r))) key L"
proof -
  let ?e = "\<lparr>event_deployment = mc_deployment mc, event_sequence = s, event_payload = WakeWorker w r,
    event_recorded_at = t0\<rparr>"
  have "passed R (fst (apply_wakeup ch mc t1 t2 (cleanup_locked t0 (mc_state mc)) s w r)) key L"
    using passed_payload [OF st, of ch mc t1 t2 ?e] by (simp add: apply_payload_def)
  then show ?thesis using old by (simp add: publish_wakeup_def split_beta)
qed

lemma passed_call:
  assumes laws: "chrono_laws ch" and ok: "coordinator_ok mc" and old: "passed R (mc_state mc) key L"
    and time: "coordinator_call_time c < R" "R \<le> coordinator_call_time c + int (mc_stream_ttl mc)"
  shows "passed R (mc_state (coordinator_call ch mc c)) key L"
proof -
  have "wakeups_ok (mc_max_stream_len mc) (mc_state mc)" using ok by (simp add: coordinator_ok_def)
  then have st: "passed R (cleanup_locked (coordinator_call_time c) (mc_state mc)) key L"
    by (rule passed_cleanup [OF _ old time(1)])
  show ?thesis
    using old st time(2) laws
    by (cases c)
      (simp_all add: passed_take_ready passed_auto_claim passed_acknowledge passed_wakeup_consumer
        passed_publish_wakeup passed_payload coordinator_apply_def worker_hints_def route_hint_def
        attachment_route_hint_def replay_seen_def Let_def split_beta split: sum.split option.split)
qed

section \<open>New deliveries\<close>

lemma delivered_by_step:
  assumes laws: "chrono_laws ch" and ok: "coordinator_ok mc"
    and time: "coordinator_call_time c < R" "R \<le> coordinator_call_time c + int (mc_stream_ttl mc)"
  shows "\<exists>is. delivered_by ch key mc c = map stream_entry_id is \<and> sorted_wrt (<) is \<and>
    (\<forall>L. passed R (mc_state mc) key L \<longrightarrow> list_all (\<lambda>i. L < i) is) \<and>
    (is = [] \<or> (\<exists>L. list_all (\<lambda>i. i \<le> L) is \<and> passed R (mc_state (coordinator_call ch mc c)) key L))"
proof (cases "delivered_by ch key mc c = []")
  case False
  then obtain now d n ms where c: "c = TakeReady now d n" "consumer_key d = key"
      "snd (take_ready ch now mc d n) = Inr ms" "delivered_by ch key mc c = map msg_entry_id ms"
    by (cases c) (auto split: if_splits sum.splits)
  have run: "take_ready ch now mc d n = (coordinator_call ch mc c, Inr ms)" using c(1,3) by (simp add: prod_eq_iff)
  obtain "is" L where 1: "map msg_entry_id ms = map stream_entry_id is" "sorted_wrt (<) is"
      "list_all (\<lambda>i. i \<le> L) is"
      "passed (now + int (mc_stream_ttl mc)) (mc_state (coordinator_call ch mc c)) (consumer_key d) L"
    using take_ready_passed [OF laws ok run] by blast
  have "list_all (\<lambda>i. K < i) is" if before: "passed R (mc_state mc) key K" for K
  proof -
    obtain js where "map msg_entry_id ms = map stream_entry_id js" "list_all (\<lambda>i. K < i) js"
      using take_ready_beyond [OF ok run, of R K] before c(1,2) time(1) by auto
    moreover from this(1) 1(1) have "is = js"
      by (metis (no_types, lifting) inj_onI map_inj_on stream_entry_id_inject)
    ultimately show ?thesis by simp
  qed
  moreover have "passed R (mc_state (coordinator_call ch mc c)) key L"
    using passed_mono [OF 1(4), of R] time(2) c(1,2) by simp
  ultimately show ?thesis using 1(1-3) c(4) by (intro exI [of _ "is"]) auto
qed auto

text \<open>
  C16: polls hand a consumer group its wakeups in stream order and each of them once. Along every
  sequence of calls within one retention period of the stream, projections, acknowledgements,
  recoveries and the calls of other groups included, the identifiers of the entries that the polls
  of the group's consumers return, one poll after the other, are strictly increasing.
\<close>

theorem group_delivery_in_order:
  assumes "chrono_laws ch" "coordinator_ok mc"
    and "\<forall>c \<in> set calls. t \<le> coordinator_call_time c \<and> coordinator_call_time c < t + int (mc_stream_ttl mc)"
  shows "\<exists>is. new_deliveries ch key mc calls = map stream_entry_id is \<and> sorted_wrt (<) is"
proof -
  define R where "R = t + int (mc_stream_ttl mc)"
  have "\<exists>is. new_deliveries ch key mc calls = map stream_entry_id is \<and> sorted_wrt (<) is \<and>
      (\<forall>L. passed R (mc_state mc) key L \<longrightarrow> list_all (\<lambda>i. L < i) is)"
    using assms(2,3) unfolding R_def
  proof (induction calls arbitrary: mc)
    case (Cons c cs)
    let ?mc = "coordinator_call ch mc c" and ?R = "t + int (mc_stream_ttl mc)"
    have time: "coordinator_call_time c < ?R" "?R \<le> coordinator_call_time c + int (mc_stream_ttl mc)" using Cons.prems(2) by simp_all
    note kept = passed_call [OF assms(1) Cons.prems(1) _ time]
    obtain js where js: "new_deliveries ch key ?mc cs = map stream_entry_id js" "sorted_wrt (<) js"
        "\<And>L. passed ?R (mc_state ?mc) key L \<Longrightarrow> list_all (\<lambda>i. L < i) js"
      using Cons.IH [OF coordinator_call_ok [OF Cons.prems(1)], of ch c] Cons.prems(2)
      by (auto simp: coordinator_call_ttl)
    obtain "is" where new: "delivered_by ch key mc c = map stream_entry_id is" "sorted_wrt (<) is"
        "\<And>L. passed ?R (mc_state mc) key L \<Longrightarrow> list_all (\<lambda>i. L < i) is"
        "is = [] \<or> (\<exists>L. list_all (\<lambda>i. i \<le> L) is \<and> passed ?R (mc_state ?mc) key L)"
      using delivered_by_step [OF assms(1) Cons.prems(1) time] by blast
    have "sorted_wrt (<) (is @ js)"
      using new(2,4) js(2,3) by (fastforce simp: sorted_wrt_append list_all_iff)
    moreover have "list_all (\<lambda>i. L < i) (is @ js)" if "passed ?R (mc_state mc) key L" for L
      using new(3) js(3) kept that by simp
    ultimately show ?case using new(1) js(1) by (intro exI [of _ "is @ js"]) simp
  qed simp
  then show ?thesis by blast
qed

definition sample_polling :: "CoordinatorCall list" where
  "sample_polling =
     [TakeReady 20 (sample_consumer (lit ''a'')) 8, AutoClaim 30 (sample_consumer (lit ''b'')) 5 8,
      PublishWakeup 32 32 32 (WorkerId 2) (ProjectionSequence 9) Controls,
      Acknowledge 35 (sample_consumer (lit ''b'')) [lit ''1-0''], TakeReady 40 (sample_consumer (lit ''b'')) 8]"

theorem group_delivery_in_order_witness:
  "\<exists>is. new_deliveries sample_chrono (WorkerId 2, lit ''g'') (sample_applied [WakeWorker (WorkerId 2) Effects])
       sample_polling = map stream_entry_id is \<and> sorted_wrt (<) is"
  by (rule group_delivery_in_order [OF sample_chrono_laws sample_applied_ok, of _ 20]) code_simp

lemma sample_polls_deliver:
  "new_deliveries sample_chrono (WorkerId 2, lit ''g'')
     (sample_applied [WakeWorker (WorkerId 2) Effects, WakeWorker (WorkerId 2) Controls])
     [TakeReady 20 (sample_consumer (lit ''a'')) 1, TakeReady 40 (sample_consumer (lit ''b'')) 1] =
   [lit ''1-0'', lit ''2-0'']"
  by code_simp

end
