(* ===== verification/Egress_Types.thy ===== *)
theory Egress_Types
  imports Coord_Model
begin

text \<open>
  The data of the private egress protocol between call workers and gateways
  (\<open>src/private_egress.rs\<close>, \<open>src/private_egress_state.rs\<close>): sources, targets, commands,
  responses, lifecycle events and acknowledgements, with every check the code makes on them and
  their passage through a data message.

  Unix times are the integers of the code's \<open>i64\<close> milliseconds, with the saturating and checked
  operations written out; durations are nanoseconds. The data message type and the codec
  description belong to an external media library, of which only the fields the code reads are kept;
  its constructor and validator are the fields of \<open>wire\<close>, and the JSON encoder and decoder are
  arguments of the operations that call them.
\<close>

section \<open>Machine integers\<close>

type_synonym u8 = "8 word"
type_synonym u16 = "16 word"
type_synonym u32 = "32 word"
type_synonym bytes = "8 word list"
type_synonym millis = int

definition I64_MAX :: int where "I64_MAX = 9223372036854775807"
definition I64_MIN :: int where "I64_MIN = -9223372036854775808"

definition sat_i64 :: "int \<Rightarrow> int" where
  "sat_i64 x = max I64_MIN (min I64_MAX x)"

definition checked_i64 :: "int \<Rightarrow> int option" where
  "checked_i64 x = (if I64_MIN \<le> x \<and> x \<le> I64_MAX then Some x else None)"

definition as_millis :: "duration \<Rightarrow> nat" where
  "as_millis d = d div 1000000"

section \<open>Protocol constants and labels\<close>

definition PRIVATE_EGRESS_COMMAND_LABEL :: rstr where
  "PRIVATE_EGRESS_COMMAND_LABEL = lit ''bridgefu.private-egress.command.v1''"
definition PRIVATE_EGRESS_RESPONSE_LABEL :: rstr where
  "PRIVATE_EGRESS_RESPONSE_LABEL = lit ''bridgefu.private-egress.response.v1''"
definition PRIVATE_EGRESS_LIFECYCLE_LABEL :: rstr where
  "PRIVATE_EGRESS_LIFECYCLE_LABEL = lit ''bridgefu.private-egress.lifecycle.v1''"
definition PRIVATE_EGRESS_LIFECYCLE_ACK_LABEL :: rstr where
  "PRIVATE_EGRESS_LIFECYCLE_ACK_LABEL = lit ''bridgefu.private-egress.lifecycle-ack.v1''"
definition PRIVATE_EGRESS_CONTENT_TYPE :: rstr where
  "PRIVATE_EGRESS_CONTENT_TYPE = lit ''application/vnd.bridgefu.private-egress+json''"

definition PROTOCOL_VERSION :: u8 where "PROTOCOL_VERSION = 1"
definition MAX_COMMAND_BYTES :: nat where "MAX_COMMAND_BYTES = 16 * 1024"
definition MAX_TARGET_BYTES :: nat where "MAX_TARGET_BYTES = 2048"
definition MAX_PROFILE_ID_BYTES :: nat where "MAX_PROFILE_ID_BYTES = 128"
definition MAX_PROFILE_REVISION_BYTES :: nat where "MAX_PROFILE_REVISION_BYTES = 128"
definition MAX_CONTEXT_ENTRIES :: nat where "MAX_CONTEXT_ENTRIES = 32"
definition MAX_CONTEXT_NAME_BYTES :: nat where "MAX_CONTEXT_NAME_BYTES = 128"
definition MAX_CONTEXT_VALUE_BYTES :: nat where "MAX_CONTEXT_VALUE_BYTES = 2048"
definition MAX_CLOCK_SKEW :: duration where "MAX_CLOCK_SKEW = 10 * 1000000000"
definition MAX_COMMAND_LIFETIME :: duration where "MAX_COMMAND_LIFETIME = 30 * 1000000000"

definition is_private_egress_label :: "rstr \<Rightarrow> bool" where
  "is_private_egress_label label \<longleftrightarrow>
     label = PRIVATE_EGRESS_COMMAND_LABEL \<or> label = PRIVATE_EGRESS_RESPONSE_LABEL \<or>
     label = PRIVATE_EGRESS_LIFECYCLE_LABEL \<or> label = PRIVATE_EGRESS_LIFECYCLE_ACK_LABEL"

section \<open>The external media library\<close>

record DataMessage =
  dm_label :: rstr
  dm_content_type :: rstr
  dm_reliable_ordered :: bool
  dm_bytes :: bytes

record CodecInfo =
  codec_name :: rstr
  codec_clock_rate_hz :: u32
  codec_channels :: u8

record wire =
  message_validate :: "DataMessage \<Rightarrow> bool"
  message_reliable :: "rstr \<Rightarrow> rstr \<Rightarrow> bytes \<Rightarrow> DataMessage"

text \<open>
  \<open>DataMessage::reliable\<close> builds a reliable, ordered message of the given label, content type and
  bytes, and the validator takes such a message of the private protocol up to the protocol's size
  bound.
\<close>

definition wire_laws :: "wire \<Rightarrow> bool" where
  "wire_laws w \<longleftrightarrow>
     (\<forall>l c b. dm_label (message_reliable w l c b) = l \<and>
        dm_content_type (message_reliable w l c b) = c \<and>
        dm_bytes (message_reliable w l c b) = b \<and>
        dm_reliable_ordered (message_reliable w l c b)) \<and>
     (\<forall>l b. is_private_egress_label l \<longrightarrow> length b \<le> MAX_COMMAND_BYTES \<longrightarrow>
        message_validate w (message_reliable w l PRIVATE_EGRESS_CONTENT_TYPE b))"

section \<open>Sources, targets and commands\<close>

datatype PrivateEgressTransport = Sip | WebRtc

record PrivateEgressSource =
  src_tenant_id :: TenantId
  src_call_id :: CallId
  src_leg_id :: LegId
  src_binding_generation :: BindingGeneration

record PrivateEgressTarget =
  tgt_leg_id :: LegId
  tgt_binding_generation :: BindingGeneration

record PrivateEgressProfile =
  profile_id :: rstr
  profile_revision :: rstr

datatype PrivateEgressEndReason = Normal | Cancelled | Rejected | Timeout | Failed | WorkerDrain

datatype PrivateEgressOperation =
  Prepare PrivateEgressTransport PrivateEgressProfile CodecInfo rstr "(rstr \<times> rstr) list"
| Activate
| Abort
| End PrivateEgressEndReason
| Dtmf rstr u32
| DataMessage DataMessage

record PrivateEgressCommand =
  cmd_version :: u8
  cmd_command_id :: uuid
  cmd_issued_at_ms :: millis
  cmd_expires_at_ms :: millis
  cmd_worker :: WorkerLease
  cmd_source :: PrivateEgressSource
  cmd_target :: PrivateEgressTarget
  cmd_operation :: PrivateEgressOperation

datatype PrivateEgressError =
  InvalidCommand
| InvalidResponse
| Expired
| OwnershipMismatch
| ReplayConflict
| InvalidTransition
| CapacityExceeded
| Timeout
| HandlerRejected
| Draining
| StateUnavailable
| DeadEpoch
| DeadEpochRecoveryFailed

primrec egress_error_code :: "PrivateEgressError \<Rightarrow> rstr" where
  "egress_error_code InvalidCommand = lit ''invalid_command''"
| "egress_error_code InvalidResponse = lit ''invalid_response''"
| "egress_error_code Expired = lit ''expired''"
| "egress_error_code OwnershipMismatch = lit ''ownership_mismatch''"
| "egress_error_code ReplayConflict = lit ''replay_conflict''"
| "egress_error_code InvalidTransition = lit ''invalid_transition''"
| "egress_error_code CapacityExceeded = lit ''capacity_exceeded''"
| "egress_error_code PrivateEgressError.Timeout = lit ''timeout''"
| "egress_error_code HandlerRejected = lit ''handler_rejected''"
| "egress_error_code Draining = lit ''draining''"
| "egress_error_code StateUnavailable = lit ''state_unavailable''"
| "egress_error_code DeadEpoch = lit ''dead_epoch''"
| "egress_error_code DeadEpochRecoveryFailed = lit ''dead_epoch_recovery_failed''"

text \<open>\<open>byte.is_ascii_alphanumeric() || b"._:-".contains(&byte)\<close>.\<close>

definition component_byte :: "rchar \<Rightarrow> bool" where
  "component_byte c \<longleftrightarrow> ascii_alphanumeric c \<or> c \<in> set (lit ''._:-'')"

definition valid_component :: "rstr \<Rightarrow> nat \<Rightarrow> bool" where
  "valid_component v maximum \<longleftrightarrow> v \<noteq> [] \<and> utf8_len v \<le> maximum \<and> list_all component_byte v"

definition starts_with :: "rstr \<Rightarrow> rstr \<Rightarrow> bool" where
  "starts_with s p \<longleftrightarrow> take (length p) s = p"

definition dtmf_digit :: "rchar \<Rightarrow> bool" where
  "dtmf_digit c \<longleftrightarrow> ascii_digit c \<or> c \<in> set (lit ''*#'') \<or> (65 \<le> c \<and> c \<le> 68) \<or> (97 \<le> c \<and> c \<le> 100)"

fun target_ok :: "PrivateEgressTransport \<Rightarrow> rstr \<Rightarrow> bool" where
  "target_ok transport target \<longleftrightarrow>
     target \<noteq> [] \<and> utf8_len target \<le> MAX_TARGET_BYTES \<and> \<not> list_ex is_control target \<and>
     (case transport of
        PrivateEgressTransport.Sip \<Rightarrow>
          starts_with target (lit ''sip:'') \<or> starts_with target (lit ''sips:'')
      | PrivateEgressTransport.WebRtc \<Rightarrow> starts_with target (lit ''wss://''))"

definition codec_ok :: "CodecInfo \<Rightarrow> bool" where
  "codec_ok codec \<longleftrightarrow>
     codec_name codec \<noteq> [] \<and> utf8_len (codec_name codec) \<le> 64 \<and> codec_clock_rate_hz codec > 0 \<and>
     1 \<le> codec_channels codec \<and> codec_channels codec \<le> 2 \<and>
     list_all (\<lambda>b. ascii_alphanumeric b \<or> b \<in> set (lit ''._-'')) (codec_name codec)"

definition context_ok :: "(rstr \<times> rstr) list \<Rightarrow> bool" where
  "context_ok ctx \<longleftrightarrow>
     length ctx \<le> MAX_CONTEXT_ENTRIES \<and>
     list_all (\<lambda>(name, value). valid_component name MAX_CONTEXT_NAME_BYTES \<and>
        utf8_len value \<le> MAX_CONTEXT_VALUE_BYTES \<and> \<not> list_ex is_control value) ctx"

fun validate_operation ::
    "wire \<Rightarrow> PrivateEgressOperation \<Rightarrow> (PrivateEgressError, unit) result" where
  "validate_operation w (Prepare transport profile codec target initial_context) =
     (if \<not> target_ok transport target \<or>
         \<not> (valid_component (profile_id profile) MAX_PROFILE_ID_BYTES \<and>
            valid_component (profile_revision profile) MAX_PROFILE_REVISION_BYTES) \<or>
         \<not> codec_ok codec \<or> \<not> context_ok initial_context
      then Inl InvalidCommand else Inr ())"
| "validate_operation w (Dtmf digits duration_ms) =
     (if digits = [] \<or> utf8_len digits > 32 \<or> \<not> (40 \<le> duration_ms \<and> duration_ms \<le> 6000) \<or>
         \<not> list_all dtmf_digit digits
      then Inl InvalidCommand else Inr ())"
| "validate_operation w (PrivateEgressOperation.DataMessage message) =
     (if \<not> message_validate w message then Inl InvalidCommand
      else if \<not> dm_reliable_ordered message \<or> is_private_egress_label (dm_label message)
      then Inl InvalidCommand else Inr ())"
| "validate_operation w Activate = Inr ()"
| "validate_operation w Abort = Inr ()"
| "validate_operation w (End reason) = Inr ()"

fun operation_name :: "PrivateEgressOperation \<Rightarrow> rstr" where
  "operation_name (Prepare _ _ _ _ _) = lit ''prepare''"
| "operation_name Activate = lit ''activate''"
| "operation_name Abort = lit ''abort''"
| "operation_name (End _) = lit ''end''"
| "operation_name (Dtmf _ _) = lit ''dtmf''"
| "operation_name (PrivateEgressOperation.DataMessage _) = lit ''data-message''"

definition command_validate ::
    "wire \<Rightarrow> PrivateEgressCommand \<Rightarrow> millis \<Rightarrow> (PrivateEgressError, unit) result" where
  "command_validate w c now =
     (if cmd_version c \<noteq> PROTOCOL_VERSION \<or> cmd_command_id c = 0 then Inl InvalidCommand
      else
        (case checked_i64 (cmd_expires_at_ms c - cmd_issued_at_ms c) of
           None \<Rightarrow> Inl InvalidCommand
         | Some lifetime \<Rightarrow>
             if \<not> lifetime > 0 then Inl InvalidCommand
             else if lifetime > int (as_millis MAX_COMMAND_LIFETIME) then Inl InvalidCommand
             else if cmd_issued_at_ms c > sat_i64 (now + int (as_millis MAX_CLOCK_SKEW)) \<or>
                     cmd_expires_at_ms c < now
             then Inl Expired
             else validate_operation w (cmd_operation c)))"

definition PrivateEgressCommand_new ::
    "wire \<Rightarrow> uuid \<Rightarrow> millis \<Rightarrow> duration \<Rightarrow> WorkerLease \<Rightarrow> PrivateEgressSource \<Rightarrow>
     PrivateEgressTarget \<Rightarrow> PrivateEgressOperation \<Rightarrow>
     (PrivateEgressError, PrivateEgressCommand) result" where
  "PrivateEgressCommand_new w command_id now lifetime worker source target operation =
     (let lifetime_ms = int (as_millis lifetime)
      in if \<not> (lifetime_ms \<le> I64_MAX \<and> lifetime_ms > 0) then Inl InvalidCommand
         else
           (case checked_i64 (now + lifetime_ms) of
              None \<Rightarrow> Inl InvalidCommand
            | Some expires_at \<Rightarrow>
                let command =
                  \<lparr>cmd_version = PROTOCOL_VERSION, cmd_command_id = command_id,
                   cmd_issued_at_ms = now, cmd_expires_at_ms = expires_at, cmd_worker = worker,
                   cmd_source = source, cmd_target = target, cmd_operation = operation\<rparr>
                in and_then (command_validate w command now) (\<lambda>_. Inr command)))"

section \<open>Responses and lifecycle events\<close>

datatype PrivateEgressLifecycleState = Prepared | Active | Ended | Failed

datatype PrivateEgressLifecycleKind =
  State PrivateEgressLifecycleState "rstr option"
| Progress u16 bool

record PrivateEgressResponse =
  resp_version :: u8
  resp_command_id :: uuid
  resp_accepted :: bool
  resp_replayed :: bool
  resp_state :: "PrivateEgressLifecycleState option"
  resp_failure_code :: "rstr option"
  resp_external_reference :: "rstr option"

definition response_rejected :: "uuid \<Rightarrow> PrivateEgressError \<Rightarrow> PrivateEgressResponse" where
  "response_rejected command_id error =
     \<lparr>resp_version = PROTOCOL_VERSION, resp_command_id = command_id, resp_accepted = False,
      resp_replayed = False, resp_state = None, resp_failure_code = Some (egress_error_code error),
      resp_external_reference = None\<rparr>"

record PrivateEgressLifecycleEvent =
  ev_version :: u8
  ev_event_id :: uuid
  ev_worker :: WorkerLease
  ev_source :: PrivateEgressSource
  ev_target :: PrivateEgressTarget
  ev_gateway_epoch :: uuid
  ev_sequence :: u64
  ev_kind :: PrivateEgressLifecycleKind

definition lifecycle_validate_kind ::
    "PrivateEgressLifecycleEvent \<Rightarrow> (PrivateEgressError, unit) result" where
  "lifecycle_validate_kind e =
     (case ev_kind e of
        State _ reason_code \<Rightarrow>
          if (case reason_code of None \<Rightarrow> False
              | Some reason \<Rightarrow> reason = [] \<or> utf8_len reason > 128 \<or> \<not> list_all component_byte reason)
          then Inl InvalidResponse else Inr ()
      | Progress status_code _ \<Rightarrow>
          if \<not> (100 \<le> status_code \<and> status_code \<le> 199) then Inl InvalidResponse else Inr ())"

text \<open>The random identifier of a new event is an argument.\<close>

definition lifecycle_new ::
    "uuid \<Rightarrow> WorkerLease \<Rightarrow> PrivateEgressSource \<Rightarrow> PrivateEgressTarget \<Rightarrow>
     PrivateEgressLifecycleState \<Rightarrow> rstr option \<Rightarrow>
     (PrivateEgressError, PrivateEgressLifecycleEvent) result" where
  "lifecycle_new new_v4 worker source target state reason_code =
     (let event = \<lparr>ev_version = PROTOCOL_VERSION, ev_event_id = new_v4, ev_worker = worker,
                   ev_source = source, ev_target = target, ev_gateway_epoch = 0, ev_sequence = 0,
                   ev_kind = State state reason_code\<rparr>
      in and_then (lifecycle_validate_kind event) (\<lambda>_. Inr event))"

definition lifecycle_progress ::
    "uuid \<Rightarrow> WorkerLease \<Rightarrow> PrivateEgressSource \<Rightarrow> PrivateEgressTarget \<Rightarrow> u16 \<Rightarrow> bool \<Rightarrow>
     (PrivateEgressError, PrivateEgressLifecycleEvent) result" where
  "lifecycle_progress new_v4 worker source target status_code early_media =
     (let event = \<lparr>ev_version = PROTOCOL_VERSION, ev_event_id = new_v4, ev_worker = worker,
                   ev_source = source, ev_target = target, ev_gateway_epoch = 0, ev_sequence = 0,
                   ev_kind = Progress status_code early_media\<rparr>
      in and_then (lifecycle_validate_kind event) (\<lambda>_. Inr event))"

definition lifecycle_state :: "PrivateEgressLifecycleEvent \<Rightarrow> PrivateEgressLifecycleState option" where
  "lifecycle_state e = (case ev_kind e of State state _ \<Rightarrow> Some state | Progress _ _ \<Rightarrow> None)"

definition progress_details :: "PrivateEgressLifecycleEvent \<Rightarrow> (u16 \<times> bool) option" where
  "progress_details e =
     (case ev_kind e of Progress status early \<Rightarrow> Some (status, early) | State _ _ \<Rightarrow> None)"

definition lifecycle_is_terminal :: "PrivateEgressLifecycleEvent \<Rightarrow> bool" where
  "lifecycle_is_terminal e \<longleftrightarrow>
     (case lifecycle_state e of None \<Rightarrow> False
      | Some state \<Rightarrow> state = PrivateEgressLifecycleState.Ended \<or>
                      state = PrivateEgressLifecycleState.Failed)"

record PrivateEgressLifecycleAck =
  ack_version :: u8
  ack_event_id :: uuid
  ack_worker :: WorkerLease
  ack_source :: PrivateEgressSource
  ack_target :: PrivateEgressTarget
  ack_gateway_epoch :: uuid
  ack_sequence :: u64

definition ack_from_event ::
    "PrivateEgressLifecycleEvent \<Rightarrow> (PrivateEgressError, PrivateEgressLifecycleAck) result" where
  "ack_from_event e =
     (if ev_gateway_epoch e = 0 \<or> ev_sequence e = 0 then Inl InvalidResponse
      else Inr \<lparr>ack_version = PROTOCOL_VERSION, ack_event_id = ev_event_id e,
                ack_worker = ev_worker e, ack_source = ev_source e, ack_target = ev_target e,
                ack_gateway_epoch = ev_gateway_epoch e, ack_sequence = ev_sequence e\<rparr>)"

section \<open>Data messages\<close>

definition validate_wire_message ::
    "wire \<Rightarrow> DataMessage \<Rightarrow> rstr \<Rightarrow> (PrivateEgressError, unit) result" where
  "validate_wire_message w message expected_label =
     (if \<not> message_validate w message then Inl InvalidCommand
      else if dm_label message \<noteq> expected_label \<or>
              dm_content_type message \<noteq> PRIVATE_EGRESS_CONTENT_TYPE \<or>
              \<not> dm_reliable_ordered message \<or> length (dm_bytes message) > MAX_COMMAND_BYTES
      then Inl InvalidCommand else Inr ())"

text \<open>
  The tail the four \<open>to_data_message\<close> functions share: encode, bound the size, wrap.
\<close>

definition wrap_message ::
    "wire \<Rightarrow> PrivateEgressError \<Rightarrow> rstr \<Rightarrow> bytes option \<Rightarrow> (PrivateEgressError, DataMessage) result" where
  "wrap_message w err label encoded =
     (case encoded of None \<Rightarrow> Inl err
      | Some bs \<Rightarrow> if length bs > MAX_COMMAND_BYTES then Inl err
                   else Inr (message_reliable w label PRIVATE_EGRESS_CONTENT_TYPE bs))"

definition command_to_data_message ::
    "wire \<Rightarrow> (PrivateEgressCommand \<Rightarrow> bytes option) \<Rightarrow> PrivateEgressCommand \<Rightarrow>
     (PrivateEgressError, DataMessage) result" where
  "command_to_data_message w to_vec c =
     wrap_message w InvalidCommand PRIVATE_EGRESS_COMMAND_LABEL (to_vec c)"

definition command_from_data_message ::
    "wire \<Rightarrow> (bytes \<Rightarrow> PrivateEgressCommand option) \<Rightarrow> DataMessage \<Rightarrow> millis \<Rightarrow>
     (PrivateEgressError, PrivateEgressCommand) result" where
  "command_from_data_message w from_slice message now =
     and_then (validate_wire_message w message PRIVATE_EGRESS_COMMAND_LABEL) (\<lambda>_.
       case from_slice (dm_bytes message) of
         None \<Rightarrow> Inl InvalidCommand
       | Some command \<Rightarrow> and_then (command_validate w command now) (\<lambda>_. Inr command))"

definition command_digest ::
    "(PrivateEgressCommand \<Rightarrow> bytes option) \<Rightarrow> (bytes \<Rightarrow> 256 word) \<Rightarrow> PrivateEgressCommand \<Rightarrow>
     (PrivateEgressError, 256 word) result" where
  "command_digest to_vec sha256 c =
     (case to_vec c of None \<Rightarrow> Inl InvalidCommand | Some encoded \<Rightarrow> Inr (sha256 encoded))"

definition response_to_data_message ::
    "wire \<Rightarrow> (PrivateEgressResponse \<Rightarrow> bytes option) \<Rightarrow> PrivateEgressResponse \<Rightarrow>
     (PrivateEgressError, DataMessage) result" where
  "response_to_data_message w to_vec r =
     wrap_message w InvalidResponse PRIVATE_EGRESS_RESPONSE_LABEL (to_vec r)"

definition response_from_data_message ::
    "wire \<Rightarrow> (bytes \<Rightarrow> PrivateEgressResponse option) \<Rightarrow> DataMessage \<Rightarrow>
     (PrivateEgressError, PrivateEgressResponse) result" where
  "response_from_data_message w from_slice message =
     and_then (validate_wire_message w message PRIVATE_EGRESS_RESPONSE_LABEL) (\<lambda>_.
       case from_slice (dm_bytes message) of
         None \<Rightarrow> Inl InvalidResponse
       | Some response \<Rightarrow>
           if resp_version response \<noteq> PROTOCOL_VERSION \<or> resp_command_id response = 0
           then Inl InvalidResponse else Inr response)"

definition unjournaled :: "PrivateEgressLifecycleEvent \<Rightarrow> bool" where
  "unjournaled e \<longleftrightarrow>
     ev_version e \<noteq> PROTOCOL_VERSION \<or> ev_event_id e = 0 \<or> ev_gateway_epoch e = 0 \<or>
     ev_sequence e = 0"

definition lifecycle_to_data_message ::
    "wire \<Rightarrow> (PrivateEgressLifecycleEvent \<Rightarrow> bytes option) \<Rightarrow> PrivateEgressLifecycleEvent \<Rightarrow>
     (PrivateEgressError, DataMessage) result" where
  "lifecycle_to_data_message w to_vec e =
     (if unjournaled e then Inl InvalidResponse
      else and_then (lifecycle_validate_kind e) (\<lambda>_.
        wrap_message w InvalidResponse PRIVATE_EGRESS_LIFECYCLE_LABEL (to_vec e)))"

definition lifecycle_from_data_message ::
    "wire \<Rightarrow> (bytes \<Rightarrow> PrivateEgressLifecycleEvent option) \<Rightarrow> DataMessage \<Rightarrow>
     (PrivateEgressError, PrivateEgressLifecycleEvent) result" where
  "lifecycle_from_data_message w from_slice message =
     and_then (validate_wire_message w message PRIVATE_EGRESS_LIFECYCLE_LABEL) (\<lambda>_.
       case from_slice (dm_bytes message) of
         None \<Rightarrow> Inl InvalidResponse
       | Some event \<Rightarrow>
           if unjournaled event then Inl InvalidResponse
           else and_then (lifecycle_validate_kind event) (\<lambda>_. Inr event))"

definition ack_incomplete :: "PrivateEgressLifecycleAck \<Rightarrow> bool" where
  "ack_incomplete a \<longleftrightarrow>
     ack_version a \<noteq> PROTOCOL_VERSION \<or> ack_event_id a = 0 \<or> ack_gateway_epoch a = 0 \<or>
     ack_sequence a = 0"

definition ack_to_data_message ::
    "wire \<Rightarrow> (PrivateEgressLifecycleAck \<Rightarrow> bytes option) \<Rightarrow> PrivateEgressLifecycleAck \<Rightarrow>
     (PrivateEgressError, DataMessage) result" where
  "ack_to_data_message w to_vec a =
     (if ack_incomplete a then Inl InvalidResponse
      else wrap_message w InvalidResponse PRIVATE_EGRESS_LIFECYCLE_ACK_LABEL (to_vec a))"

definition ack_from_data_message ::
    "wire \<Rightarrow> (bytes \<Rightarrow> PrivateEgressLifecycleAck option) \<Rightarrow> DataMessage \<Rightarrow>
     (PrivateEgressError, PrivateEgressLifecycleAck) result" where
  "ack_from_data_message w from_slice message =
     and_then (validate_wire_message w message PRIVATE_EGRESS_LIFECYCLE_ACK_LABEL) (\<lambda>_.
       case from_slice (dm_bytes message) of
         None \<Rightarrow> Inl InvalidResponse
       | Some ack \<Rightarrow> if ack_incomplete ack then Inl InvalidResponse else Inr ack)"

end
