(* ===== verification/Egress_Store.thy ===== *)
theory Egress_Store
  imports Egress_Types Assoc_Map
begin

text \<open>
  The standalone state store of a private egress gateway (\<open>src/private_egress_state.rs\<close>): the
  claims of commands, the routes with their pending transitions, and the journal of lifecycle
  events, all fenced by the epoch (process incarnation) of a gateway. Each operation takes the
  store and returns its reply with the store it leaves, also when it fails. The four hash maps are
  association lists; the guard of the mutex is recovered from a poisoned lock by the code, so no
  operation fails on it.
\<close>

declare map_of_eq_Some_iff [simp del]

section \<open>Data\<close>

record PrivateEgressGatewayEpoch =
  ge_gateway_id :: rstr
  ge_instance_id :: uuid

definition PrivateEgressGatewayEpoch_new ::
    "rstr \<Rightarrow> uuid \<Rightarrow> (PrivateEgressError, PrivateEgressGatewayEpoch) result" where
  "PrivateEgressGatewayEpoch_new gateway_id instance_id =
     (if gateway_id = [] \<or> utf8_len gateway_id > 128 \<or> instance_id = 0 \<or>
         \<not> list_all (\<lambda>b. ascii_alphanumeric b \<or> b \<in> set (lit ''._-:'')) gateway_id
      then Inl InvalidCommand
      else Inr \<lparr>ge_gateway_id = gateway_id, ge_instance_id = instance_id\<rparr>)"

definition epoch_standalone :: "uuid \<Rightarrow> PrivateEgressGatewayEpoch" where
  "epoch_standalone new_v4 = \<lparr>ge_gateway_id = lit ''standalone'', ge_instance_id = new_v4\<rparr>"

record PrivateEgressRouteAuthority =
  auth_worker :: WorkerLease
  auth_source :: PrivateEgressSource

record PrivateEgressRouteKey =
  rk_worker :: WorkerLease
  rk_tenant_id :: TenantId
  rk_call_id :: CallId
  rk_source_leg_id :: LegId
  rk_source_binding_generation :: BindingGeneration
  rk_target :: PrivateEgressTarget

definition PrivateEgressRouteKey_new ::
    "WorkerLease \<Rightarrow> PrivateEgressSource \<Rightarrow> PrivateEgressTarget \<Rightarrow> PrivateEgressRouteKey" where
  "PrivateEgressRouteKey_new worker source target =
     \<lparr>rk_worker = worker, rk_tenant_id = src_tenant_id source, rk_call_id = src_call_id source,
      rk_source_leg_id = src_leg_id source,
      rk_source_binding_generation = src_binding_generation source, rk_target = target\<rparr>"

definition key_authority :: "PrivateEgressRouteKey \<Rightarrow> PrivateEgressRouteAuthority" where
  "key_authority k =
     \<lparr>auth_worker = rk_worker k,
      auth_source = \<lparr>src_tenant_id = rk_tenant_id k, src_call_id = rk_call_id k,
                     src_leg_id = rk_source_leg_id k,
                     src_binding_generation = rk_source_binding_generation k\<rparr>\<rparr>"

definition belongs_to :: "PrivateEgressRouteKey \<Rightarrow> PrivateEgressRouteAuthority \<Rightarrow> bool" where
  "belongs_to k a \<longleftrightarrow>
     rk_worker k = auth_worker a \<and> rk_tenant_id k = src_tenant_id (auth_source a) \<and>
     rk_call_id k = src_call_id (auth_source a) \<and>
     rk_source_leg_id k = src_leg_id (auth_source a) \<and>
     rk_source_binding_generation k = src_binding_generation (auth_source a)"

datatype PrivateEgressCommandClaim = Acquired | InFlight | Completed PrivateEgressResponse

record PrivateEgressRecoveredRoute =
  rec_dead_epoch :: uuid
  rec_key :: PrivateEgressRouteKey

record MemoryCommandRecord =
  cr_epoch :: uuid
  cr_digest :: "256 word"
  cr_created_at_ms :: millis
  cr_completed_at_ms :: "millis option"
  cr_response :: "PrivateEgressResponse option"

record MemoryRouteRecord =
  rr_epoch :: uuid
  rr_state :: "PrivateEgressLifecycleState option"
  rr_pending :: "(uuid \<times> PrivateEgressLifecycleState) option"
  rr_next_lifecycle_sequence :: u64
  rr_tombstoned_at_ms :: "millis option"
  rr_recovery_required :: bool

record MemoryLifecycleRecord =
  lr_epoch :: uuid
  lr_key :: PrivateEgressRouteKey
  lr_event :: PrivateEgressLifecycleEvent
  lr_acked :: bool
  lr_created_at_ms :: millis

record EgressMemoryState =
  es_active_epochs :: "(rstr \<times> uuid) list"
  es_commands :: "((rstr \<times> uuid) \<times> MemoryCommandRecord) list"
  es_routes :: "((rstr \<times> PrivateEgressRouteKey) \<times> MemoryRouteRecord) list"
  es_lifecycle :: "((rstr \<times> uuid) \<times> MemoryLifecycleRecord) list"

record MemoryPrivateEgressStateStore =
  st_max_entries :: nat
  st_ttl :: duration
  st_state :: EgressMemoryState

type_synonym store = MemoryPrivateEgressStateStore
type_synonym 'a reply = "(PrivateEgressError, 'a) result \<times> store"

definition egress_state_default :: EgressMemoryState where
  "egress_state_default =
     \<lparr>es_active_epochs = [], es_commands = [], es_routes = [], es_lifecycle = []\<rparr>"

definition MemoryPrivateEgressStateStore_new ::
    "nat \<Rightarrow> duration \<Rightarrow> (PrivateEgressError, store) result" where
  "MemoryPrivateEgressStateStore_new max_entries ttl =
     (if max_entries = 0 \<or> ttl = 0 then Inl InvalidCommand
      else Inr \<lparr>st_max_entries = max_entries, st_ttl = ttl, st_state = egress_state_default\<rparr>)"

section \<open>Epochs\<close>

definition egress_is_terminal :: "PrivateEgressLifecycleState \<Rightarrow> bool" where
  "egress_is_terminal s \<longleftrightarrow>
     s = PrivateEgressLifecycleState.Ended \<or> s = PrivateEgressLifecycleState.Failed"

fun lifecycle_transition_allowed ::
    "PrivateEgressLifecycleState \<Rightarrow> PrivateEgressLifecycleState \<Rightarrow> bool" where
  "lifecycle_transition_allowed Prepared _ = True"
| "lifecycle_transition_allowed PrivateEgressLifecycleState.Active n \<longleftrightarrow>
     n = PrivateEgressLifecycleState.Active \<or> n = PrivateEgressLifecycleState.Ended \<or>
     n = PrivateEgressLifecycleState.Failed"
| "lifecycle_transition_allowed PrivateEgressLifecycleState.Ended _ = False"
| "lifecycle_transition_allowed PrivateEgressLifecycleState.Failed _ = False"

definition ensure_epoch ::
    "EgressMemoryState \<Rightarrow> PrivateEgressGatewayEpoch \<Rightarrow> (PrivateEgressError, unit) result" where
  "ensure_epoch s epoch =
     (if map_of (es_active_epochs s) (ge_gateway_id epoch) = Some (ge_instance_id epoch)
      then Inr () else Inl DeadEpoch)"

text \<open>
  A route is live while a transition is pending or its state is not terminal; the test is written
  out twice in the source, in \<open>begin_epoch_locked\<close> and in \<open>fail_source\<close>.
\<close>

definition route_live :: "MemoryRouteRecord \<Rightarrow> bool" where
  "route_live r \<longleftrightarrow>
     rr_pending r \<noteq> None \<or>
     (case rr_state r of None \<Rightarrow> False | Some s \<Rightarrow> \<not> egress_is_terminal s)"

definition fence_command ::
    "PrivateEgressGatewayEpoch \<Rightarrow> millis \<Rightarrow> rstr \<times> uuid \<Rightarrow> MemoryCommandRecord \<Rightarrow> MemoryCommandRecord" where
  "fence_command epoch at_ms k command =
     (if fst k = ge_gateway_id epoch \<and> cr_epoch command \<noteq> ge_instance_id epoch
      then command\<lparr>cr_epoch := ge_instance_id epoch,
                   cr_response := Some (response_rejected (snd k) DeadEpoch),
                   cr_completed_at_ms := Some at_ms\<rparr>
      else command)"

definition fence_route ::
    "PrivateEgressGatewayEpoch \<Rightarrow> uuid \<Rightarrow> millis \<Rightarrow> rstr \<times> PrivateEgressRouteKey \<Rightarrow>
     MemoryRouteRecord \<Rightarrow> MemoryRouteRecord" where
  "fence_route epoch dead_epoch at_ms k route =
     (if fst k = ge_gateway_id epoch \<and> rr_epoch route = dead_epoch \<and> route_live route
      then route\<lparr>rr_pending := None, rr_state := Some PrivateEgressLifecycleState.Failed,
                 rr_tombstoned_at_ms := Some at_ms, rr_recovery_required := True\<rparr>
      else route)"

definition begin_epoch_locked ::
    "EgressMemoryState \<Rightarrow> PrivateEgressGatewayEpoch \<Rightarrow> millis \<Rightarrow>
     PrivateEgressRecoveredRoute list \<times> EgressMemoryState" where
  "begin_epoch_locked s epoch at_ms =
     (let previous = map_of (es_active_epochs s) (ge_gateway_id epoch);
          s1 = s\<lparr>es_active_epochs :=
                 AList.update (ge_gateway_id epoch) (ge_instance_id epoch) (es_active_epochs s)\<rparr>;
          s2 = (case previous of
                  None \<Rightarrow> s1
                | Some dead_epoch \<Rightarrow>
                    if dead_epoch = ge_instance_id epoch then s1
                    else s1\<lparr>es_commands :=
                              map (\<lambda>(k, c). (k, fence_command epoch at_ms k c)) (es_commands s1),
                            es_routes :=
                              map (\<lambda>(k, r). (k, fence_route epoch dead_epoch at_ms k r))
                                (es_routes s1)\<rparr>)
      in (map (\<lambda>((_, key), route). \<lparr>rec_dead_epoch = rr_epoch route, rec_key = key\<rparr>)
            (filter (\<lambda>((gateway, _), route).
               gateway = ge_gateway_id epoch \<and> rr_recovery_required route) (es_routes s2)),
          s2))"

definition activate ::
    "store \<Rightarrow> PrivateEgressGatewayEpoch \<Rightarrow> millis \<Rightarrow> PrivateEgressRecoveredRoute list \<times> store" where
  "activate st epoch at_ms =
     (let (recovered, s) = begin_epoch_locked (st_state st) epoch at_ms
      in (recovered, st\<lparr>st_state := s\<rparr>))"

definition begin_epoch ::
    "store \<Rightarrow> PrivateEgressGatewayEpoch \<Rightarrow> millis \<Rightarrow> PrivateEgressRecoveredRoute list reply" where
  "begin_epoch st epoch at_ms =
     (let (recovered, st') = activate st epoch at_ms in (Inr recovered, st'))"

definition assert_epoch :: "store \<Rightarrow> PrivateEgressGatewayEpoch \<Rightarrow> unit reply" where
  "assert_epoch st epoch =
     (if map_of (es_active_epochs (st_state st)) (ge_gateway_id epoch) = Some (ge_instance_id epoch)
      then (Inr (), st) else (Inl DeadEpoch, st))"

text \<open>
  \<open>set_route\<close>, \<open>set_command\<close> and \<open>set_journal\<close> write through the mutable borrow of a map entry
  or insert a new one.
\<close>

definition set_route ::
    "store \<Rightarrow> rstr \<times> PrivateEgressRouteKey \<Rightarrow> MemoryRouteRecord \<Rightarrow> store" where
  "set_route st k r =
     st\<lparr>st_state := (st_state st)\<lparr>es_routes := AList.update k r (es_routes (st_state st))\<rparr>\<rparr>"

definition set_command :: "store \<Rightarrow> rstr \<times> uuid \<Rightarrow> MemoryCommandRecord \<Rightarrow> store" where
  "set_command st k r =
     st\<lparr>st_state := (st_state st)\<lparr>es_commands := AList.update k r (es_commands (st_state st))\<rparr>\<rparr>"

definition set_journal :: "store \<Rightarrow> rstr \<times> uuid \<Rightarrow> MemoryLifecycleRecord \<Rightarrow> store" where
  "set_journal st k r =
     st\<lparr>st_state := (st_state st)\<lparr>es_lifecycle := AList.update k r (es_lifecycle (st_state st))\<rparr>\<rparr>"

abbreviation routes_of :: "store \<Rightarrow> rstr \<times> PrivateEgressRouteKey \<Rightarrow> MemoryRouteRecord option" where
  "routes_of st \<equiv> map_of (es_routes (st_state st))"

abbreviation commands_of :: "store \<Rightarrow> rstr \<times> uuid \<Rightarrow> MemoryCommandRecord option" where
  "commands_of st \<equiv> map_of (es_commands (st_state st))"

abbreviation journal_of :: "store \<Rightarrow> rstr \<times> uuid \<Rightarrow> MemoryLifecycleRecord option" where
  "journal_of st \<equiv> map_of (es_lifecycle (st_state st))"

abbreviation epoch_of :: "store \<Rightarrow> rstr \<Rightarrow> uuid option" where
  "epoch_of st \<equiv> map_of (es_active_epochs (st_state st))"

definition complete_route_recovery ::
    "store \<Rightarrow> PrivateEgressGatewayEpoch \<Rightarrow> PrivateEgressRouteKey \<Rightarrow> unit reply" where
  "complete_route_recovery st epoch key =
     (case ensure_epoch (st_state st) epoch of
        Inl e \<Rightarrow> (Inl e, st)
      | Inr _ \<Rightarrow>
          (case routes_of st (ge_gateway_id epoch, key) of
             None \<Rightarrow> (Inl StateUnavailable, st)
           | Some route \<Rightarrow>
               if \<not> rr_recovery_required route \<or>
                  rr_state route \<noteq> Some PrivateEgressLifecycleState.Failed \<or>
                  rr_tombstoned_at_ms route = None
               then (Inl InvalidTransition, st)
               else (Inr (), set_route st (ge_gateway_id epoch, key)
                               (route\<lparr>rr_recovery_required := False\<rparr>))))"

section \<open>Retention\<close>

definition ttl_ms :: "store \<Rightarrow> millis" where
  "ttl_ms st = min (int (as_millis (st_ttl st))) I64_MAX"

definition keep_command :: "millis \<Rightarrow> millis \<Rightarrow> MemoryCommandRecord \<Rightarrow> bool" where
  "keep_command ttl at_ms record \<longleftrightarrow>
     (let completed = (case cr_completed_at_ms record of
                         Some t \<Rightarrow> t | None \<Rightarrow> cr_created_at_ms record)
      in sat_i64 (at_ms - completed) < ttl \<or> cr_response record = None)"

definition expired_route :: "millis \<Rightarrow> millis \<Rightarrow> MemoryRouteRecord \<Rightarrow> bool" where
  "expired_route ttl at_ms route \<longleftrightarrow>
     \<not> rr_recovery_required route \<and>
     (case rr_tombstoned_at_ms route of
        None \<Rightarrow> False | Some completed \<Rightarrow> sat_i64 (at_ms - completed) \<ge> ttl)"

definition drop_route ::
    "EgressMemoryState \<Rightarrow> rstr \<times> PrivateEgressRouteKey \<Rightarrow> EgressMemoryState" where
  "drop_route s key =
     s\<lparr>es_routes := AList.delete key (es_routes s),
       es_lifecycle :=
         filter (\<lambda>((gateway, _), event). \<not> (gateway = fst key \<and> lr_key event = snd key))
           (es_lifecycle s)\<rparr>"

definition sweep_locked :: "store \<Rightarrow> EgressMemoryState \<Rightarrow> millis \<Rightarrow> EgressMemoryState" where
  "sweep_locked st s at_ms =
     (let ttl = ttl_ms st;
          s1 = s\<lparr>es_commands := filter (\<lambda>(_, record). keep_command ttl at_ms record) (es_commands s)\<rparr>;
          expired_routes =
            map fst (filter (\<lambda>(_, route). expired_route ttl at_ms route) (es_routes s1));
          s2 = foldl drop_route s1 expired_routes
      in s2\<lparr>es_lifecycle :=
              filter (\<lambda>(_, event). \<not> lr_acked event \<or> sat_i64 (at_ms - lr_created_at_ms event) < ttl)
                (es_lifecycle s2)\<rparr>)"

section \<open>Commands\<close>

definition claim_command ::
    "store \<Rightarrow> PrivateEgressGatewayEpoch \<Rightarrow> uuid \<Rightarrow> 256 word \<Rightarrow> millis \<Rightarrow>
     PrivateEgressCommandClaim reply" where
  "claim_command st epoch command_id digest at_ms =
     (case ensure_epoch (st_state st) epoch of
        Inl e \<Rightarrow> (Inl e, st)
      | Inr _ \<Rightarrow>
          let st1 = st\<lparr>st_state := sweep_locked st (st_state st) at_ms\<rparr>;
              key = (ge_gateway_id epoch, command_id)
          in (case commands_of st1 key of
                Some record \<Rightarrow>
                  if cr_digest record \<noteq> digest then (Inl ReplayConflict, st1)
                  else (Inr (case cr_response record of
                               Some response \<Rightarrow> Completed response | None \<Rightarrow> InFlight), st1)
              | None \<Rightarrow>
                  if length (es_commands (st_state st1)) \<ge> st_max_entries st1
                  then (Inl CapacityExceeded, st1)
                  else (Inr Acquired,
                        set_command st1 key
                          \<lparr>cr_epoch = ge_instance_id epoch, cr_digest = digest,
                           cr_created_at_ms = at_ms, cr_completed_at_ms = None,
                           cr_response = None\<rparr>)))"

definition complete_command ::
    "store \<Rightarrow> PrivateEgressGatewayEpoch \<Rightarrow> uuid \<Rightarrow> 256 word \<Rightarrow> PrivateEgressResponse \<Rightarrow> millis \<Rightarrow>
     unit reply" where
  "complete_command st epoch command_id digest response at_ms =
     (case ensure_epoch (st_state st) epoch of
        Inl e \<Rightarrow> (Inl e, st)
      | Inr _ \<Rightarrow>
          (case commands_of st (ge_gateway_id epoch, command_id) of
             None \<Rightarrow> (Inl StateUnavailable, st)
           | Some record \<Rightarrow>
               if cr_epoch record \<noteq> ge_instance_id epoch \<or> cr_digest record \<noteq> digest
               then (Inl ReplayConflict, st)
               else
                 (case cr_response record of
                    Some existing \<Rightarrow>
                      if existing = response then (Inr (), st) else (Inl ReplayConflict, st)
                  | None \<Rightarrow>
                      (Inr (), set_command st (ge_gateway_id epoch, command_id)
                                 (record\<lparr>cr_response := Some response,
                                         cr_completed_at_ms := Some at_ms\<rparr>)))))"

section \<open>Routes\<close>

definition claim_route_transition ::
    "store \<Rightarrow> PrivateEgressGatewayEpoch \<Rightarrow> PrivateEgressRouteKey \<Rightarrow> uuid \<Rightarrow>
     PrivateEgressLifecycleState option \<Rightarrow> PrivateEgressLifecycleState \<Rightarrow> unit reply" where
  "claim_route_transition st epoch key command_id expected next_state =
     (case ensure_epoch (st_state st) epoch of
        Inl e \<Rightarrow> (Inl e, st)
      | Inr _ \<Rightarrow>
          let route_key = (ge_gateway_id epoch, key)
          in (case routes_of st route_key of
                Some route \<Rightarrow>
                  if rr_epoch route = ge_instance_id epoch \<and> rr_state route = expected \<and>
                     rr_pending route = None \<and> rr_tombstoned_at_ms route = None
                  then (Inr (), set_route st route_key
                                  (route\<lparr>rr_pending := Some (command_id, next_state)\<rparr>))
                  else (Inl InvalidTransition, st)
              | None \<Rightarrow>
                  if expected = None
                  then if length (es_routes (st_state st)) \<ge> st_max_entries st
                       then (Inl CapacityExceeded, st)
                       else (Inr (),
                             set_route st route_key
                               \<lparr>rr_epoch = ge_instance_id epoch, rr_state = None,
                                rr_pending = Some (command_id, next_state),
                                rr_next_lifecycle_sequence = 0, rr_tombstoned_at_ms = None,
                                rr_recovery_required = False\<rparr>)
                  else (Inl InvalidTransition, st)))"

definition complete_route_transition ::
    "store \<Rightarrow> PrivateEgressGatewayEpoch \<Rightarrow> PrivateEgressRouteKey \<Rightarrow> uuid \<Rightarrow>
     PrivateEgressLifecycleState \<Rightarrow> millis \<Rightarrow> unit reply" where
  "complete_route_transition st epoch key command_id next_state at_ms =
     (case ensure_epoch (st_state st) epoch of
        Inl e \<Rightarrow> (Inl e, st)
      | Inr _ \<Rightarrow>
          (case routes_of st (ge_gateway_id epoch, key) of
             None \<Rightarrow> (Inl InvalidTransition, st)
           | Some route \<Rightarrow>
               if rr_epoch route \<noteq> ge_instance_id epoch \<or>
                  rr_pending route \<noteq> Some (command_id, next_state)
               then (Inl InvalidTransition, st)
               else (Inr (), set_route st (ge_gateway_id epoch, key)
                      (route\<lparr>rr_pending := None, rr_state := Some next_state,
                             rr_tombstoned_at_ms :=
                               (if egress_is_terminal next_state then Some at_ms
                                else rr_tombstoned_at_ms route)\<rparr>))))"

definition abort_route_transition ::
    "store \<Rightarrow> PrivateEgressGatewayEpoch \<Rightarrow> PrivateEgressRouteKey \<Rightarrow> uuid \<Rightarrow> unit reply" where
  "abort_route_transition st epoch key command_id =
     (case ensure_epoch (st_state st) epoch of
        Inl e \<Rightarrow> (Inl e, st)
      | Inr _ \<Rightarrow>
          let route_key = (ge_gateway_id epoch, key)
          in (case routes_of st route_key of
                None \<Rightarrow> (Inl InvalidTransition, st)
              | Some route \<Rightarrow>
                  if rr_epoch route \<noteq> ge_instance_id epoch \<or>
                     (case rr_pending route of None \<Rightarrow> True | Some (pending, _) \<Rightarrow> pending \<noteq> command_id)
                  then (Inl InvalidTransition, st)
                  else if rr_state route = None
                  then (Inr (), st\<lparr>st_state := (st_state st)\<lparr>es_routes :=
                                   AList.delete route_key (es_routes (st_state st))\<rparr>\<rparr>)
                  else (Inr (), set_route st route_key (route\<lparr>rr_pending := None\<rparr>))))"

definition fail_route :: "rstr \<Rightarrow> millis \<Rightarrow> store \<Rightarrow> PrivateEgressRouteKey \<Rightarrow> store" where
  "fail_route gateway at_ms st key =
     (case routes_of st (gateway, key) of
        None \<Rightarrow> st
      | Some route \<Rightarrow>
          set_route st (gateway, key)
            (route\<lparr>rr_pending := None, rr_state := Some PrivateEgressLifecycleState.Failed,
                   rr_tombstoned_at_ms := Some at_ms\<rparr>))"

definition fail_source ::
    "store \<Rightarrow> PrivateEgressGatewayEpoch \<Rightarrow> PrivateEgressRouteAuthority \<Rightarrow> millis \<Rightarrow>
     PrivateEgressRouteKey list reply" where
  "fail_source st epoch authority at_ms =
     (case ensure_epoch (st_state st) epoch of
        Inl e \<Rightarrow> (Inl e, st)
      | Inr _ \<Rightarrow>
          let keys = map (\<lambda>((_, key), _). key)
                (filter (\<lambda>((gateway, key), route).
                   gateway = ge_gateway_id epoch \<and> rr_epoch route = ge_instance_id epoch \<and>
                   belongs_to key authority \<and> route_live route) (es_routes (st_state st)))
          in (Inr keys, foldl (fail_route (ge_gateway_id epoch) at_ms) st keys))"

section \<open>The lifecycle journal\<close>

text \<open>
  The block of \<open>append_lifecycle\<close> that checks the event against its route and writes the route.
  The second component is the route after the block: the code has already assigned the state when
  the sequence turns out to be exhausted (\<open>- 1\<close> is \<open>u64::MAX\<close>).
\<close>

definition append_to_route ::
    "MemoryRouteRecord \<Rightarrow> PrivateEgressGatewayEpoch \<Rightarrow> PrivateEgressLifecycleEvent \<Rightarrow> millis \<Rightarrow>
     (PrivateEgressError, u64) result \<times> MemoryRouteRecord" where
  "append_to_route route epoch event at_ms =
     (if rr_epoch route \<noteq> ge_instance_id epoch \<or> rr_recovery_required route \<or>
         rr_tombstoned_at_ms route \<noteq> None
      then (Inl InvalidTransition, route)
      else
        (case rr_state route of
           None \<Rightarrow> (Inl InvalidTransition, route)
         | Some current \<Rightarrow>
             let checked =
               (case ev_kind event of
                  State next_state _ \<Rightarrow>
                    if rr_pending route \<noteq> None \<or> \<not> lifecycle_transition_allowed current next_state
                    then None
                    else Some (route\<lparr>rr_state := Some next_state,
                                     rr_tombstoned_at_ms :=
                                       (if egress_is_terminal next_state then Some at_ms
                                        else rr_tombstoned_at_ms route)\<rparr>)
                | Progress status_code _ \<Rightarrow>
                    if current \<noteq> Prepared \<or>
                       \<not> (case rr_pending route of None \<Rightarrow> True
                          | Some (_, n) \<Rightarrow> n = PrivateEgressLifecycleState.Active) \<or>
                       \<not> (100 \<le> status_code \<and> status_code \<le> 199)
                    then None else Some route)
             in (case checked of
                   None \<Rightarrow> (Inl InvalidTransition, route)
                 | Some route1 \<Rightarrow>
                     if rr_next_lifecycle_sequence route1 = - 1
                     then (Inl StateUnavailable, route1)
                     else let sequence = rr_next_lifecycle_sequence route1 + 1
                          in (Inr sequence, route1\<lparr>rr_next_lifecycle_sequence := sequence\<rparr>))))"

definition append_lifecycle ::
    "store \<Rightarrow> PrivateEgressGatewayEpoch \<Rightarrow> PrivateEgressRouteKey \<Rightarrow> PrivateEgressLifecycleEvent \<Rightarrow>
     millis \<Rightarrow> PrivateEgressLifecycleEvent reply" where
  "append_lifecycle st epoch key event at_ms =
     (case ensure_epoch (st_state st) epoch of
        Inl e \<Rightarrow> (Inl e, st)
      | Inr _ \<Rightarrow>
          if ev_worker event \<noteq> rk_worker key \<or> ev_source event \<noteq> auth_source (key_authority key) \<or>
             ev_target event \<noteq> rk_target key \<or> ev_gateway_epoch event \<noteq> 0 \<or> ev_sequence event \<noteq> 0
          then (Inl OwnershipMismatch, st)
          else
            let journal_key = (ge_gateway_id epoch, ev_event_id event)
            in if journal_of st journal_key \<noteq> None then (Inl ReplayConflict, st)
               else if length (es_lifecycle (st_state st)) \<ge> st_max_entries st
               then (Inl CapacityExceeded, st)
               else
                 (case routes_of st (ge_gateway_id epoch, key) of
                    None \<Rightarrow> (Inl InvalidTransition, st)
                  | Some route \<Rightarrow>
                      (case append_to_route route epoch event at_ms of
                         (Inl e, route') \<Rightarrow> (Inl e, set_route st (ge_gateway_id epoch, key) route')
                       | (Inr sequence, route') \<Rightarrow>
                           let stamped = event\<lparr>ev_gateway_epoch := ge_instance_id epoch,
                                               ev_sequence := sequence\<rparr>
                           in (Inr stamped,
                               set_journal (set_route st (ge_gateway_id epoch, key) route') journal_key
                                 \<lparr>lr_epoch = ge_instance_id epoch, lr_key = key, lr_event = stamped,
                                  lr_acked = False, lr_created_at_ms = at_ms\<rparr>))))"

definition ack_lifecycle ::
    "store \<Rightarrow> PrivateEgressGatewayEpoch \<Rightarrow> PrivateEgressRouteKey \<Rightarrow> uuid \<Rightarrow> u64 \<Rightarrow> unit reply" where
  "ack_lifecycle st epoch key event_id sequence =
     (case ensure_epoch (st_state st) epoch of
        Inl e \<Rightarrow> (Inl e, st)
      | Inr _ \<Rightarrow>
          (case journal_of st (ge_gateway_id epoch, event_id) of
             None \<Rightarrow> (Inl InvalidResponse, st)
           | Some record \<Rightarrow>
               if lr_epoch record \<noteq> ge_instance_id epoch \<or> lr_key record \<noteq> key \<or>
                  ev_sequence (lr_event record) \<noteq> sequence
               then (Inl OwnershipMismatch, st)
               else (Inr (), set_journal st (ge_gateway_id epoch, event_id)
                               (record\<lparr>lr_acked := True\<rparr>))))"

definition unacked_record ::
    "PrivateEgressGatewayEpoch \<Rightarrow> PrivateEgressRouteKey \<Rightarrow> (rstr \<times> uuid) \<times> MemoryLifecycleRecord \<Rightarrow>
     bool" where
  "unacked_record epoch key =
     (\<lambda>((gateway, _), event).
        gateway = ge_gateway_id epoch \<and> lr_epoch event = ge_instance_id epoch \<and>
        lr_key event = key \<and> \<not> lr_acked event)"

definition unacked_lifecycle ::
    "store \<Rightarrow> PrivateEgressGatewayEpoch \<Rightarrow> PrivateEgressRouteKey \<Rightarrow>
     PrivateEgressLifecycleEvent list reply" where
  "unacked_lifecycle st epoch key =
     (case ensure_epoch (st_state st) epoch of
        Inl e \<Rightarrow> (Inl e, st)
      | Inr _ \<Rightarrow>
          let events = map (\<lambda>(_, event). lr_event event)
                         (filter (unacked_record epoch key) (es_lifecycle (st_state st)))
          in (Inr (sort_key ev_sequence events), st))"

end
