(* ===== verification/Egress_Invariant.thy ===== *)
theory Egress_Invariant
  imports Egress_Store
begin

text \<open>
  The invariant of the private egress store. A call is one operation with its arguments,
  \<open>egress_call\<close> performs it, and \<open>egress_run\<close> performs a sequence of calls, in which the calls of
  any number of gateways, epochs and tasks are interleaved in the order in which they took the
  mutex. \<open>store_ok\<close> states what every store reached by calls satisfies:

  \<^item> the maps have distinct keys and stay within the bound of the store;
  \<^item> a command belongs to the active epoch of its gateway, and has a completion time exactly when it
    has a response;
  \<^item> a route is tombstoned exactly when its state is terminal, and then nothing is pending; a route
    that awaits recovery has failed; a live route belongs to the active epoch;
  \<^item> a journal record carries the identity, epoch and sequence of its event, belongs to a stored
    route of the same epoch which has issued its sequence, and no two records of a route share one.
\<close>

section \<open>Calls\<close>

datatype EgressCall =
  BeginEpoch PrivateEgressGatewayEpoch millis
| AssertEpoch PrivateEgressGatewayEpoch
| CompleteRouteRecovery PrivateEgressGatewayEpoch PrivateEgressRouteKey
| ClaimCommand PrivateEgressGatewayEpoch uuid "256 word" millis
| CompleteCommand PrivateEgressGatewayEpoch uuid "256 word" PrivateEgressResponse millis
| ClaimRouteTransition PrivateEgressGatewayEpoch PrivateEgressRouteKey uuid
    "PrivateEgressLifecycleState option" PrivateEgressLifecycleState
| CompleteRouteTransition PrivateEgressGatewayEpoch PrivateEgressRouteKey uuid
    PrivateEgressLifecycleState millis
| AbortRouteTransition PrivateEgressGatewayEpoch PrivateEgressRouteKey uuid
| FailSource PrivateEgressGatewayEpoch PrivateEgressRouteAuthority millis
| AppendLifecycle PrivateEgressGatewayEpoch PrivateEgressRouteKey PrivateEgressLifecycleEvent millis
| AckLifecycle PrivateEgressGatewayEpoch PrivateEgressRouteKey uuid u64
| UnackedLifecycle PrivateEgressGatewayEpoch PrivateEgressRouteKey

datatype EgressReply =
  Recovered "(PrivateEgressError, PrivateEgressRecoveredRoute list) result"
| Done "(PrivateEgressError, unit) result"
| Claimed "(PrivateEgressError, PrivateEgressCommandClaim) result"
| FailedKeys "(PrivateEgressError, PrivateEgressRouteKey list) result"
| Journaled "(PrivateEgressError, PrivateEgressLifecycleEvent) result"
| Unacked "(PrivateEgressError, PrivateEgressLifecycleEvent list) result"

fun egress_call :: "store \<Rightarrow> EgressCall \<Rightarrow> EgressReply \<times> store" where
  "egress_call st (BeginEpoch e t) = apfst Recovered (begin_epoch st e t)"
| "egress_call st (AssertEpoch e) = apfst Done (assert_epoch st e)"
| "egress_call st (CompleteRouteRecovery e k) = apfst Done (complete_route_recovery st e k)"
| "egress_call st (ClaimCommand e c d t) = apfst Claimed (claim_command st e c d t)"
| "egress_call st (CompleteCommand e c d r t) = apfst Done (complete_command st e c d r t)"
| "egress_call st (ClaimRouteTransition e k c x n) =
     apfst Done (claim_route_transition st e k c x n)"
| "egress_call st (CompleteRouteTransition e k c n t) =
     apfst Done (complete_route_transition st e k c n t)"
| "egress_call st (AbortRouteTransition e k c) = apfst Done (abort_route_transition st e k c)"
| "egress_call st (FailSource e a t) = apfst FailedKeys (fail_source st e a t)"
| "egress_call st (AppendLifecycle e k ev t) = apfst Journaled (append_lifecycle st e k ev t)"
| "egress_call st (AckLifecycle e k i q) = apfst Done (ack_lifecycle st e k i q)"
| "egress_call st (UnackedLifecycle e k) = apfst Unacked (unacked_lifecycle st e k)"

definition egress_run :: "store \<Rightarrow> EgressCall list \<Rightarrow> store" where
  "egress_run st calls = foldl (\<lambda>s c. snd (egress_call s c)) st calls"

fun egress_replies :: "store \<Rightarrow> EgressCall list \<Rightarrow> EgressReply list" where
  "egress_replies st [] = []"
| "egress_replies st (c # cs) = fst (egress_call st c) # egress_replies (snd (egress_call st c)) cs"

section \<open>The invariant\<close>

definition tombstone_state :: "MemoryRouteRecord \<Rightarrow> bool" where
  "tombstone_state r \<longleftrightarrow>
     (case rr_state r of None \<Rightarrow> False | Some s \<Rightarrow> egress_is_terminal s)"

definition route_ok :: "uuid option \<Rightarrow> MemoryRouteRecord \<Rightarrow> bool" where
  "route_ok active r \<longleftrightarrow>
     (rr_tombstoned_at_ms r \<noteq> None \<longleftrightarrow> tombstone_state r) \<and>
     (tombstone_state r \<longrightarrow> rr_pending r = None) \<and>
     (rr_recovery_required r \<longrightarrow> rr_state r = Some PrivateEgressLifecycleState.Failed) \<and>
     (rr_state r = None \<longrightarrow> rr_pending r \<noteq> None \<and> rr_next_lifecycle_sequence r = 0) \<and>
     (route_live r \<longrightarrow> active = Some (rr_epoch r))"

definition command_ok :: "uuid option \<Rightarrow> MemoryCommandRecord \<Rightarrow> bool" where
  "command_ok active c \<longleftrightarrow>
     active = Some (cr_epoch c) \<and> (cr_completed_at_ms c = None \<longleftrightarrow> cr_response c = None)"

definition event_of_key :: "PrivateEgressRouteKey \<Rightarrow> PrivateEgressLifecycleEvent \<Rightarrow> bool" where
  "event_of_key k e \<longleftrightarrow>
     ev_worker e = rk_worker k \<and> ev_source e = auth_source (key_authority k) \<and>
     ev_target e = rk_target k"

definition journal_record_ok ::
    "MemoryRouteRecord option \<Rightarrow> uuid \<Rightarrow> MemoryLifecycleRecord \<Rightarrow> bool" where
  "journal_record_ok route i l \<longleftrightarrow>
     ev_event_id (lr_event l) = i \<and> ev_gateway_epoch (lr_event l) = lr_epoch l \<and>
     event_of_key (lr_key l) (lr_event l) \<and> 0 < ev_sequence (lr_event l) \<and>
     (case route of None \<Rightarrow> False
      | Some r \<Rightarrow> rr_epoch r = lr_epoch l \<and>
                  ev_sequence (lr_event l) \<le> rr_next_lifecycle_sequence r)"

definition maps_ok ::
    "(rstr \<Rightarrow> uuid option) \<Rightarrow> (rstr \<times> uuid \<Rightarrow> MemoryCommandRecord option) \<Rightarrow>
     (rstr \<times> PrivateEgressRouteKey \<Rightarrow> MemoryRouteRecord option) \<Rightarrow>
     (rstr \<times> uuid \<Rightarrow> MemoryLifecycleRecord option) \<Rightarrow> bool" where
  "maps_ok active commands routes journal \<longleftrightarrow>
     (\<forall>g i c. commands (g, i) = Some c \<longrightarrow> command_ok (active g) c) \<and>
     (\<forall>g k r. routes (g, k) = Some r \<longrightarrow> route_ok (active g) r) \<and>
     (\<forall>g i l. journal (g, i) = Some l \<longrightarrow> journal_record_ok (routes (g, lr_key l)) i l) \<and>
     (\<forall>g i l i' l'. journal (g, i) = Some l \<longrightarrow> journal (g, i') = Some l' \<longrightarrow>
        lr_key l = lr_key l' \<longrightarrow> ev_sequence (lr_event l) = ev_sequence (lr_event l') \<longrightarrow> i = i')"

definition bounded_map :: "nat \<Rightarrow> ('k \<times> 'v) list \<Rightarrow> bool" where
  "bounded_map n m \<longleftrightarrow> keys_distinct m \<and> length m \<le> n"

definition shape_ok :: "store \<Rightarrow> bool" where
  "shape_ok st \<longleftrightarrow>
     keys_distinct (es_active_epochs (st_state st)) \<and>
     bounded_map (st_max_entries st) (es_commands (st_state st)) \<and>
     bounded_map (st_max_entries st) (es_routes (st_state st)) \<and>
     bounded_map (st_max_entries st) (es_lifecycle (st_state st))"

definition store_ok :: "store \<Rightarrow> bool" where
  "store_ok st \<longleftrightarrow>
     shape_ok st \<and> maps_ok (epoch_of st) (commands_of st) (routes_of st) (journal_of st)"

section \<open>Access lemmas\<close>

lemma set_route_sel [simp]:
  "st_max_entries (set_route st k r) = st_max_entries st"
  "st_ttl (set_route st k r) = st_ttl st"
  "es_active_epochs (st_state (set_route st k r)) = es_active_epochs (st_state st)"
  "es_commands (st_state (set_route st k r)) = es_commands (st_state st)"
  "es_lifecycle (st_state (set_route st k r)) = es_lifecycle (st_state st)"
  "es_routes (st_state (set_route st k r)) = AList.update k r (es_routes (st_state st))"
  by (simp_all add: set_route_def)

lemma set_command_sel [simp]:
  "st_max_entries (set_command st k r) = st_max_entries st"
  "st_ttl (set_command st k r) = st_ttl st"
  "es_active_epochs (st_state (set_command st k r)) = es_active_epochs (st_state st)"
  "es_routes (st_state (set_command st k r)) = es_routes (st_state st)"
  "es_lifecycle (st_state (set_command st k r)) = es_lifecycle (st_state st)"
  "es_commands (st_state (set_command st k r)) = AList.update k r (es_commands (st_state st))"
  by (simp_all add: set_command_def)

lemma set_journal_sel [simp]:
  "st_max_entries (set_journal st k r) = st_max_entries st"
  "st_ttl (set_journal st k r) = st_ttl st"
  "es_active_epochs (st_state (set_journal st k r)) = es_active_epochs (st_state st)"
  "es_routes (st_state (set_journal st k r)) = es_routes (st_state st)"
  "es_commands (st_state (set_journal st k r)) = es_commands (st_state st)"
  "es_lifecycle (st_state (set_journal st k r)) = AList.update k r (es_lifecycle (st_state st))"
  by (simp_all add: set_journal_def)

lemma ensure_epoch_cases [simp]:
  "ensure_epoch s e = Inr u \<longleftrightarrow> map_of (es_active_epochs s) (ge_gateway_id e) = Some (ge_instance_id e)"
  "ensure_epoch s e = Inl x \<longleftrightarrow>
     x = DeadEpoch \<and> map_of (es_active_epochs s) (ge_gateway_id e) \<noteq> Some (ge_instance_id e)"
  by (auto simp: ensure_epoch_def)

lemma length_alist_update:
  "length (AList.update k v m) = (if map_of m k = None then Suc (length m) else length m)"
  by (induction m) auto

lemma bounded_update:
  "bounded_map n m \<Longrightarrow> map_of m k \<noteq> None \<or> length m < n \<Longrightarrow> bounded_map n (AList.update k v m)"
  by (auto simp: bounded_map_def length_alist_update)

lemma bounded_filter: "bounded_map n m \<Longrightarrow> bounded_map n (filter P m)"
  using le_trans [OF length_filter_le [of P m]] by (simp add: bounded_map_def)

lemma bounded_delete: "bounded_map n m \<Longrightarrow> bounded_map n (AList.delete k m)"
  using length_delete_le [of k m] by (simp add: bounded_map_def)

lemma bounded_map_values: "bounded_map n m \<Longrightarrow> bounded_map n (map (\<lambda>(k, v). (k, f k v)) m)"
  unfolding bounded_map_def map_snd_keys by simp

lemma bounded_distinct [simp]: "bounded_map n m \<Longrightarrow> keys_distinct m"
  by (simp add: bounded_map_def)

lemmas bounded_intros = bounded_update bounded_filter bounded_delete bounded_map_values

lemma shape_distinct [simp]:
  assumes "shape_ok st"
  shows "keys_distinct (es_active_epochs (st_state st))" "keys_distinct (es_commands (st_state st))"
    "keys_distinct (es_routes (st_state st))" "keys_distinct (es_lifecycle (st_state st))"
  using assms by (simp_all add: shape_ok_def bounded_map_def)

section \<open>What the sweep keeps\<close>

lemma drop_routes_sel:
  "es_active_epochs (foldl drop_route s ks) = es_active_epochs s"
  "es_commands (foldl drop_route s ks) = es_commands s"
  "es_routes (foldl drop_route s ks) = filter (\<lambda>(k, _). k \<notin> set ks) (es_routes s)"
  "es_lifecycle (foldl drop_route s ks) =
     filter (\<lambda>((g, _), l). (g, lr_key l) \<notin> set ks) (es_lifecycle s)"
  by (induction ks arbitrary: s)
    (auto simp: drop_route_def AList.delete_eq case_prod_beta intro!: filter_cong)

definition route_expired_at :: "store \<Rightarrow> millis \<Rightarrow> rstr \<times> PrivateEgressRouteKey \<Rightarrow> bool" where
  "route_expired_at st at_ms k \<longleftrightarrow>
     (case routes_of st k of None \<Rightarrow> False | Some r \<Rightarrow> expired_route (ttl_ms st) at_ms r)"

definition keep_journal :: "store \<Rightarrow> millis \<Rightarrow> rstr \<times> uuid \<Rightarrow> MemoryLifecycleRecord \<Rightarrow> bool" where
  "keep_journal st at_ms k l \<longleftrightarrow>
     \<not> route_expired_at st at_ms (fst k, lr_key l) \<and>
     (\<not> lr_acked l \<or> sat_i64 (at_ms - lr_created_at_ms l) < ttl_ms st)"

lemma expired_keys:
  assumes "keys_distinct (es_routes (st_state st))"
  shows "k \<in> set (map fst (filter (\<lambda>(_, r). expired_route (ttl_ms st) t r) (es_routes (st_state st))))
    \<longleftrightarrow> route_expired_at st t k"
proof -
  have "k \<in> set (map fst (filter (\<lambda>(_, r). expired_route (ttl_ms st) t r) (es_routes (st_state st))))
    \<longleftrightarrow> (\<exists>r. (k, r) \<in> set (es_routes (st_state st)) \<and> expired_route (ttl_ms st) t r)"
    by force
  then have "k \<in> set (map fst (filter (\<lambda>(_, r). expired_route (ttl_ms st) t r) (es_routes (st_state st))))
    \<longleftrightarrow> (\<exists>r. routes_of st k = Some r \<and> expired_route (ttl_ms st) t r)"
    unfolding in_map_of [OF assms] .
  then show ?thesis by (auto simp: route_expired_at_def split: option.splits)
qed

definition swept :: "store \<Rightarrow> millis \<Rightarrow> store" where
  "swept st at_ms = st\<lparr>st_state := sweep_locked st (st_state st) at_ms\<rparr>"

lemma swept_sel:
  assumes "shape_ok st"
  shows "st_max_entries (swept st t) = st_max_entries st" "st_ttl (swept st t) = st_ttl st"
    "es_active_epochs (st_state (swept st t)) = es_active_epochs (st_state st)"
    "es_commands (st_state (swept st t)) =
       filter (\<lambda>(_, c). keep_command (ttl_ms st) t c) (es_commands (st_state st))"
    "es_routes (st_state (swept st t)) =
       filter (\<lambda>(k, _). \<not> route_expired_at st t k) (es_routes (st_state st))"
    "es_lifecycle (st_state (swept st t)) =
       filter (\<lambda>(k, l). keep_journal st t k l) (es_lifecycle (st_state st))"
  using expired_keys [OF shape_distinct(3) [OF assms]]
  by (auto simp: swept_def sweep_locked_def Let_def drop_routes_sel keep_journal_def
      intro!: filter_cong)

lemma swept_maps:
  assumes "shape_ok st"
  shows "commands_of (swept st t) k =
      (case commands_of st k of None \<Rightarrow> None
       | Some c \<Rightarrow> if keep_command (ttl_ms st) t c then Some c else None)"
    "routes_of (swept st t) rk = (if route_expired_at st t rk then None else routes_of st rk)"
    "journal_of (swept st t) k =
      (case journal_of st k of None \<Rightarrow> None
       | Some l \<Rightarrow> if keep_journal st t k l then Some l else None)"
  using shape_distinct [OF assms]
  by (simp_all add: swept_sel [OF assms] map_of_retain route_expired_at_def split: option.splits)

lemma swept_shape: "shape_ok st \<Longrightarrow> shape_ok (swept st t)"
  using swept_sel [of st t] by (simp add: shape_ok_def bounded_filter)

section \<open>Steps on the maps\<close>

lemma maps_ok_command:
  "maps_ok a c r j \<Longrightarrow> command_ok (a g) x \<Longrightarrow> maps_ok a (c((g, i) \<mapsto> x)) r j"
  by (simp add: maps_ok_def)

lemma maps_ok_route:
  assumes "maps_ok a c r j" "route_ok (a g) x"
    "\<And>old. r (g, k) = Some old \<Longrightarrow>
       rr_epoch x = rr_epoch old \<and> rr_next_lifecycle_sequence old \<le> rr_next_lifecycle_sequence x"
  shows "maps_ok a c (r((g, k) \<mapsto> x)) j"
proof -
  have "journal_record_ok ((r((g, k) \<mapsto> x)) (g', lr_key l)) i l"
    if "j (g', i) = Some l" for g' i l
  proof -
    have ok: "journal_record_ok (r (g', lr_key l)) i l"
      using assms(1) that by (simp add: maps_ok_def)
    show ?thesis
    proof (cases "(g', lr_key l) = (g, k)")
      case True
      with ok assms(3) show ?thesis
        by (auto simp: journal_record_ok_def split: option.splits intro: order_trans)
    qed (use ok in auto)
  qed
  with assms(1,2) show ?thesis by (simp add: maps_ok_def)
qed

lemma maps_ok_restrict:
  assumes "maps_ok a c r j"
    "\<And>k x. c' k = Some x \<Longrightarrow> c k = Some x" "\<And>k x. r' k = Some x \<Longrightarrow> r k = Some x"
    "\<And>g i l. j' (g, i) = Some l \<Longrightarrow> j (g, i) = Some l \<and> r' (g, lr_key l) = r (g, lr_key l)"
  shows "maps_ok a c' r' j'"
proof -
  have "command_ok (a g) x" if "c' (g, i) = Some x" for g i x
    using assms(1) assms(2) [OF that] by (simp add: maps_ok_def)
  moreover have "route_ok (a g) x" if "r' (g, k) = Some x" for g k x
    using assms(1) assms(3) [OF that] by (simp add: maps_ok_def)
  moreover have "journal_record_ok (r' (g, lr_key l)) i l" if "j' (g, i) = Some l" for g i l
    using assms(1) assms(4) [OF that] by (simp add: maps_ok_def)
  moreover have "i = i'" if "j' (g, i) = Some l" "j' (g, i') = Some l'" "lr_key l = lr_key l'"
    "ev_sequence (lr_event l) = ev_sequence (lr_event l')" for g i l i' l'
    using assms(1) assms(4) [OF that(1)] assms(4) [OF that(2)] that(3,4)
    unfolding maps_ok_def by blast
  ultimately show ?thesis unfolding maps_ok_def by blast
qed

lemma maps_ok_ack:
  assumes "maps_ok a c r j" "j (g, i) = Some l"
  shows "maps_ok a c r (j((g, i) \<mapsto> l\<lparr>lr_acked := True\<rparr>))"
proof -
  have rec: "journal_record_ok (r (g', lr_key x)) i' x" if "j (g', i') = Some x" for g' i' x
    using assms(1) that by (simp add: maps_ok_def)
  have "journal_record_ok (r (g, lr_key l)) i (l\<lparr>lr_acked := True\<rparr>)"
    using rec [OF assms(2)] by (auto simp: journal_record_ok_def split: option.splits)
  with assms rec show ?thesis by (auto simp: maps_ok_def split: if_splits)
qed

lemma maps_ok_append:
  assumes "maps_ok a c r j" "j (g, i) = None" "r (g, lr_key l) = Some x"
    "journal_record_ok (Some x) i l"
    "\<And>i' l'. j (g, i') = Some l' \<Longrightarrow> lr_key l' = lr_key l \<Longrightarrow>
       ev_sequence (lr_event l') < ev_sequence (lr_event l)"
  shows "maps_ok a c r (j((g, i) \<mapsto> l))"
proof -
  have uniq: "i' = i''" if "j (g', i') = Some l'" "j (g', i'') = Some l''" "lr_key l' = lr_key l''"
    "ev_sequence (lr_event l') = ev_sequence (lr_event l'')" for g' i' l' i'' l''
    using assms(1) that unfolding maps_ok_def by blast
  have new: "ev_sequence (lr_event l') \<noteq> ev_sequence (lr_event l)"
    if "j (g, i') = Some l'" "lr_key l' = lr_key l" for i' l'
    using assms(5) [OF that] by simp
  have "i' = i''" if "(j((g, i) \<mapsto> l)) (g', i') = Some l'" "(j((g, i) \<mapsto> l)) (g', i'') = Some l''"
    "lr_key l' = lr_key l''" "ev_sequence (lr_event l') = ev_sequence (lr_event l'')"
    for g' i' l' i'' l''
    using that uniq [of g' i' l' i'' l''] new [of i' l'] new [of i'' l'']
    by (auto split: if_splits)
  moreover have "journal_record_ok (r (g', lr_key l')) i' l'"
    if "(j((g, i) \<mapsto> l)) (g', i') = Some l'" for g' i' l'
    using that assms(1,3,4) by (auto simp: maps_ok_def split: if_splits)
  ultimately show ?thesis using assms(1) unfolding maps_ok_def by blast
qed

section \<open>Every call keeps the invariant\<close>

lemma store_ok_set_route:
  assumes "store_ok st" "route_ok (epoch_of st g) x"
    "case routes_of st (g, k) of None \<Rightarrow> length (es_routes (st_state st)) < st_max_entries st
     | Some old \<Rightarrow> rr_epoch x = rr_epoch old \<and>
         rr_next_lifecycle_sequence old \<le> rr_next_lifecycle_sequence x"
  shows "store_ok (set_route st (g, k) x)"
proof -
  have "maps_ok (epoch_of st) (commands_of st) ((routes_of st)((g, k) \<mapsto> x)) (journal_of st)"
    using assms by (intro maps_ok_route) (auto simp: store_ok_def)
  then show ?thesis
    using assms by (auto simp: store_ok_def shape_ok_def split: option.splits intro!: bounded_update)
qed

lemma store_ok_set_command:
  assumes "store_ok st" "command_ok (epoch_of st g) x"
    "commands_of st (g, i) \<noteq> None \<or> length (es_commands (st_state st)) < st_max_entries st"
  shows "store_ok (set_command st (g, i) x)"
  using assms maps_ok_command [of "epoch_of st" "commands_of st" _ _ g x i]
  by (auto simp: store_ok_def shape_ok_def intro!: bounded_update)

lemma store_ok_route:
  "store_ok st \<Longrightarrow> routes_of st (g, k) = Some r \<Longrightarrow> route_ok (epoch_of st g) r"
  by (simp add: store_ok_def maps_ok_def)

lemma store_ok_command:
  "store_ok st \<Longrightarrow> commands_of st (g, i) = Some c \<Longrightarrow> command_ok (epoch_of st g) c"
  by (simp add: store_ok_def maps_ok_def)

lemma store_ok_journal:
  "store_ok st \<Longrightarrow> journal_of st (g, i) = Some l \<Longrightarrow>
     journal_record_ok (routes_of st (g, lr_key l)) i l"
  by (simp add: store_ok_def maps_ok_def)

lemma swept_ok: "store_ok st \<Longrightarrow> store_ok (swept st t)"
proof -
  assume ok: "store_ok st"
  then have shape: "shape_ok st" by (simp add: store_ok_def)
  have "maps_ok (epoch_of st) (commands_of (swept st t)) (routes_of (swept st t))
    (journal_of (swept st t))"
    using ok unfolding store_ok_def
    by (elim conjE, elim maps_ok_restrict)
      (auto simp: swept_maps [OF shape] keep_journal_def split: option.splits if_splits)
  then show ?thesis using swept_shape [OF shape] swept_sel(3) [OF shape] by (simp add: store_ok_def)
qed

lemma claim_command_ok: "store_ok st \<Longrightarrow> store_ok (snd (claim_command st e i d t))"
  unfolding claim_command_def swept_def [symmetric] Let_def
  by (auto simp: command_ok_def swept_ok swept_sel store_ok_def [of st] split: sum.splits option.splits
      intro!: store_ok_set_command)

lemma complete_command_ok: "store_ok st \<Longrightarrow> store_ok (snd (complete_command st e i d r t))"
  unfolding complete_command_def
  by (auto simp: command_ok_def split: sum.splits option.splits
      intro!: store_ok_set_command dest: store_ok_command)

lemma complete_route_recovery_ok: "store_ok st \<Longrightarrow> store_ok (snd (complete_route_recovery st e k))"
  unfolding complete_route_recovery_def
  by (auto simp: route_ok_def tombstone_state_def route_live_def split: sum.splits option.splits
      intro!: store_ok_set_route dest: store_ok_route)

lemma claim_route_transition_ok:
  "store_ok st \<Longrightarrow> store_ok (snd (claim_route_transition st e k c x n))"
  unfolding claim_route_transition_def Let_def
  by (auto simp: route_ok_def tombstone_state_def route_live_def split: sum.splits option.splits
      intro!: store_ok_set_route dest: store_ok_route)

lemma route_ok_live:
  assumes "route_ok a r" "route_live r"
  shows "rr_tombstoned_at_ms r = None" "\<not> rr_recovery_required r" "\<not> tombstone_state r"
    "a = Some (rr_epoch r)"
  using assms
  by (auto simp: route_ok_def route_live_def tombstone_state_def egress_is_terminal_def
      split: option.splits)

lemma route_ok_open:
  assumes "route_ok a r" "rr_tombstoned_at_ms r = None"
  shows "\<not> rr_recovery_required r" "a = Some (rr_epoch r)"
  using assms
  by (auto simp: route_ok_def route_live_def tombstone_state_def egress_is_terminal_def
      split: option.splits)

lemma complete_route_transition_ok:
  assumes "store_ok st"
  shows "store_ok (snd (complete_route_transition st e k c n t))"
proof (cases "routes_of st (ge_gateway_id e, k)")
  case (Some r)
  have live: "route_live r" if "rr_pending r = Some (c, n)" using that by (simp add: route_live_def)
  have ok: "route_ok (epoch_of st (ge_gateway_id e)) r" by (rule store_ok_route [OF assms Some])
  show ?thesis
    using Some assms route_ok_live [OF ok live]
    by (auto simp: complete_route_transition_def route_ok_def tombstone_state_def route_live_def
        split: sum.splits intro!: store_ok_set_route)
qed (use assms in \<open>auto simp: complete_route_transition_def split: sum.splits\<close>)

lemma no_journal_before_state:
  assumes "store_ok st" "routes_of st (g, k) = Some r" "rr_state r = None"
    "journal_of st (g, i) = Some l"
  shows "lr_key l \<noteq> k"
  using store_ok_journal [OF assms(1,4)] store_ok_route [OF assms(1,2)] assms(2,3)
  by (auto simp: journal_record_ok_def route_ok_def)

lemma store_ok_delete_route:
  assumes "store_ok st" "routes_of st (g, k) = Some r" "rr_state r = None"
  shows "store_ok (st\<lparr>st_state := (st_state st)\<lparr>es_routes := AList.delete (g, k) (es_routes (st_state st))\<rparr>\<rparr>)"
proof -
  have "maps_ok (epoch_of st) (commands_of st) ((routes_of st)((g, k) := None)) (journal_of st)"
    using assms(1) no_journal_before_state [OF assms] unfolding store_ok_def
    by (elim conjE, elim maps_ok_restrict) (auto split: if_splits)
  then show ?thesis using assms(1) by (simp add: store_ok_def shape_ok_def bounded_delete)
qed

lemma abort_route_transition_ok:
  assumes "store_ok st"
  shows "store_ok (snd (abort_route_transition st e k c))"
proof (cases "routes_of st (ge_gateway_id e, k)")
  case (Some r)
  have live: "route_live r" if "rr_pending r = Some p" for p using that by (simp add: route_live_def)
  have ok: "route_ok (epoch_of st (ge_gateway_id e)) r" by (rule store_ok_route [OF assms Some])
  show ?thesis
    using Some assms route_ok_live [OF ok live]
    by (auto simp: abort_route_transition_def Let_def route_ok_def tombstone_state_def route_live_def
        split: sum.splits option.splits intro!: store_ok_set_route store_ok_delete_route)
qed (use assms in \<open>auto simp: abort_route_transition_def split: sum.splits\<close>)

lemma fail_route_ok:
  assumes "store_ok st" "\<And>r. routes_of st (g, k) = Some r \<Longrightarrow> \<not> rr_recovery_required r"
  shows "store_ok (fail_route g t st k)"
  using assms
  by (auto simp: fail_route_def route_ok_def tombstone_state_def route_live_def egress_is_terminal_def
      split: option.splits intro!: store_ok_set_route)

lemma fail_route_sel [simp]:
  "st_max_entries (fail_route g t st k) = st_max_entries st"
  "st_ttl (fail_route g t st k) = st_ttl st"
  "es_active_epochs (st_state (fail_route g t st k)) = es_active_epochs (st_state st)"
  "es_commands (st_state (fail_route g t st k)) = es_commands (st_state st)"
  "es_lifecycle (st_state (fail_route g t st k)) = es_lifecycle (st_state st)"
  by (simp_all add: fail_route_def split: option.splits)

definition failed_route :: "millis \<Rightarrow> MemoryRouteRecord \<Rightarrow> MemoryRouteRecord" where
  "failed_route t r =
     r\<lparr>rr_pending := None, rr_state := Some PrivateEgressLifecycleState.Failed,
       rr_tombstoned_at_ms := Some t\<rparr>"

lemma fail_route_routes:
  "routes_of (fail_route g t st k) x =
     (if x = (g, k) then map_option (failed_route t) (routes_of st x) else routes_of st x)"
  by (auto simp: fail_route_def failed_route_def split: option.splits)

lemma fail_routes_sel [simp]:
  "st_max_entries (foldl (fail_route g t) st ks) = st_max_entries st"
  "st_ttl (foldl (fail_route g t) st ks) = st_ttl st"
  "es_active_epochs (st_state (foldl (fail_route g t) st ks)) = es_active_epochs (st_state st)"
  "es_commands (st_state (foldl (fail_route g t) st ks)) = es_commands (st_state st)"
  "es_lifecycle (st_state (foldl (fail_route g t) st ks)) = es_lifecycle (st_state st)"
  by (induction ks arbitrary: st) simp_all

lemma failed_route_idem [simp]: "failed_route t (failed_route t r) = failed_route t r"
  by (simp add: failed_route_def)

lemma fail_routes_routes:
  "routes_of (foldl (fail_route g t) st ks) x =
     (if fst x = g \<and> snd x \<in> set ks then map_option (failed_route t) (routes_of st x)
      else routes_of st x)"
  by (induction ks arbitrary: st)
    (auto simp: fail_route_routes option.map_comp comp_def)

lemma fail_routes_ok:
  assumes "store_ok st" "\<And>k r. k \<in> set ks \<Longrightarrow> routes_of st (g, k) = Some r \<Longrightarrow> \<not> rr_recovery_required r"
  shows "store_ok (foldl (fail_route g t) st ks)"
  using assms
proof (induction ks arbitrary: st)
  case (Cons k ks)
  have "store_ok (foldl (fail_route g t) (fail_route g t st k) ks)"
    using Cons.prems
    by (intro Cons.IH fail_route_ok)
      (fastforce simp: fail_route_routes failed_route_def split: if_splits)+
  then show ?case by simp
qed simp

definition source_routes ::
    "store \<Rightarrow> PrivateEgressGatewayEpoch \<Rightarrow> PrivateEgressRouteAuthority \<Rightarrow> PrivateEgressRouteKey set" where
  "source_routes st e a =
     {k. \<exists>r. routes_of st (ge_gateway_id e, k) = Some r \<and> rr_epoch r = ge_instance_id e \<and>
           belongs_to k a \<and> route_live r}"

lemma fail_source_eq:
  assumes "shape_ok st" "epoch_of st (ge_gateway_id e) = Some (ge_instance_id e)"
  obtains keys where "set keys = source_routes st e a" "distinct keys"
    "fail_source st e a t = (Inr keys, foldl (fail_route (ge_gateway_id e) t) st keys)"
proof -
  let ?P = "\<lambda>((g, k), r). g = ge_gateway_id e \<and> rr_epoch r = ge_instance_id e \<and> belongs_to k a \<and>
              route_live r"
  let ?ps = "filter ?P (es_routes (st_state st))"
  let ?keys = "map (\<lambda>((_, k), _). k) ?ps"
  have "set ?keys = {k. \<exists>r. ((ge_gateway_id e, k), r) \<in> set (es_routes (st_state st)) \<and>
      rr_epoch r = ge_instance_id e \<and> belongs_to k a \<and> route_live r}"
    by force
  also have "\<dots> = source_routes st e a"
    unfolding source_routes_def in_map_of [OF shape_distinct(3) [OF assms(1)]] ..
  finally have set: "set ?keys = source_routes st e a" .
  have "keys_distinct ?ps" using assms(1) by simp
  moreover have "map fst ?ps = map (\<lambda>k. (ge_gateway_id e, k)) ?keys"
    by (auto simp: case_prod_beta prod_eq_iff)
  ultimately have "distinct (map (\<lambda>k. (ge_gateway_id e, k)) ?keys)" by simp
  then have "distinct ?keys" by (rule distinct_map [THEN iffD1, THEN conjunct1])
  with set show ?thesis
    using assms(2) by (intro that [of ?keys]) (auto simp: fail_source_def ensure_epoch_def Let_def)
qed

lemma fail_source_ok:
  assumes "store_ok st"
  shows "store_ok (snd (fail_source st e a t))"
proof (cases "epoch_of st (ge_gateway_id e) = Some (ge_instance_id e)")
  case True
  have shape: "shape_ok st" using assms by (simp add: store_ok_def)
  obtain keys where k: "set keys = source_routes st e a"
    "fail_source st e a t = (Inr keys, foldl (fail_route (ge_gateway_id e) t) st keys)"
    using fail_source_eq [OF shape True] by metis
  show ?thesis
    using assms k route_ok_live(2) [OF store_ok_route]
    by (auto simp: source_routes_def intro!: fail_routes_ok)
qed (use assms in \<open>auto simp: fail_source_def ensure_epoch_def\<close>)

text \<open>
  What the route block of \<open>append_lifecycle\<close> does to a route: nothing on a refusal, the state
  change without a sequence when the sequence is exhausted, and otherwise the next sequence.
\<close>

lemma append_to_route_props:
  assumes "append_to_route r e ev t = (res, r')"
  shows "rr_epoch r' = rr_epoch r" "rr_pending r' = rr_pending r"
    "rr_recovery_required r' = rr_recovery_required r"
    "res = Inl InvalidTransition \<Longrightarrow> r' = r"
    "res = Inr q \<Longrightarrow> rr_next_lifecycle_sequence r \<noteq> - 1 \<and> q = rr_next_lifecycle_sequence r + 1 \<and>
       rr_next_lifecycle_sequence r' = q \<and> rr_epoch r = ge_instance_id e \<and> rr_state r \<noteq> None \<and>
       rr_tombstoned_at_ms r = None"
    "res = Inl x \<Longrightarrow> rr_next_lifecycle_sequence r' = rr_next_lifecycle_sequence r"
  using assms unfolding append_to_route_def Let_def
  by (auto split: if_splits option.splits PrivateEgressLifecycleKind.splits)

lemma append_to_route_ok:
  assumes "append_to_route r e ev t = (res, r')" "route_ok a r"
  shows "route_ok a r'"
  using assms(1) assms(2) route_ok_open [OF assms(2)] unfolding append_to_route_def Let_def
  by (auto simp: route_ok_def route_live_def tombstone_state_def
      split: if_splits option.splits PrivateEgressLifecycleKind.splits)

lemma next_sequence_less: "(q :: u64) \<noteq> - 1 \<Longrightarrow> q < q + 1"
  using unatSuc [of q] by (simp add: word_less_nat_alt eq_neg_iff_add_eq_0 add.commute)

lemma append_to_route_next:
  assumes "append_to_route r e ev t = (res, r')"
  shows "rr_next_lifecycle_sequence r \<le> rr_next_lifecycle_sequence r'"
proof (cases res)
  case (Inl x)
  then show ?thesis using append_to_route_props(6) [OF assms Inl] by simp
next
  case (Inr q)
  then show ?thesis using append_to_route_props(5) [OF assms Inr] next_sequence_less [of "rr_next_lifecycle_sequence r"]
    by simp
qed

lemma set_route_append_ok:
  assumes "store_ok st" "routes_of st (g, k) = Some r" "append_to_route r e ev t = (res, r')"
  shows "store_ok (set_route st (g, k) r')"
  using assms append_to_route_ok [OF assms(3) store_ok_route [OF assms(1,2)]]
    append_to_route_props(1) [OF assms(3)] append_to_route_next [OF assms(3)]
  by (auto intro!: store_ok_set_route)

text \<open>The three ways \<open>append_lifecycle\<close> can end.\<close>

lemma append_lifecycle_cases:
  obtains (refused) x where "append_lifecycle st e k ev t = (Inl x, st)"
  | (exhausted) x r r' where "append_lifecycle st e k ev t = (Inl x, set_route st (ge_gateway_id e, k) r')"
      "routes_of st (ge_gateway_id e, k) = Some r" "append_to_route r e ev t = (Inl x, r')"
      "epoch_of st (ge_gateway_id e) = Some (ge_instance_id e)"
  | (journaled) q r r' where
      "append_lifecycle st e k ev t =
         (Inr (ev\<lparr>ev_gateway_epoch := ge_instance_id e, ev_sequence := q\<rparr>),
          set_journal (set_route st (ge_gateway_id e, k) r') (ge_gateway_id e, ev_event_id ev)
            \<lparr>lr_epoch = ge_instance_id e, lr_key = k,
             lr_event = ev\<lparr>ev_gateway_epoch := ge_instance_id e, ev_sequence := q\<rparr>,
             lr_acked = False, lr_created_at_ms = t\<rparr>)"
      "routes_of st (ge_gateway_id e, k) = Some r" "append_to_route r e ev t = (Inr q, r')"
      "epoch_of st (ge_gateway_id e) = Some (ge_instance_id e)"
      "journal_of st (ge_gateway_id e, ev_event_id ev) = None"
      "length (es_lifecycle (st_state st)) < st_max_entries st" "event_of_key k ev"
proof (cases "\<exists>x. append_lifecycle st e k ev t = (Inl x, st)")
  case False
  then have live: "epoch_of st (ge_gateway_id e) = Some (ge_instance_id e)"
    and own: "event_of_key k ev" "ev_gateway_epoch ev = 0" "ev_sequence ev = 0"
    and fresh: "journal_of st (ge_gateway_id e, ev_event_id ev) = None"
    and room: "length (es_lifecycle (st_state st)) < st_max_entries st"
    by (auto simp: append_lifecycle_def Let_def event_of_key_def ensure_epoch_def split: if_splits)
  from False obtain r where r: "routes_of st (ge_gateway_id e, k) = Some r"
    by (cases "routes_of st (ge_gateway_id e, k)")
      (auto simp: append_lifecycle_def Let_def ensure_epoch_def split: if_splits)
  obtain res r' where app: "append_to_route r e ev t = (res, r')" by (cases "append_to_route r e ev t")
  show thesis
  proof (cases res)
    case (Inl x)
    then show ?thesis
      using live own fresh room r app
      by (intro exhausted [of x r' r])
        (auto simp: append_lifecycle_def Let_def event_of_key_def ensure_epoch_def)
  next
    case (Inr q)
    then show ?thesis
      using live own fresh room r app
      by (intro journaled [of q r' r])
        (auto simp: append_lifecycle_def Let_def event_of_key_def ensure_epoch_def)
  qed
qed (use refused in blast)

lemma store_ok_set_journal:
  assumes "store_ok st" "journal_of st (g, i) = None"
    "length (es_lifecycle (st_state st)) < st_max_entries st"
    "journal_record_ok (routes_of st (g, lr_key l)) i l"
    "\<And>i' l'. journal_of st (g, i') = Some l' \<Longrightarrow> lr_key l' = lr_key l \<Longrightarrow>
       ev_sequence (lr_event l') < ev_sequence (lr_event l)"
  shows "store_ok (set_journal st (g, i) l)"
proof -
  obtain r where r: "routes_of st (g, lr_key l) = Some r" "journal_record_ok (Some r) i l"
    using assms(4) by (cases "routes_of st (g, lr_key l)") (auto simp: journal_record_ok_def)
  have "maps_ok (epoch_of st) (commands_of st) (routes_of st) ((journal_of st)((g, i) \<mapsto> l))"
    by (rule maps_ok_append [of _ _ "routes_of st" "journal_of st" g i l r])
      (use assms(1,2,5) r in \<open>auto simp: store_ok_def\<close>)
  then show ?thesis
    using assms(1,3) by (auto simp: store_ok_def shape_ok_def intro!: bounded_update)
qed

lemma append_lifecycle_ok:
  assumes "store_ok st"
  shows "store_ok (snd (append_lifecycle st e k ev t))"
proof (cases rule: append_lifecycle_cases [of st e k ev t])
  case (journaled q r r')
  let ?g = "ge_gateway_id e" let ?st = "set_route st (?g, k) r'"
  note p = append_to_route_props [OF journaled(3)]
  have ok: "store_ok ?st" by (rule set_route_append_ok [OF assms journaled(2,3)])
  have q: "rr_next_lifecycle_sequence r < q" "rr_next_lifecycle_sequence r' = q" "rr_epoch r = ge_instance_id e"
    using p(5) [OF refl] next_sequence_less [of "rr_next_lifecycle_sequence r"] by auto
  have less: "ev_sequence (lr_event l') < q" if "journal_of st (?g, i') = Some l'" "lr_key l' = k" for i' l'
    using store_ok_journal [OF assms that(1)] that(2) journaled(2) q(1)
    by (auto simp: journal_record_ok_def)
  have pos: "0 < q" using q(1) by (meson le_less_trans word_zero_le)
  show ?thesis
    using journaled p(1) q pos less
    by (auto simp: journal_record_ok_def event_of_key_def intro!: store_ok_set_journal [OF ok])
qed (use assms in \<open>auto intro: set_route_append_ok\<close>)

lemma ack_lifecycle_ok:
  assumes "store_ok st"
  shows "store_ok (snd (ack_lifecycle st e k i q))"
proof (cases "journal_of st (ge_gateway_id e, i)")
  case (Some l)
  have "maps_ok (epoch_of st) (commands_of st) (routes_of st)
    ((journal_of st)((ge_gateway_id e, i) \<mapsto> l\<lparr>lr_acked := True\<rparr>))"
    using assms by (intro maps_ok_ack Some) (simp add: store_ok_def)
  then have "store_ok (set_journal st (ge_gateway_id e, i) (l\<lparr>lr_acked := True\<rparr>))"
    using assms Some by (auto simp: store_ok_def shape_ok_def intro!: bounded_update)
  then show ?thesis using Some assms by (auto simp: ack_lifecycle_def split: sum.splits)
qed (use assms in \<open>auto simp: ack_lifecycle_def split: sum.splits\<close>)

section \<open>Starting an epoch\<close>

abbreviation begun :: "store \<Rightarrow> PrivateEgressGatewayEpoch \<Rightarrow> millis \<Rightarrow> store" where
  "begun st e t \<equiv> snd (begin_epoch st e t)"

definition fences :: "store \<Rightarrow> PrivateEgressGatewayEpoch \<Rightarrow> bool" where
  "fences st e \<longleftrightarrow> epoch_of st (ge_gateway_id e) \<noteq> None \<and>
     epoch_of st (ge_gateway_id e) \<noteq> Some (ge_instance_id e)"

definition fenced_route :: "millis \<Rightarrow> MemoryRouteRecord \<Rightarrow> MemoryRouteRecord" where
  "fenced_route t r = (failed_route t r)\<lparr>rr_recovery_required := True\<rparr>"

definition fenced_command :: "PrivateEgressGatewayEpoch \<Rightarrow> millis \<Rightarrow> uuid \<Rightarrow> MemoryCommandRecord \<Rightarrow> MemoryCommandRecord" where
  "fenced_command e t i c =
     c\<lparr>cr_epoch := ge_instance_id e, cr_response := Some (response_rejected i DeadEpoch),
       cr_completed_at_ms := Some t\<rparr>"

lemma begun_sel [simp]:
  "st_max_entries (begun st e t) = st_max_entries st" "st_ttl (begun st e t) = st_ttl st"
  "epoch_of (begun st e t) = (epoch_of st)(ge_gateway_id e \<mapsto> ge_instance_id e)"
  "es_lifecycle (st_state (begun st e t)) = es_lifecycle (st_state st)"
  by (simp_all add: begin_epoch_def activate_def begin_epoch_locked_def Let_def split: option.splits)

lemma begun_shape: "shape_ok st \<Longrightarrow> shape_ok (begun st e t)"
  by (auto simp: begin_epoch_def activate_def begin_epoch_locked_def Let_def shape_ok_def
      bounded_map_values split: option.splits)

text \<open>Under the invariant a new instance fences exactly the commands and the live routes of its gateway.\<close>

lemma begun_commands:
  assumes "store_ok st"
  shows "commands_of (begun st e t) (g, i) =
    (if fences st e \<and> g = ge_gateway_id e then map_option (fenced_command e t i) (commands_of st (g, i))
     else commands_of st (g, i))"
proof (cases "commands_of st (g, i)")
  case (Some c)
  have "epoch_of st g = Some (cr_epoch c)"
    using store_ok_command [OF assms Some] by (simp add: command_ok_def)
  then show ?thesis
    using Some
    by (auto simp: begin_epoch_def activate_def begin_epoch_locked_def Let_def fences_def
        fence_command_def fenced_command_def map_of_map_snd split: option.splits)
qed (auto simp: begin_epoch_def activate_def begin_epoch_locked_def Let_def map_of_map_snd
      split: option.splits)

lemma begun_routes:
  assumes "store_ok st"
  shows "routes_of (begun st e t) (g, k) =
    (if fences st e \<and> g = ge_gateway_id e
     then map_option (\<lambda>r. if route_live r then fenced_route t r else r) (routes_of st (g, k))
     else routes_of st (g, k))"
proof (cases "routes_of st (g, k)")
  case (Some r)
  have "epoch_of st g = Some (rr_epoch r)" if "route_live r"
    using route_ok_live(4) [OF store_ok_route [OF assms Some] that] .
  then show ?thesis
    using Some
    by (auto simp: begin_epoch_def activate_def begin_epoch_locked_def Let_def fences_def
        fence_route_def fenced_route_def failed_route_def map_of_map_snd split: option.splits)
qed (auto simp: begin_epoch_def activate_def begin_epoch_locked_def Let_def map_of_map_snd
      split: option.splits)

lemma fenced_route_ok [simp]: "route_ok a (fenced_route t r)"
  by (simp add: fenced_route_def failed_route_def route_ok_def tombstone_state_def
      egress_is_terminal_def route_live_def)

lemma route_ok_dead: "route_ok a r \<Longrightarrow> \<not> route_live r \<Longrightarrow> route_ok b r"
  by (simp add: route_ok_def)

lemma begun_maps:
  assumes "store_ok st"
  shows "maps_ok (epoch_of (begun st e t)) (commands_of (begun st e t)) (routes_of (begun st e t))
    (journal_of st)"
proof -
  let ?a = "epoch_of (begun st e t)"
  have "command_ok (?a g) c" if "commands_of (begun st e t) (g, i) = Some c" for g i c
    using that store_ok_command [OF assms, of g i]
    by (fastforce simp: begun_commands [OF assms] fenced_command_def command_ok_def fences_def
        split: if_splits)
  moreover have "route_ok (?a g) r" if r: "routes_of (begun st e t) (g, k) = Some r" for g k r
  proof -
    obtain r0 where r0: "routes_of st (g, k) = Some r0"
      using r by (auto simp: begun_routes [OF assms] split: if_splits)
    note ok = store_ok_route [OF assms r0]
    have same: "?a g = epoch_of st g" if "\<not> (fences st e \<and> g = ge_gateway_id e)" "route_live r0"
      using route_ok_live(4) [OF ok that(2)] that(1) by (auto simp: fences_def)
    show ?thesis
    proof (cases "fences st e \<and> g = ge_gateway_id e")
      case True
      then show ?thesis using r r0 ok by (auto simp: begun_routes [OF assms] intro: route_ok_dead)
    next
      case False
      then have "r = r0" using r r0 by (simp add: begun_routes [OF assms] split: if_splits)
      then show ?thesis using ok same [OF False] by (cases "route_live r0") (auto intro: route_ok_dead)
    qed
  qed
  moreover have "journal_record_ok (routes_of (begun st e t) (g, lr_key l)) i l"
    if "journal_of st (g, i) = Some l" for g i l
    using store_ok_journal [OF assms that]
    by (auto simp: begun_routes [OF assms] journal_record_ok_def fenced_route_def failed_route_def
        split: option.splits)
  ultimately show ?thesis using assms unfolding maps_ok_def store_ok_def by blast
qed

lemma begin_epoch_ok: "store_ok st \<Longrightarrow> store_ok (begun st e t)"
  using begun_maps begun_shape by (simp add: store_ok_def)

section \<open>Sequences of calls\<close>

lemmas operation_ok =
  begin_epoch_ok claim_command_ok complete_command_ok complete_route_recovery_ok
  claim_route_transition_ok complete_route_transition_ok abort_route_transition_ok fail_source_ok
  append_lifecycle_ok ack_lifecycle_ok

lemma queries_keep_store [simp]:
  "snd (assert_epoch st e) = st" "snd (unacked_lifecycle st e k) = st"
  by (auto simp: assert_epoch_def unacked_lifecycle_def Let_def split: sum.splits)

lemma egress_call_ok: "store_ok st \<Longrightarrow> store_ok (snd (egress_call st c))"
  by (cases c) (simp_all add: operation_ok)

lemma egress_run_simps [simp]:
  "egress_run st [] = st" "egress_run st (c # cs) = egress_run (snd (egress_call st c)) cs"
  "egress_run st (cs @ ds) = egress_run (egress_run st cs) ds"
  by (simp_all add: egress_run_def)

lemma egress_run_ok: "store_ok st \<Longrightarrow> store_ok (egress_run st cs)"
  by (induction cs arbitrary: st) (simp_all add: egress_call_ok)

lemma new_store_ok:
  assumes "MemoryPrivateEgressStateStore_new n d = Inr st"
  shows "store_ok st"
proof -
  have "st = \<lparr>st_max_entries = n, st_ttl = d, st_state = egress_state_default\<rparr>"
    using assms by (simp add: MemoryPrivateEgressStateStore_new_def split: if_splits)
  then show ?thesis
    by (simp add: egress_state_default_def store_ok_def shape_ok_def bounded_map_def maps_ok_def)
qed

end
