(* ===== verification/Egress_Fencing.thy ===== *)
theory Egress_Fencing
  imports Egress_Invariant
begin

text \<open>
  What the private egress store promises across sequences of calls. The locale \<open>call_stable\<close> is the
  interface of a fact that every allowed call preserves; it is interpreted on the store's own calls
  for a fenced instance, a recorded command, a recorded response, a tombstoned route and a route
  that awaits recovery, and the properties follow from what each fact says of the next call.
\<close>

section \<open>Calls, their epochs and their times\<close>

fun call_epoch :: "EgressCall \<Rightarrow> PrivateEgressGatewayEpoch" where
  "call_epoch (BeginEpoch e _) = e"
| "call_epoch (AssertEpoch e) = e"
| "call_epoch (CompleteRouteRecovery e _) = e"
| "call_epoch (ClaimCommand e _ _ _) = e"
| "call_epoch (CompleteCommand e _ _ _ _) = e"
| "call_epoch (ClaimRouteTransition e _ _ _ _) = e"
| "call_epoch (CompleteRouteTransition e _ _ _ _) = e"
| "call_epoch (AbortRouteTransition e _ _) = e"
| "call_epoch (FailSource e _ _) = e"
| "call_epoch (AppendLifecycle e _ _ _) = e"
| "call_epoch (AckLifecycle e _ _ _) = e"
| "call_epoch (UnackedLifecycle e _) = e"

fun call_time :: "EgressCall \<Rightarrow> millis option" where
  "call_time (BeginEpoch _ t) = Some t"
| "call_time (ClaimCommand _ _ _ t) = Some t"
| "call_time (CompleteCommand _ _ _ _ t) = Some t"
| "call_time (CompleteRouteTransition _ _ _ _ t) = Some t"
| "call_time (FailSource _ _ t) = Some t"
| "call_time (AppendLifecycle _ _ _ t) = Some t"
| "call_time _ = None"

fun begins_epoch :: "EgressCall \<Rightarrow> bool" where
  "begins_epoch (BeginEpoch _ _) = True"
| "begins_epoch _ = False"

fun reply_error :: "EgressReply \<Rightarrow> PrivateEgressError option" where
  "reply_error (Recovered (Inl e)) = Some e"
| "reply_error (Done (Inl e)) = Some e"
| "reply_error (Claimed (Inl e)) = Some e"
| "reply_error (FailedKeys (Inl e)) = Some e"
| "reply_error (Journaled (Inl e)) = Some e"
| "reply_error (Unacked (Inl e)) = Some e"
| "reply_error _ = None"

text \<open>
  A call whose time, if it has one, lies in the period \<open>[since, since + period)\<close>.
\<close>

definition in_window :: "millis \<Rightarrow> millis \<Rightarrow> EgressCall \<Rightarrow> bool" where
  "in_window since period c \<longleftrightarrow>
     (case call_time c of None \<Rightarrow> True | Some t \<Rightarrow> since \<le> t \<and> t < since + period)"

text \<open>A call that starts another instance of the gateway of \<open>e\<close>.\<close>

fun supersedes :: "PrivateEgressGatewayEpoch \<Rightarrow> EgressCall \<Rightarrow> bool" where
  "supersedes e (BeginEpoch e' _) \<longleftrightarrow>
     ge_gateway_id e' = ge_gateway_id e \<and> ge_instance_id e' \<noteq> ge_instance_id e"
| "supersedes e _ = False"

section \<open>Facts that calls preserve\<close>

locale call_stable =
  fixes fact :: "store \<Rightarrow> bool" and allowed :: "store \<Rightarrow> EgressCall \<Rightarrow> bool"
  assumes step: "store_ok st \<Longrightarrow> fact st \<Longrightarrow> allowed st c \<Longrightarrow> fact (snd (egress_call st c))"
    and allowed_step: "allowed (snd (egress_call st c)) d \<longleftrightarrow> allowed st d"
begin

lemma run:
  "store_ok st \<Longrightarrow> fact st \<Longrightarrow> \<forall>c \<in> set cs. allowed st c \<Longrightarrow> fact (egress_run st cs)"
proof (induction cs arbitrary: st)
  case (Cons c cs)
  from Cons.prems have "fact (snd (egress_call st c))" by (intro step) auto
  with Cons.prems show ?case
    unfolding egress_run_simps by (intro Cons.IH) (auto simp: allowed_step egress_call_ok)
qed simp

end

lemma egress_call_ttl [simp]:
  "st_ttl (snd (egress_call st c)) = st_ttl st"
  "st_max_entries (snd (egress_call st c)) = st_max_entries st"
proof -
  have "st_ttl (snd (egress_call st c)) = st_ttl st \<and>
    st_max_entries (snd (egress_call st c)) = st_max_entries st"
  proof (cases c)
    case (AppendLifecycle e k ev t)
    then show ?thesis by (cases rule: append_lifecycle_cases [of st e k ev t]) simp_all
  qed (auto simp: claim_command_def complete_command_def complete_route_recovery_def
      claim_route_transition_def complete_route_transition_def abort_route_transition_def
      fail_source_def ack_lifecycle_def Let_def split: sum.splits option.splits)
  then show "st_ttl (snd (egress_call st c)) = st_ttl st"
    "st_max_entries (snd (egress_call st c)) = st_max_entries st" by simp_all
qed

lemma ttl_ms_call [simp]: "ttl_ms (snd (egress_call st c)) = ttl_ms st"
  by (simp add: ttl_ms_def)

lemma egress_run_ttl [simp]: "ttl_ms (egress_run st cs) = ttl_ms st"
  by (induction cs arbitrary: st) simp_all

lemma sat_below: "x < ttl_ms st \<Longrightarrow> sat_i64 x < ttl_ms st"
  by (auto simp: sat_i64_def ttl_ms_def I64_MAX_def I64_MIN_def)

section \<open>Fenced instances\<close>

lemma epoch_step:
  "epoch_of (snd (egress_call st c)) =
     (case c of BeginEpoch e _ \<Rightarrow> (epoch_of st)(ge_gateway_id e \<mapsto> ge_instance_id e) | _ \<Rightarrow> epoch_of st)"
proof (cases c)
  case (ClaimCommand e i d t)
  then show ?thesis
    by (auto simp: claim_command_def Let_def sweep_locked_def drop_routes_sel split: sum.splits option.splits)
next
  case (AppendLifecycle e k ev t)
  then show ?thesis by (cases rule: append_lifecycle_cases [of st e k ev t]) simp_all
qed (auto simp: complete_command_def complete_route_recovery_def
      claim_route_transition_def complete_route_transition_def abort_route_transition_def
      fail_source_def ack_lifecycle_def Let_def split: sum.splits option.splits)

definition superseded :: "PrivateEgressGatewayEpoch \<Rightarrow> store \<Rightarrow> bool" where
  "superseded e st \<longleftrightarrow> epoch_of st (ge_gateway_id e) \<noteq> Some (ge_instance_id e)"

lemma superseded_call:
  assumes "superseded e st" "call_epoch c = e" "\<not> begins_epoch c"
  shows "reply_error (fst (egress_call st c)) = Some DeadEpoch \<and> snd (egress_call st c) = st"
  using assms
  by (cases c)
    (auto simp: superseded_def assert_epoch_def claim_command_def complete_command_def
      complete_route_recovery_def claim_route_transition_def complete_route_transition_def
      abort_route_transition_def fail_source_def append_lifecycle_def ack_lifecycle_def
      unacked_lifecycle_def ensure_epoch_def)

definition not_revived :: "PrivateEgressGatewayEpoch \<Rightarrow> EgressCall \<Rightarrow> bool" where
  "not_revived e c \<longleftrightarrow> \<not> (begins_epoch c \<and> call_epoch c = e)"

interpretation fenced: call_stable "superseded e" "\<lambda>_. not_revived e" for e
proof
  fix st c
  assume "superseded e st" "not_revived e c"
  then show "superseded e (snd (egress_call st c))"
    unfolding superseded_def epoch_step not_revived_def
    by (auto split: EgressCall.splits if_splits)
qed simp

section \<open>Recorded commands\<close>

text \<open>
  The effect of a call on one command record: a claim may sweep it away or create it, a completion
  may set its response, a new instance fences it.
\<close>

lemma call_keeps_commands:
  assumes "\<not> begins_epoch c" "\<forall>e i d t. c \<noteq> ClaimCommand e i d t"
    "\<forall>e i d r t. c \<noteq> CompleteCommand e i d r t"
  shows "commands_of (snd (egress_call st c)) = commands_of st"
proof (cases c)
  case (AppendLifecycle e k ev t)
  then show ?thesis by (cases rule: append_lifecycle_cases [of st e k ev t]) simp_all
qed (use assms in \<open>auto simp: complete_route_recovery_def
      claim_route_transition_def complete_route_transition_def abort_route_transition_def
      fail_source_def ack_lifecycle_def Let_def split: sum.splits option.splits\<close>)

lemma claim_command_eq:
  assumes "store_ok st" "epoch_of st (ge_gateway_id e) = Some (ge_instance_id e)"
  shows "claim_command st e i d t =
    (case commands_of (swept st t) (ge_gateway_id e, i) of
       Some c \<Rightarrow> (if cr_digest c \<noteq> d then Inl ReplayConflict
                  else Inr (case cr_response c of Some r \<Rightarrow> Completed r | None \<Rightarrow> InFlight), swept st t)
     | None \<Rightarrow> if length (es_commands (st_state (swept st t))) \<ge> st_max_entries st
         then (Inl CapacityExceeded, swept st t)
         else (Inr Acquired, set_command (swept st t) (ge_gateway_id e, i)
                \<lparr>cr_epoch = ge_instance_id e, cr_digest = d, cr_created_at_ms = t,
                 cr_completed_at_ms = None, cr_response = None\<rparr>))"
proof -
  have "st_max_entries (swept st t) = st_max_entries st" by (simp add: swept_def)
  then show ?thesis
    using assms
    by (auto simp: claim_command_def ensure_epoch_def Let_def swept_def [symmetric]
        split: option.splits)
qed

lemma claim_command_dead:
  "epoch_of st (ge_gateway_id e) \<noteq> Some (ge_instance_id e) \<Longrightarrow>
     claim_command st e i d t = (Inl DeadEpoch, st)"
  by (simp add: claim_command_def ensure_epoch_def)

text \<open>
  A command record that no call in the period \<open>[since, since + ttl)\<close> sweeps away.
\<close>

definition command_retained :: "millis \<Rightarrow> rstr \<Rightarrow> uuid \<Rightarrow> store \<Rightarrow> bool" where
  "command_retained since g i st \<longleftrightarrow>
     (case commands_of st (g, i) of None \<Rightarrow> False
      | Some c \<Rightarrow> (case cr_completed_at_ms c of None \<Rightarrow> cr_response c = None | Some t \<Rightarrow> since \<le> t))"

lemma retained_swept:
  assumes "store_ok st" "command_retained since g i st" "t < since + ttl_ms st"
  shows "commands_of (swept st t) (g, i) = commands_of st (g, i)"
proof -
  have shape: "shape_ok st" using assms(1) by (simp add: store_ok_def)
  have "t - x < ttl_ms st" if "since \<le> x" for x using assms(3) that by linarith
  then show ?thesis
    using assms(2) sat_below
    by (auto simp: swept_maps [OF shape] command_retained_def keep_command_def Let_def
        split: option.splits)
qed

lemma retained_step:
  assumes ok: "store_ok st" and ret: "command_retained since g i st"
    and time: "in_window since (ttl_ms st) c"
  shows "command_retained since g i (snd (egress_call st c))"
proof (cases c)
  case (BeginEpoch e t)
  then show ?thesis
    using ret time
    by (auto simp: command_retained_def begun_commands [OF ok] fenced_command_def in_window_def
        split: option.splits)
next
  case (ClaimCommand e i' d t)
  then have t: "t < since + ttl_ms st" using time by (simp add: in_window_def)
  note keep = retained_swept [OF ok ret t]
  show ?thesis
  proof (cases "epoch_of st (ge_gateway_id e) = Some (ge_instance_id e)")
    case True
    then show ?thesis
      using ClaimCommand ret keep
      by (auto simp: claim_command_eq [OF ok True] command_retained_def split: option.splits)
  qed (use ClaimCommand ret claim_command_dead in simp)
next
  case (CompleteCommand e i' d r t)
  then show ?thesis
    using ret time
    by (auto simp: complete_command_def command_retained_def in_window_def split: sum.splits option.splits)
qed (use ret call_keeps_commands [of c st] in \<open>simp add: command_retained_def\<close>)+

interpretation retained:
  call_stable "command_retained since g i" "\<lambda>st. in_window since (ttl_ms st)" for since g i
  by standard (simp_all add: retained_step)

fun acquires :: "rstr \<Rightarrow> uuid \<Rightarrow> EgressCall \<Rightarrow> EgressReply \<Rightarrow> bool" where
  "acquires g i (ClaimCommand e i' d t) (Claimed (Inr Acquired)) \<longleftrightarrow> ge_gateway_id e = g \<and> i' = i"
| "acquires g i _ _ = False"

definition acquisitions :: "rstr \<Rightarrow> uuid \<Rightarrow> store \<Rightarrow> EgressCall list \<Rightarrow> nat" where
  "acquisitions g i st cs =
     length (filter (\<lambda>(c, r). acquires g i c r) (zip cs (egress_replies st cs)))"

lemma acquisitions_Cons:
  "acquisitions g i st (c # cs) =
     (if acquires g i c (fst (egress_call st c)) then 1 else 0) +
     acquisitions g i (snd (egress_call st c)) cs"
  by (simp add: acquisitions_def)

lemma acquires_claim:
  assumes "acquires g i c (fst (egress_call st c))"
  obtains e d t where "c = ClaimCommand e i d t" "ge_gateway_id e = g"
    "fst (claim_command st e i d t) = Inr Acquired"
proof (cases c)
  case (ClaimCommand e i' d t)
  with assms show thesis
    by (cases "claim_command st e i' d t")
      (auto elim!: acquires.elims intro: that [of e d t])
qed (use assms in \<open>auto elim: acquires.elims\<close>)

lemma acquired_retained:
  assumes "store_ok st" "acquires g i c (fst (egress_call st c))"
  shows "command_retained since g i (snd (egress_call st c))"
  using assms(2)
proof (rule acquires_claim)
  fix e d t
  assume c: "c = ClaimCommand e i d t" "ge_gateway_id e = g" "fst (claim_command st e i d t) = Inr Acquired"
  then have "epoch_of st (ge_gateway_id e) = Some (ge_instance_id e)"
    using claim_command_dead [of st e i d t] by force
  with c show ?thesis
    by (auto simp: claim_command_eq [OF assms(1)] command_retained_def
        split: option.splits if_splits)
qed

lemma retained_not_acquired:
  assumes "store_ok st" "command_retained since g i st" "in_window since (ttl_ms st) c"
  shows "\<not> acquires g i c (fst (egress_call st c))"
proof
  assume "acquires g i c (fst (egress_call st c))"
  then show False
  proof (rule acquires_claim)
    fix e d t
    assume c: "c = ClaimCommand e i d t" "ge_gateway_id e = g" "fst (claim_command st e i d t) = Inr Acquired"
    then have act: "epoch_of st (ge_gateway_id e) = Some (ge_instance_id e)"
      using claim_command_dead [of st e i d t] by force
    have "t < since + ttl_ms st" using assms(3) c by (simp add: in_window_def)
    from c retained_swept [OF assms(1,2) this] assms(2) show False
      by (auto simp: claim_command_eq [OF assms(1) act] command_retained_def
          split: option.splits if_splits)
  qed
qed

lemma no_more_acquisitions:
  "store_ok st \<Longrightarrow> command_retained since g i st \<Longrightarrow> \<forall>c \<in> set cs. in_window since (ttl_ms st) c \<Longrightarrow>
     acquisitions g i st cs = 0"
proof (induction cs arbitrary: st)
  case (Cons c cs)
  then have "acquisitions g i (snd (egress_call st c)) cs = 0"
    by (intro Cons.IH retained.step) (auto simp: egress_call_ok)
  with Cons.prems retained_not_acquired [of st since g i c] show ?case
    by (simp add: acquisitions_Cons)
qed (simp add: acquisitions_def)

lemma acquired_at_most_once:
  "store_ok st \<Longrightarrow> \<forall>c \<in> set cs. in_window since (ttl_ms st) c \<Longrightarrow> acquisitions g i st cs \<le> 1"
proof (induction cs arbitrary: st)
  case (Cons c cs)
  have ok: "store_ok (snd (egress_call st c))" using Cons.prems egress_call_ok by blast
  show ?case
  proof (cases "acquires g i c (fst (egress_call st c))")
    case True
    then have "acquisitions g i (snd (egress_call st c)) cs = 0"
      using Cons.prems by (intro no_more_acquisitions [OF ok acquired_retained]) auto
    then show ?thesis by (simp add: acquisitions_Cons)
  next
    case False
    with Cons.IH [OF ok] Cons.prems show ?thesis by (simp add: acquisitions_Cons)
  qed
qed (simp add: acquisitions_def)

section \<open>Recorded responses\<close>

definition response_recorded ::
    "millis \<Rightarrow> PrivateEgressGatewayEpoch \<Rightarrow> uuid \<Rightarrow> 256 word \<Rightarrow> PrivateEgressResponse \<Rightarrow> store \<Rightarrow> bool" where
  "response_recorded since e i d r st \<longleftrightarrow>
     epoch_of st (ge_gateway_id e) = Some (ge_instance_id e) \<and>
     command_retained since (ge_gateway_id e) i st \<and>
     (case commands_of st (ge_gateway_id e, i) of None \<Rightarrow> False
      | Some c \<Rightarrow> cr_digest c = d \<and> cr_response c = Some r)"

lemma not_superseded_epoch:
  "epoch_of st (ge_gateway_id e) = Some (ge_instance_id e) \<Longrightarrow> \<not> supersedes e c \<Longrightarrow>
     epoch_of (snd (egress_call st c)) (ge_gateway_id e) = Some (ge_instance_id e)"
  unfolding epoch_step by (auto split: EgressCall.splits)

lemma response_step:
  assumes ok: "store_ok st" and rec: "response_recorded since e i d r st"
    and time: "in_window since (ttl_ms st) c" and same: "\<not> supersedes e c"
  shows "response_recorded since e i d r (snd (egress_call st c))"
proof -
  let ?k = "(ge_gateway_id e, i)"
  have act: "epoch_of st (ge_gateway_id e) = Some (ge_instance_id e)"
    and ret: "command_retained since (ge_gateway_id e) i st"
    and resp: "\<exists>x. commands_of st ?k = Some x \<and> cr_digest x = d \<and> cr_response x = Some r"
    using rec by (auto simp: response_recorded_def split: option.splits)
  have "commands_of (snd (egress_call st c)) ?k = commands_of st ?k"
  proof (cases c)
    case (BeginEpoch e' t)
    then show ?thesis using act same by (auto simp: begun_commands [OF ok] fences_def)
  next
    case (ClaimCommand e' i' d' t)
    then have keep: "commands_of (swept st t) ?k = commands_of st ?k"
      using retained_swept [OF ok ret] time by (simp add: in_window_def)
    show ?thesis
    proof (cases "epoch_of st (ge_gateway_id e') = Some (ge_instance_id e')")
      case True
      then show ?thesis
        using ClaimCommand resp keep by (auto simp: claim_command_eq [OF ok True] split: option.splits)
    qed (use ClaimCommand claim_command_dead in simp)
  next
    case (CompleteCommand e' i' d' r' t)
    then show ?thesis
      using resp by (auto simp: complete_command_def split: sum.splits option.splits)
  qed (simp_all only: call_keeps_commands begins_epoch.simps EgressCall.simps not_False_eq_True simp_thms)
  then show ?thesis
    using rec retained_step [OF ok ret time] not_superseded_epoch [OF act same]
    by (simp add: response_recorded_def)
qed

interpretation recorded: call_stable "response_recorded since e i d r"
  "\<lambda>st c. in_window since (ttl_ms st) c \<and> \<not> supersedes e c" for since e i d r
  by standard (simp_all add: response_step)

lemma recorded_is_replayed:
  assumes "store_ok st" "response_recorded since e i d r st" "t < since + ttl_ms st"
  shows "fst (claim_command st e i d' t) = (if d' = d then Inr (Completed r) else Inl ReplayConflict)"
proof -
  have act: "epoch_of st (ge_gateway_id e) = Some (ge_instance_id e)"
    and ret: "command_retained since (ge_gateway_id e) i st"
    using assms(2) by (auto simp: response_recorded_def)
  show ?thesis
    using assms(2) retained_swept [OF assms(1) ret assms(3)]
    by (auto simp: claim_command_eq [OF assms(1) act] response_recorded_def split: option.splits)
qed

lemma completed_is_recorded:
  assumes "store_ok st" "fst (complete_command st e i d r t) = Inr ()" "since \<le> t"
    "command_retained since (ge_gateway_id e) i st"
  shows "response_recorded since e i d r (snd (complete_command st e i d r t))"
  using assms
  by (auto simp: complete_command_def response_recorded_def command_retained_def
      split: sum.splits option.splits if_splits)

section \<open>Tombstoned routes\<close>

text \<open>The routes that a call can touch, and the record each of them gets.\<close>

lemma route_step_dead:
  assumes ok: "store_ok st" and r: "routes_of st (g, k) = Some r" and dead: "\<not> route_live r"
    and keep: "\<forall>e i d t. c = ClaimCommand e i d t \<longrightarrow> \<not> expired_route (ttl_ms st) t r"
  shows "routes_of (snd (egress_call st c)) (g, k) = Some r \<or>
    (\<exists>e. c = CompleteRouteRecovery e k \<and> ge_gateway_id e = g \<and> fst (egress_call st c) = Done (Inr ()) \<and>
       routes_of (snd (egress_call st c)) (g, k) = Some (r\<lparr>rr_recovery_required := False\<rparr>))"
proof -
  have shape: "shape_ok st" using ok by (simp add: store_ok_def)
  note rok = store_ok_route [OF ok r]
  have tomb: "rr_tombstoned_at_ms r \<noteq> None" and pend: "rr_pending r = None"
    using rok dead by (auto simp: route_ok_def route_live_def tombstone_state_def split: option.splits)
  show ?thesis
  proof (cases c)
    case (BeginEpoch e t)
    then show ?thesis using r dead by (auto simp: begun_routes [OF ok])
  next
    case (ClaimCommand e i d t)
    have "routes_of (swept st t) (g, k) = Some r"
      using r keep ClaimCommand by (simp add: swept_maps [OF shape] route_expired_at_def)
    then have "routes_of (snd (claim_command st e i d t)) (g, k) = Some r"
      using r claim_command_dead [of st e i d t]
      by (cases "epoch_of st (ge_gateway_id e) = Some (ge_instance_id e)")
        (auto simp: claim_command_eq [OF ok] split: option.splits)
    then show ?thesis using ClaimCommand by simp
  next
    case (FailSource e a t)
    have "routes_of (snd (fail_source st e a t)) (g, k) = Some r"
    proof (cases "epoch_of st (ge_gateway_id e) = Some (ge_instance_id e)")
      case True
      obtain keys where "set keys = source_routes st e a"
        "fail_source st e a t = (Inr keys, foldl (fail_route (ge_gateway_id e) t) st keys)"
        using fail_source_eq [OF shape True] by metis
      then show ?thesis using r dead by (auto simp: fail_routes_routes source_routes_def)
    qed (use r in \<open>simp add: fail_source_def ensure_epoch_def\<close>)
    then show ?thesis using FailSource by simp
  next
    case (AppendLifecycle e k' ev t)
    show ?thesis
    proof (cases rule: append_lifecycle_cases [of st e k' ev t])
      case (exhausted x r0 r1)
      then show ?thesis using AppendLifecycle r tomb by (auto simp: append_to_route_def)
    next
      case (journaled q r0 r1)
      then show ?thesis
        using AppendLifecycle r tomb append_to_route_props(5) [OF journaled(3) refl] by auto
    qed (use AppendLifecycle r in simp)
  qed (use r tomb pend in \<open>auto simp: complete_command_def complete_route_recovery_def
      claim_route_transition_def complete_route_transition_def abort_route_transition_def
      ack_lifecycle_def Let_def split: sum.splits option.splits\<close>)
qed

definition route_tombstoned ::
    "millis \<Rightarrow> rstr \<Rightarrow> PrivateEgressRouteKey \<Rightarrow> PrivateEgressLifecycleState \<Rightarrow> store \<Rightarrow> bool" where
  "route_tombstoned since g k s st \<longleftrightarrow>
     egress_is_terminal s \<and>
     (case routes_of st (g, k) of None \<Rightarrow> False
      | Some r \<Rightarrow> rr_state r = Some s \<and>
          (case rr_tombstoned_at_ms r of None \<Rightarrow> False | Some t \<Rightarrow> since \<le> t))"

definition before :: "millis \<Rightarrow> EgressCall \<Rightarrow> bool" where
  "before limit c \<longleftrightarrow> (case call_time c of None \<Rightarrow> True | Some t \<Rightarrow> t < limit)"

lemma tombstone_record:
  assumes "store_ok st" "route_tombstoned since g k s st"
  obtains r where "routes_of st (g, k) = Some r" "rr_state r = Some s" "\<not> route_live r"
    "rr_tombstoned_at_ms r \<noteq> None" "rr_pending r = None"
    "\<And>t. t < since + ttl_ms st \<Longrightarrow> \<not> expired_route (ttl_ms st) t r"
proof -
  obtain r x where r: "routes_of st (g, k) = Some r" "rr_state r = Some s" "egress_is_terminal s"
    "rr_tombstoned_at_ms r = Some x" "since \<le> x"
    using assms(2) by (auto simp: route_tombstoned_def split: option.splits)
  have pend: "rr_pending r = None"
    using store_ok_route [OF assms(1) r(1)] r by (simp add: route_ok_def tombstone_state_def)
  have "\<not> expired_route (ttl_ms st) t r" if "t < since + ttl_ms st" for t
    using sat_below [of "t - x" st] that r(4,5) by (simp add: expired_route_def)
  with r pend show thesis by (intro that [of r]) (auto simp: route_live_def)
qed

lemma tombstone_step:
  assumes ok: "store_ok st" and tomb: "route_tombstoned since g k s st"
    and time: "before (since + ttl_ms st) c"
  shows "route_tombstoned since g k s (snd (egress_call st c))"
  using ok tomb
proof (rule tombstone_record)
  fix r
  assume r: "routes_of st (g, k) = Some r" "rr_state r = Some s" "\<not> route_live r"
    "\<And>t. t < since + ttl_ms st \<Longrightarrow> \<not> expired_route (ttl_ms st) t r"
  have keep: "\<forall>e i d t. c = ClaimCommand e i d t \<longrightarrow> \<not> expired_route (ttl_ms st) t r"
    using r(4) time by (auto simp: before_def)
  have "routes_of (snd (egress_call st c)) (g, k) = Some r \<or>
    routes_of (snd (egress_call st c)) (g, k) = Some (r\<lparr>rr_recovery_required := False\<rparr>)"
    using route_step_dead [OF ok r(1,3) keep] by blast
  with r(1) tomb show ?thesis by (auto simp: route_tombstoned_def split: option.splits)
qed

interpretation tombstoned: call_stable "route_tombstoned since g k s"
  "\<lambda>st. before (since + ttl_ms st)" for since g k s
  by standard (simp_all add: tombstone_step)

lemma tombstoned_refuses:
  assumes "store_ok st" "route_tombstoned since (ge_gateway_id e) k s st"
  shows "fst (claim_route_transition st e k i x n) \<noteq> Inr ()"
    "fst (complete_route_transition st e k i n t) \<noteq> Inr ()"
    "fst (append_lifecycle st e k ev t) \<noteq> Inr ev'"
  using assms
proof (atomize (full), rule tombstone_record)
  fix r
  assume r: "routes_of st (ge_gateway_id e, k) = Some r" "rr_tombstoned_at_ms r \<noteq> None" "rr_pending r = None"
  have "fst (append_lifecycle st e k ev t) \<noteq> Inr ev'"
  proof (cases rule: append_lifecycle_cases [of st e k ev t])
    case (journaled q r0 r1)
    then show ?thesis using r append_to_route_props(5) [OF journaled(3) refl] by auto
  qed simp_all
  with r show "fst (claim_route_transition st e k i x n) \<noteq> Inr () \<and>
    fst (complete_route_transition st e k i n t) \<noteq> Inr () \<and> fst (append_lifecycle st e k ev t) \<noteq> Inr ev'"
    by (auto simp: claim_route_transition_def complete_route_transition_def Let_def
        split: sum.splits)
qed

section \<open>Routes that await recovery\<close>

definition recovery_pending :: "rstr \<Rightarrow> PrivateEgressRouteKey \<Rightarrow> store \<Rightarrow> bool" where
  "recovery_pending g k st \<longleftrightarrow>
     (case routes_of st (g, k) of None \<Rightarrow> False | Some r \<Rightarrow> rr_recovery_required r)"

definition not_recovered :: "rstr \<Rightarrow> PrivateEgressRouteKey \<Rightarrow> EgressCall \<Rightarrow> bool" where
  "not_recovered g k c \<longleftrightarrow>
     (case c of CompleteRouteRecovery e k' \<Rightarrow> \<not> (ge_gateway_id e = g \<and> k' = k) | _ \<Rightarrow> True)"

lemma recovery_step:
  assumes ok: "store_ok st" and rec: "recovery_pending g k st" and c: "not_recovered g k c"
  shows "recovery_pending g k (snd (egress_call st c))"
proof -
  obtain r where r: "routes_of st (g, k) = Some r" "rr_recovery_required r"
    using rec by (auto simp: recovery_pending_def split: option.splits)
  have "rr_state r = Some PrivateEgressLifecycleState.Failed" "rr_pending r = None"
    using store_ok_route [OF ok r(1)] r(2)
    by (auto simp: route_ok_def tombstone_state_def egress_is_terminal_def)
  then have dead: "\<not> route_live r" by (simp add: route_live_def egress_is_terminal_def)
  have keep: "\<forall>e i d t. c = ClaimCommand e i d t \<longrightarrow> \<not> expired_route (ttl_ms st) t r"
    using r(2) by (simp add: expired_route_def)
  have "routes_of (snd (egress_call st c)) (g, k) = Some r"
    using route_step_dead [OF ok r(1) dead keep] c by (auto simp: not_recovered_def)
  then show ?thesis using r(2) by (simp add: recovery_pending_def)
qed

interpretation awaiting: call_stable "recovery_pending g k" "\<lambda>_. not_recovered g k" for g k
  by standard (simp_all add: recovery_step)

definition recovered_keys :: "store \<Rightarrow> PrivateEgressGatewayEpoch \<Rightarrow> millis \<Rightarrow> PrivateEgressRouteKey set" where
  "recovered_keys st e t =
     (case fst (begin_epoch st e t) of Inl _ \<Rightarrow> {} | Inr rs \<Rightarrow> rec_key ` set rs)"

lemma begin_epoch_reply:
  "fst (begin_epoch st e t) =
     Inr (map (\<lambda>((_, k), r). \<lparr>rec_dead_epoch = rr_epoch r, rec_key = k\<rparr>)
       (filter (\<lambda>((g, _), r). g = ge_gateway_id e \<and> rr_recovery_required r)
          (es_routes (st_state (begun st e t)))))"
  by (simp add: begin_epoch_def activate_def begin_epoch_locked_def Let_def)

lemma recovered_keys_eq:
  assumes "store_ok st"
  shows "recovered_keys st e t = {k. recovery_pending (ge_gateway_id e) k (begun st e t)}"
proof -
  have shape: "shape_ok (begun st e t)" using assms begin_epoch_ok by (simp add: store_ok_def)
  have "recovered_keys st e t =
    {k. \<exists>r. ((ge_gateway_id e, k), r) \<in> set (es_routes (st_state (begun st e t))) \<and>
          rr_recovery_required r}"
    unfolding recovered_keys_def begin_epoch_reply by force
  then show ?thesis
    unfolding in_map_of [OF shape_distinct(3) [OF shape]]
    by (auto simp: recovery_pending_def split: option.splits)
qed

lemma begun_recovery:
  assumes "store_ok st"
  shows "recovery_pending (ge_gateway_id e) k (begun st e t) \<longleftrightarrow>
    recovery_pending (ge_gateway_id e) k st \<or>
    (fences st e \<and> (\<exists>r. routes_of st (ge_gateway_id e, k) = Some r \<and> route_live r))"
  by (auto simp: recovery_pending_def begun_routes [OF assms] fenced_route_def split: option.splits)

end
