(* ===== verification/Egress_Journal.thy ===== *)
theory Egress_Journal
  imports Egress_Fencing
begin

text \<open>
  The journal of lifecycle events as a queue. Abstractly the journal of a route is the list of its
  unacknowledged events: an accepted append puts the stamped event at the end, an accepted
  acknowledgement takes the named event out, and no other call changes it. The store keeps the
  events of all routes of all gateways in one hash map and sorts on demand; \<open>journal_refines\<close> shows
  that it implements the queue for as long as the route is not swept away. \<open>stamped\<close> collects the
  events that a sequence of calls journals, which are numbered without gaps.
\<close>

section \<open>The abstract queue\<close>

definition unacked_of ::
    "PrivateEgressGatewayEpoch \<Rightarrow> PrivateEgressRouteKey \<Rightarrow> store \<Rightarrow> PrivateEgressLifecycleEvent list" where
  "unacked_of e k st =
     sort_key ev_sequence
       (map (\<lambda>p. lr_event (snd p)) (filter (unacked_record e k) (es_lifecycle (st_state st))))"

fun journal_spec ::
    "PrivateEgressGatewayEpoch \<Rightarrow> PrivateEgressRouteKey \<Rightarrow> EgressCall \<Rightarrow> EgressReply \<Rightarrow>
     PrivateEgressLifecycleEvent list \<Rightarrow> PrivateEgressLifecycleEvent list" where
  "journal_spec e k (AppendLifecycle e' k' _ _) (Journaled (Inr stamped)) log =
     (if e' = e \<and> k' = k then log @ [stamped] else log)"
| "journal_spec e k (AckLifecycle e' k' i _) (Done (Inr ())) log =
     (if e' = e \<and> k' = k then filter (\<lambda>ev. ev_event_id ev \<noteq> i) log else log)"
| "journal_spec e k _ _ log = log"

text \<open>A claim of a command sweeps the store at its time; it spares the routes that are not yet expired.\<close>

definition spares :: "store \<Rightarrow> rstr \<times> PrivateEgressRouteKey \<Rightarrow> EgressCall \<Rightarrow> bool" where
  "spares st rk c \<longleftrightarrow>
     (case c of ClaimCommand _ _ _ t \<Rightarrow> \<not> route_expired_at st t rk | _ \<Rightarrow> True)"

section \<open>The journal of one route\<close>

lemma unacked_lifecycle_eq:
  "epoch_of st (ge_gateway_id e) = Some (ge_instance_id e) \<Longrightarrow>
     unacked_lifecycle st e k = (Inr (unacked_of e k st), st)"
  by (simp add: unacked_lifecycle_def unacked_of_def ensure_epoch_def Let_def case_prod_beta')

lemma unacked_in_journal:
  assumes "store_ok st" "ev \<in> set (unacked_of e k st)"
  obtains i l where "journal_of st (ge_gateway_id e, i) = Some l" "lr_event l = ev" "lr_key l = k"
    "lr_epoch l = ge_instance_id e" "\<not> lr_acked l"
proof -
  obtain p where p: "p \<in> set (es_lifecycle (st_state st))" "unacked_record e k p" "lr_event (snd p) = ev"
    using assms(2) by (auto simp: unacked_of_def)
  obtain g i l where gil: "p = ((g, i), l)" by (metis surj_pair)
  have "journal_of st (g, i) = Some l"
    using p(1) gil assms(1) in_map_of [of "es_lifecycle (st_state st)" "(g, i)" l]
    by (simp add: store_ok_def)
  with p gil show thesis by (intro that [of i l]) (auto simp: unacked_record_def)
qed

lemma unacked_events:
  assumes "store_ok st" "ev \<in> set (unacked_of e k st)"
  shows "ev_gateway_epoch ev = ge_instance_id e" "event_of_key k ev" "0 < ev_sequence ev"
    "\<exists>r. routes_of st (ge_gateway_id e, k) = Some r \<and> rr_epoch r = ge_instance_id e \<and>
       ev_sequence ev \<le> rr_next_lifecycle_sequence r"
    "\<exists>l. journal_of st (ge_gateway_id e, ev_event_id ev) = Some l \<and> lr_event l = ev \<and> lr_key l = k \<and>
       lr_epoch l = ge_instance_id e \<and> \<not> lr_acked l"
proof (atomize (full), goal_cases)
  case 1
  from assms show ?case
  proof (rule unacked_in_journal)
    fix i l
    assume l: "journal_of st (ge_gateway_id e, i) = Some l" "lr_event l = ev" "lr_key l = k"
      "lr_epoch l = ge_instance_id e" "\<not> lr_acked l"
    from store_ok_journal [OF assms(1) l(1)] l show ?case
      by (auto simp: journal_record_ok_def split: option.splits)
  qed
qed

lemma insort_key_snoc: "f y < f x \<Longrightarrow> insort_key f y (zs @ [x]) = insort_key f y zs @ [x]"
  by (induction zs) auto

lemma sort_key_snoc:
  "\<forall>y \<in> set xs. f y < f x \<Longrightarrow> sort_key f (xs @ [x]) = sort_key f xs @ [x]"
  by (induction xs) (auto simp: insort_key_snoc)

lemma distinct_map_sort: "distinct (map f (sort_key f xs)) = distinct (map f xs)"
  by (induction xs) (simp_all add: distinct_insort_key)

lemma update_new: "map_of m k = None \<Longrightarrow> AList.update k v m = m @ [(k, v)]"
  by (induction m) (auto split: if_splits)

lemma filter_update:
  assumes "keys_distinct m" "map_of m k = Some v" "\<not> P (k, v')"
  shows "filter P (AList.update k v' m) = filter (\<lambda>p. fst p \<noteq> k) (filter P m)"
  using assms by (induction m) (auto simp: image_iff intro!: filter_cong split: if_splits)

lemma journal_unchanged:
  assumes "\<forall>e i d t. c \<noteq> ClaimCommand e i d t" "\<forall>e k ev t. c \<noteq> AppendLifecycle e k ev t"
    "\<forall>e k i q. c \<noteq> AckLifecycle e k i q"
  shows "es_lifecycle (st_state (snd (egress_call st c))) = es_lifecycle (st_state st)"
  using assms
  by (cases c) (auto simp: complete_command_def complete_route_recovery_def
      claim_route_transition_def complete_route_transition_def abort_route_transition_def
      fail_source_def Let_def split: sum.splits option.splits)

lemma unacked_claim:
  assumes ok: "store_ok st" and spare: "\<not> route_expired_at st t (ge_gateway_id e, k)"
  shows "unacked_of e k (snd (claim_command st e' i d t)) = unacked_of e k st"
proof (cases "epoch_of st (ge_gateway_id e') = Some (ge_instance_id e')")
  case True
  have shape: "shape_ok st" using ok by (simp add: store_ok_def)
  have "filter (unacked_record e k) (es_lifecycle (st_state (swept st t))) =
    filter (unacked_record e k) (es_lifecycle (st_state st))"
    unfolding swept_sel [OF shape] using spare
    by (auto simp: unacked_record_def keep_journal_def intro!: filter_cong)
  moreover have "es_lifecycle (st_state (snd (claim_command st e' i d t))) =
    es_lifecycle (st_state (swept st t))"
    by (auto simp: claim_command_eq [OF ok True] split: option.splits)
  ultimately show ?thesis by (simp add: unacked_of_def)
qed (simp add: claim_command_dead)

lemma unacked_append:
  assumes ok: "store_ok st" and act: "epoch_of st (ge_gateway_id e) = Some (ge_instance_id e)"
  shows "unacked_of e k (snd (append_lifecycle st e' k' ev t)) =
    journal_spec e k (AppendLifecycle e' k' ev t) (Journaled (fst (append_lifecycle st e' k' ev t)))
      (unacked_of e k st)"
proof (cases rule: append_lifecycle_cases [of st e' k' ev t])
  case (journaled q r r')
  note lc = update_new [OF journaled(5)]
  have seq: "ev_sequence (lr_event (snd p)) < q"
    if "p \<in> set (es_lifecycle (st_state st))" "unacked_record e' k' p" for p
  proof -
    have "lr_event (snd p) \<in> set (unacked_of e' k' st)" using that by (auto simp: unacked_of_def)
    then obtain r0 where "routes_of st (ge_gateway_id e', k') = Some r0"
      "ev_sequence (lr_event (snd p)) \<le> rr_next_lifecycle_sequence r0"
      using unacked_events(4) [OF ok] by blast
    then show ?thesis
      using journaled(2) append_to_route_props(5) [OF journaled(3) refl]
        next_sequence_less [of "rr_next_lifecycle_sequence r"] by auto
  qed
  have same: "e' = e" if "ge_gateway_id e' = ge_gateway_id e" using that act journaled(4) by simp
  let ?new = "((ge_gateway_id e', ev_event_id ev),
    \<lparr>lr_epoch = ge_instance_id e', lr_key = k',
     lr_event = ev\<lparr>ev_gateway_epoch := ge_instance_id e', ev_sequence := q\<rparr>,
     lr_acked = False, lr_created_at_ms = t\<rparr>)"
  have lc': "es_lifecycle (st_state (snd (append_lifecycle st e' k' ev t))) =
    es_lifecycle (st_state st) @ [?new]"
    by (simp add: journaled(1) lc)
  show ?thesis
  proof (cases "e' = e \<and> k' = k")
    case True
    then have "unacked_record e k ?new" by (simp add: unacked_record_def)
    moreover have "fst (append_lifecycle st e' k' ev t) =
      Inr (ev\<lparr>ev_gateway_epoch := ge_instance_id e', ev_sequence := q\<rparr>)"
      by (simp add: journaled(1))
    ultimately show ?thesis
      using True seq unfolding unacked_of_def lc' by (simp add: sort_key_snoc)
  next
    case False
    then have "\<not> unacked_record e k ?new" using same by (auto simp: unacked_record_def)
    with False show ?thesis unfolding unacked_of_def lc' by (simp add: journaled(1))
  qed
qed (simp_all add: unacked_of_def)

lemma ack_lifecycle_done:
  assumes "fst (ack_lifecycle st e k i q) = Inr u"
  obtains l where "journal_of st (ge_gateway_id e, i) = Some l" "lr_key l = k"
    "epoch_of st (ge_gateway_id e) = Some (ge_instance_id e)"
    "snd (ack_lifecycle st e k i q) = set_journal st (ge_gateway_id e, i) (l\<lparr>lr_acked := True\<rparr>)"
    "lr_epoch l = ge_instance_id e" "ev_sequence (lr_event l) = q"
proof (cases "journal_of st (ge_gateway_id e, i)")
  case (Some l)
  have act: "epoch_of st (ge_gateway_id e) = Some (ge_instance_id e)"
    using assms by (auto simp: ack_lifecycle_def ensure_epoch_def split: if_splits)
  then have "lr_epoch l = ge_instance_id e \<and> lr_key l = k \<and> ev_sequence (lr_event l) = q"
    using assms Some by (auto simp: ack_lifecycle_def ensure_epoch_def split: if_splits)
  with act Some show thesis by (intro that [of l]) (simp_all add: ack_lifecycle_def ensure_epoch_def)
qed (use assms in \<open>auto simp: ack_lifecycle_def split: sum.splits\<close>)

lemma unacked_ack:
  assumes ok: "store_ok st" and act: "epoch_of st (ge_gateway_id e) = Some (ge_instance_id e)"
  shows "unacked_of e k (snd (ack_lifecycle st e' k' i q)) =
    journal_spec e k (AckLifecycle e' k' i q) (Done (fst (ack_lifecycle st e' k' i q)))
      (unacked_of e k st)"
proof (cases "fst (ack_lifecycle st e' k' i q)")
  case (Inl x)
  then have "snd (ack_lifecycle st e' k' i q) = st"
    by (auto simp: ack_lifecycle_def split: sum.splits option.splits if_splits)
  then show ?thesis using Inl by simp
next
  case (Inr u)
  let ?gi = "(ge_gateway_id e', i)" let ?lc = "es_lifecycle (st_state st)"
  from Inr obtain l where l: "map_of ?lc ?gi = Some l" "lr_key l = k'"
    "epoch_of st (ge_gateway_id e') = Some (ge_instance_id e')"
    "snd (ack_lifecycle st e' k' i q) = set_journal st ?gi (l\<lparr>lr_acked := True\<rparr>)"
    by (rule ack_lifecycle_done)
  have dist: "keys_distinct ?lc" using ok by (simp add: store_ok_def)
  have keys: "(fst p = ?gi) = (e' = e \<and> k' = k \<and> ev_event_id (lr_event (snd p)) = i)"
    if p: "p \<in> set ?lc" "unacked_record e k p" for p
  proof -
    obtain g j x where gjx: "p = ((g, j), x)" by (metis surj_pair)
    have x: "journal_of st (g, j) = Some x" using p(1) gjx in_map_of [OF dist, of "(g, j)" x] by simp
    have j: "ev_event_id (lr_event x) = j" using store_ok_journal [OF ok x] by (simp add: journal_record_ok_def)
    have g: "g = ge_gateway_id e" "lr_key x = k" using p(2) gjx by (auto simp: unacked_record_def)
    show ?thesis
    proof
      assume eq: "fst p = ?gi"
      then have "x = l" using gjx x l(1) by simp
      moreover have "e' = e" using eq gjx g act l(3) by simp
      ultimately show "e' = e \<and> k' = k \<and> ev_event_id (lr_event (snd p)) = i"
        using eq gjx j g l(2) by simp
    qed (use gjx j g in simp)
  qed
  have "filter (unacked_record e k) (AList.update ?gi (l\<lparr>lr_acked := True\<rparr>) ?lc) =
    filter (\<lambda>p. fst p \<noteq> ?gi) (filter (unacked_record e k) ?lc)"
    using dist l(1) by (intro filter_update) (auto simp: unacked_record_def)
  also have "\<dots> = filter (\<lambda>p. \<not> (e' = e \<and> k' = k \<and> ev_event_id (lr_event (snd p)) = i))
      (filter (unacked_record e k) ?lc)"
    using keys by (intro filter_cong) auto
  finally show ?thesis
    using Inr unfolding unacked_of_def l(4)
    by (cases "e' = e \<and> k' = k") (auto simp: filter_sort filter_map comp_def)
qed

lemma unacked_step:
  assumes ok: "store_ok st" and act: "epoch_of st (ge_gateway_id e) = Some (ge_instance_id e)"
    and spare: "spares st (ge_gateway_id e, k) c"
  shows "unacked_of e k (snd (egress_call st c)) =
    journal_spec e k c (fst (egress_call st c)) (unacked_of e k st)"
proof (cases c)
  case (ClaimCommand e' i d t)
  then show ?thesis using unacked_claim [OF ok] spare by (simp add: spares_def)
next
  case (AppendLifecycle e' k' ev t)
  then show ?thesis using unacked_append [OF ok act] by simp
next
  case (AckLifecycle e' k' i q)
  then show ?thesis using unacked_ack [OF ok act] by simp
qed (use journal_unchanged [of c st] in \<open>simp_all add: unacked_of_def\<close>)

section \<open>Runs of calls\<close>

fun undisturbed ::
    "PrivateEgressGatewayEpoch \<Rightarrow> PrivateEgressRouteKey \<Rightarrow> store \<Rightarrow> EgressCall list \<Rightarrow> bool" where
  "undisturbed e k st [] \<longleftrightarrow> True"
| "undisturbed e k st (c # cs) \<longleftrightarrow>
     \<not> supersedes e c \<and> spares st (ge_gateway_id e, k) c \<and> undisturbed e k (snd (egress_call st c)) cs"

fun journal_run ::
    "PrivateEgressGatewayEpoch \<Rightarrow> PrivateEgressRouteKey \<Rightarrow> store \<Rightarrow> EgressCall list \<Rightarrow>
     PrivateEgressLifecycleEvent list \<Rightarrow> PrivateEgressLifecycleEvent list" where
  "journal_run e k st [] log = log"
| "journal_run e k st (c # cs) log =
     journal_run e k (snd (egress_call st c)) cs (journal_spec e k c (fst (egress_call st c)) log)"

fun stamped_by ::
    "PrivateEgressGatewayEpoch \<Rightarrow> PrivateEgressRouteKey \<Rightarrow> EgressCall \<Rightarrow> EgressReply \<Rightarrow>
     PrivateEgressLifecycleEvent list" where
  "stamped_by e k (AppendLifecycle e' k' _ _) (Journaled (Inr ev)) =
     (if e' = e \<and> k' = k then [ev] else [])"
| "stamped_by e k _ _ = []"

fun stamped ::
    "PrivateEgressGatewayEpoch \<Rightarrow> PrivateEgressRouteKey \<Rightarrow> store \<Rightarrow> EgressCall list \<Rightarrow>
     PrivateEgressLifecycleEvent list" where
  "stamped e k st [] = []"
| "stamped e k st (c # cs) =
     stamped_by e k c (fst (egress_call st c)) @ stamped e k (snd (egress_call st c)) cs"

lemma unacked_run:
  "store_ok st \<Longrightarrow> epoch_of st (ge_gateway_id e) = Some (ge_instance_id e) \<Longrightarrow> undisturbed e k st cs \<Longrightarrow>
     unacked_of e k (egress_run st cs) = journal_run e k st cs (unacked_of e k st) \<and>
     epoch_of (egress_run st cs) (ge_gateway_id e) = Some (ge_instance_id e)"
proof (induction cs arbitrary: st)
  case (Cons c cs)
  then have "\<not> supersedes e c" "spares st (ge_gateway_id e, k) c" by simp_all
  with Cons.prems Cons.IH [of "snd (egress_call st c)"] show ?case
    by (simp add: egress_call_ok not_superseded_epoch unacked_step)
qed simp

text \<open>The unacknowledged events of a route are in strictly ascending order.\<close>

lemma unacked_sorted:
  assumes "store_ok st"
  shows "sorted_wrt (<) (map ev_sequence (unacked_of e k st))"
proof -
  let ?lc = "es_lifecycle (st_state st)"
  have dist: "keys_distinct ?lc" using assms by (simp add: store_ok_def)
  have uniq: "journal_of st (g, i) = Some l \<Longrightarrow> journal_of st (g, i') = Some l' \<Longrightarrow> lr_key l = lr_key l' \<Longrightarrow>
    ev_sequence (lr_event l) = ev_sequence (lr_event l') \<Longrightarrow> i = i'" for g i l i' l'
    using assms unfolding store_ok_def maps_ok_def by blast
  have "inj_on (\<lambda>p. ev_sequence (lr_event (snd p))) {p \<in> set ?lc. unacked_record e k p}"
  proof (rule inj_onI)
    fix p p'
    assume a: "p \<in> {p \<in> set ?lc. unacked_record e k p}" "p' \<in> {p \<in> set ?lc. unacked_record e k p}"
      "ev_sequence (lr_event (snd p)) = ev_sequence (lr_event (snd p'))"
    obtain g i l g' i' l' where p: "p = ((g, i), l)" "p' = ((g', i'), l')" by (metis surj_pair)
    then have j: "journal_of st (g, i) = Some l" "journal_of st (g', i') = Some l'"
      using a in_map_of [OF dist, of "(g, i)" l] in_map_of [OF dist, of "(g', i')" l'] by simp_all
    have same: "g' = g" "lr_key l = lr_key l'" using a(1,2) p by (auto simp: unacked_record_def)
    have "i = i'" by (rule uniq [of g i l i' l']) (use j same a(3) p in simp_all)
    with j same p show "p = p'" by simp
  qed
  moreover have "distinct ?lc" using dist by (simp add: distinct_map)
  ultimately have "distinct (map (\<lambda>p. ev_sequence (lr_event (snd p))) (filter (unacked_record e k) ?lc))"
    by (simp add: distinct_map)
  then have "distinct (map ev_sequence (unacked_of e k st))"
    by (simp add: unacked_of_def distinct_map_sort comp_def)
  moreover have "sorted (map ev_sequence (unacked_of e k st))" by (simp add: unacked_of_def)
  ultimately show ?thesis by (simp add: strict_sorted_iff)
qed

section \<open>The numbering of a route\<close>

definition next_of :: "rstr \<Rightarrow> PrivateEgressRouteKey \<Rightarrow> store \<Rightarrow> u64" where
  "next_of g k st =
     (case routes_of st (g, k) of None \<Rightarrow> 0 | Some r \<Rightarrow> rr_next_lifecycle_sequence r)"

lemma next_of_claim:
  assumes "store_ok st" "\<not> route_expired_at st t (g, k)"
  shows "next_of g k (snd (claim_command st e i d t)) = next_of g k st"
proof (cases "epoch_of st (ge_gateway_id e) = Some (ge_instance_id e)")
  case True
  have "shape_ok st" using assms(1) by (simp add: store_ok_def)
  then have "routes_of (swept st t) (g, k) = routes_of st (g, k)"
    using assms(2) by (simp add: swept_maps)
  then show ?thesis
    by (auto simp: claim_command_eq [OF assms(1) True] next_of_def split: option.splits)
qed (simp add: claim_command_dead)

lemma next_of_fail_source:
  assumes "store_ok st"
  shows "next_of g k (snd (fail_source st e a t)) = next_of g k st"
proof (cases "epoch_of st (ge_gateway_id e) = Some (ge_instance_id e)")
  case True
  have "shape_ok st" using assms by (simp add: store_ok_def)
  then obtain keys where "fail_source st e a t = (Inr keys, foldl (fail_route (ge_gateway_id e) t) st keys)"
    using fail_source_eq True by metis
  then show ?thesis
    by (auto simp: next_of_def fail_routes_routes failed_route_def split: option.splits)
qed (simp add: fail_source_def ensure_epoch_def)

lemma next_of_begin:
  assumes "store_ok st"
  shows "next_of g k (begun st e t) = next_of g k st"
  by (auto simp: next_of_def begun_routes [OF assms] fenced_route_def failed_route_def
      split: option.splits)

lemma next_of_abort:
  assumes "store_ok st"
  shows "next_of g k (snd (abort_route_transition st e k' c)) = next_of g k st"
proof (cases "routes_of st (ge_gateway_id e, k')")
  case (Some r)
  have "rr_state r = None \<Longrightarrow> rr_next_lifecycle_sequence r = 0"
    using store_ok_route [OF assms Some] by (simp add: route_ok_def)
  then show ?thesis
    using Some by (auto simp: next_of_def abort_route_transition_def Let_def split: sum.splits option.splits)
qed (auto simp: abort_route_transition_def next_of_def split: sum.splits)

lemma next_of_append:
  fixes st e k e' k' ev t
  defines "news \<equiv> stamped_by e k (AppendLifecycle e' k' ev t)
    (Journaled (fst (append_lifecycle st e' k' ev t)))"
  assumes act: "epoch_of st (ge_gateway_id e) = Some (ge_instance_id e)"
  shows "unat (next_of (ge_gateway_id e) k (snd (append_lifecycle st e' k' ev t))) =
      unat (next_of (ge_gateway_id e) k st) + length news \<and>
    (\<forall>x \<in> set news. unat (ev_sequence x) = Suc (unat (next_of (ge_gateway_id e) k st)) \<and>
      event_of_key k x \<and> ev_gateway_epoch x = ge_instance_id e)"
proof (cases rule: append_lifecycle_cases [of st e' k' ev t])
  case (exhausted y r r')
  then show ?thesis
    using append_to_route_props(6) [OF exhausted(3) refl] by (auto simp: news_def next_of_def)
next
  case (journaled q r r')
  note p = append_to_route_props(5) [OF journaled(3) refl]
  have suc: "unat q = Suc (unat (rr_next_lifecycle_sequence r))"
    using p unatSuc [of "rr_next_lifecycle_sequence r"] by (simp add: eq_neg_iff_add_eq_0 add.commute)
  have same: "e' = e" if "ge_gateway_id e' = ge_gateway_id e" using that act journaled(4) by simp
  show ?thesis
    using journaled p suc same by (auto simp: news_def next_of_def event_of_key_def)
qed (simp add: news_def)

lemma stamped_by_length: "length (stamped_by e k c r) \<le> 1"
  by (cases "(e, k, c, r)" rule: stamped_by.cases) simp_all

lemma next_of_step:
  assumes ok: "store_ok st" and act: "epoch_of st (ge_gateway_id e) = Some (ge_instance_id e)"
    and spare: "spares st (ge_gateway_id e, k) c"
  shows "unat (next_of (ge_gateway_id e) k (snd (egress_call st c))) =
      unat (next_of (ge_gateway_id e) k st) + length (stamped_by e k c (fst (egress_call st c))) \<and>
    (\<forall>x \<in> set (stamped_by e k c (fst (egress_call st c))).
      unat (ev_sequence x) = Suc (unat (next_of (ge_gateway_id e) k st)) \<and>
      event_of_key k x \<and> ev_gateway_epoch x = ge_instance_id e)"
proof (cases c)
  case (BeginEpoch e' t)
  then show ?thesis by (simp add: next_of_begin [OF ok])
next
  case (ClaimCommand e' i d t)
  then show ?thesis using next_of_claim [OF ok] spare by (simp add: spares_def)
next
  case (AbortRouteTransition e' k' i)
  then show ?thesis by (simp add: next_of_abort [OF ok])
next
  case (FailSource e' a t)
  then show ?thesis by (simp add: next_of_fail_source [OF ok])
next
  case (AppendLifecycle e' k' ev t)
  then show ?thesis using next_of_append [OF act, of k e' k' ev t] by simp
qed (auto simp: next_of_def complete_command_def complete_route_recovery_def
      claim_route_transition_def complete_route_transition_def ack_lifecycle_def Let_def
      split: sum.splits option.splits)

text \<open>The events a run journals for a route continue its numbering without gaps.\<close>

lemma stamped_numbered:
  "store_ok st \<Longrightarrow> epoch_of st (ge_gateway_id e) = Some (ge_instance_id e) \<Longrightarrow> undisturbed e k st cs \<Longrightarrow>
     map (\<lambda>x. unat (ev_sequence x)) (stamped e k st cs) =
       [Suc (unat (next_of (ge_gateway_id e) k st)) ..<
        Suc (unat (next_of (ge_gateway_id e) k st) + length (stamped e k st cs))] \<and>
     (\<forall>x \<in> set (stamped e k st cs). event_of_key k x \<and> ev_gateway_epoch x = ge_instance_id e)"
proof (induction cs arbitrary: st)
  case (Cons c cs)
  let ?g = "ge_gateway_id e" let ?st = "snd (egress_call st c)"
  let ?new = "stamped_by e k c (fst (egress_call st c))" let ?rest = "stamped e k ?st cs"
  have step: "\<not> supersedes e c" "spares st (?g, k) c" "undisturbed e k ?st cs"
    using Cons.prems by simp_all
  note nx = next_of_step [OF Cons.prems(1,2) step(2)]
  have IH: "map (\<lambda>x. unat (ev_sequence x)) ?rest =
      [Suc (unat (next_of ?g k ?st)) ..< Suc (unat (next_of ?g k ?st) + length ?rest)] \<and>
    (\<forall>x \<in> set ?rest. event_of_key k x \<and> ev_gateway_epoch x = ge_instance_id e)"
    using Cons.IH [OF egress_call_ok [OF Cons.prems(1)] not_superseded_epoch [OF Cons.prems(2) step(1)]
        step(3)] .
  have "length ?new \<le> 1" by (rule stamped_by_length)
  then consider "?new = []" | x where "?new = [x]" by (cases ?new) auto
  then show ?case
  proof cases
    case 1
    with IH nx show ?thesis by (simp del: upt_Suc)
  next
    case (2 x)
    with IH nx show ?thesis by (simp add: upt_conv_Cons del: upt_Suc)
  qed
qed simp

end
