(* ===== verification/Egress_Worker.thy ===== *)
theory Egress_Worker
  imports Egress_Journal
begin

text \<open>
  The worker's end of the private egress protocol (\<open>PrivateEgressControlClient\<close> in
  \<open>src/private_egress.rs\<close>): the receipts by which it accepts each lifecycle event as new only once,
  and the handlers of the messages a gateway sends on the published and on the staged path. The
  identifiers of connections and the tenant of a connection belong to the external orchestrator and
  are arguments; what a handler then asks the orchestrator to do is its effect. Instants of the
  monotonic clock are integers in nanoseconds: \<open>now\<close> is the reading that decides which receipts
  have expired, \<open>stamp\<close> the reading stored with a terminal event.
\<close>

section \<open>Receipts\<close>

record LifecycleReceiptKey =
  lrk_source :: PrivateEgressSource
  lrk_target :: PrivateEgressTarget

record LifecycleReceipt =
  rc_gateway_epoch :: uuid
  rc_last_sequence :: u64
  rc_recent :: "(u64 \<times> uuid) list"
  rc_completed_at :: "time option"

type_synonym receipts = "(LifecycleReceiptKey \<times> LifecycleReceipt) list"

definition RECEIPT_RETENTION :: int where "RECEIPT_RETENTION = 120 * 1000000000"

definition receipt_current :: "time \<Rightarrow> LifecycleReceipt \<Rightarrow> bool" where
  "receipt_current now r \<longleftrightarrow>
     (case rc_completed_at r of None \<Rightarrow> True
      | Some completed \<Rightarrow> max 0 (now - completed) < RECEIPT_RETENTION)"

fun trim_recent :: "'a list \<Rightarrow> 'a list" where
  "trim_recent recent = (if length recent > 64 then trim_recent (drop 1 recent) else recent)"

definition saturating_succ :: "u64 \<Rightarrow> u64" where
  "saturating_succ q = (if q = - 1 then q else q + 1)"

definition receipt_key :: "PrivateEgressLifecycleEvent \<Rightarrow> LifecycleReceiptKey" where
  "receipt_key e = \<lparr>lrk_source = ev_source e, lrk_target = ev_target e\<rparr>"

definition accept_lifecycle ::
    "nat \<Rightarrow> receipts \<Rightarrow> time \<Rightarrow> time \<Rightarrow> PrivateEgressLifecycleEvent \<Rightarrow>
     (PrivateEgressError, bool) result \<times> receipts" where
  "accept_lifecycle capacity receipts now stamp event =
     (let rs = filter (\<lambda>(_, r). receipt_current now r) receipts;
          key = receipt_key event;
          at_capacity = length rs \<ge> capacity
      in (case map_of rs key of
            None \<Rightarrow>
              if ev_sequence event \<noteq> 1 \<or> at_capacity then (Inl InvalidResponse, rs)
              else (Inr True,
                    AList.update key
                      \<lparr>rc_gateway_epoch = ev_gateway_epoch event, rc_last_sequence = 1,
                       rc_recent = [(1, ev_event_id event)],
                       rc_completed_at = (if lifecycle_is_terminal event then Some stamp else None)\<rparr> rs)
          | Some r \<Rightarrow>
              if rc_gateway_epoch r \<noteq> ev_gateway_epoch event then (Inl DeadEpoch, rs)
              else if ev_sequence event = saturating_succ (rc_last_sequence r) then
                (Inr True,
                 AList.update key
                   (r\<lparr>rc_last_sequence := ev_sequence event,
                      rc_recent := trim_recent (rc_recent r @ [(ev_sequence event, ev_event_id event)]),
                      rc_completed_at :=
                        (if lifecycle_is_terminal event then Some stamp else rc_completed_at r)\<rparr>) rs)
              else if ev_sequence event \<le> rc_last_sequence r \<and>
                      list_ex (\<lambda>seen. seen = (ev_sequence event, ev_event_id event)) (rc_recent r)
              then (Inr False, rs)
              else (Inl InvalidResponse, rs)))"

section \<open>The handlers of gateway messages\<close>

record egress_json =
  response_from_slice :: "bytes \<Rightarrow> PrivateEgressResponse option"
  lifecycle_from_slice :: "bytes \<Rightarrow> PrivateEgressLifecycleEvent option"
  ack_to_vec :: "PrivateEgressLifecycleAck \<Rightarrow> bytes option"

record 'c PendingResponse =
  pr_source_connection :: 'c
  pr_source :: PrivateEgressSource

record 'c PrivateEgressControlClient =
  cl_worker :: WorkerLease
  cl_pending :: "(uuid \<times> 'c PendingResponse) list"
  cl_lifecycle_receipts :: receipts
  cl_lifecycle_receipt_capacity :: nat

text \<open>
  \<open>AckThenPublish ack event\<close> sends the acknowledgement and, once it is sent, publishes the event if
  there is one; if it cannot be sent the connection is ended.
\<close>

datatype ClientEffect =
  NoEffect
| Respond uuid PrivateEgressResponse
| AckThenPublish DataMessage "PrivateEgressLifecycleEvent option"
| EndConnection

definition event_ack ::
    "wire \<Rightarrow> egress_json \<Rightarrow> PrivateEgressLifecycleEvent \<Rightarrow> (PrivateEgressError, DataMessage) result" where
  "event_ack w js event = and_then (ack_from_event event) (ack_to_data_message w (ack_to_vec js))"

definition handle_data_message ::
    "wire \<Rightarrow> egress_json \<Rightarrow> ('c \<Rightarrow> rstr option) \<Rightarrow> 'c PrivateEgressControlClient \<Rightarrow> 'c \<Rightarrow> time \<Rightarrow> time \<Rightarrow>
     DataMessage \<Rightarrow> bool \<times> ClientEffect \<times> 'c PrivateEgressControlClient" where
  "handle_data_message w js tenant_of cl connection now stamp message =
     (if dm_label message = PRIVATE_EGRESS_RESPONSE_LABEL then
        (case response_from_data_message w (response_from_slice js) message of
           Inl _ \<Rightarrow> (True, NoEffect, cl)
         | Inr response \<Rightarrow>
             (case map_of (cl_pending cl) (resp_command_id response) of
                None \<Rightarrow> (True, NoEffect, cl)
              | Some pending \<Rightarrow>
                  if pr_source_connection pending = connection
                  then (True, Respond (resp_command_id response) response,
                        cl\<lparr>cl_pending := AList.delete (resp_command_id response) (cl_pending cl)\<rparr>)
                  else (True, NoEffect, cl)))
      else if dm_label message = PRIVATE_EGRESS_LIFECYCLE_LABEL then
        (case lifecycle_from_data_message w (lifecycle_from_slice js) message of
           Inl _ \<Rightarrow> (True, NoEffect, cl)
         | Inr event \<Rightarrow>
             if ev_worker event = cl_worker cl \<and>
                tenant_of connection = Some (tenant_str (src_tenant_id (ev_source event)))
             then
               (case accept_lifecycle (cl_lifecycle_receipt_capacity cl) (cl_lifecycle_receipts cl)
                       now stamp event of
                  (Inr is_new, rs) \<Rightarrow>
                    (case event_ack w js event of
                       Inr ack \<Rightarrow>
                         (True, AckThenPublish ack (if is_new then Some event else None),
                          cl\<lparr>cl_lifecycle_receipts := rs\<rparr>)
                     | Inl _ \<Rightarrow> (True, EndConnection, cl\<lparr>cl_lifecycle_receipts := rs\<rparr>))
                | (Inl _, rs) \<Rightarrow> (True, EndConnection, cl\<lparr>cl_lifecycle_receipts := rs\<rparr>))
             else (True, NoEffect, cl))
      else (False, NoEffect, cl))"

definition handle_staged_data_message ::
    "wire \<Rightarrow> egress_json \<Rightarrow> ('c \<Rightarrow> rstr option) \<Rightarrow> 'c PrivateEgressControlClient \<Rightarrow> 'c \<Rightarrow>
     PrivateEgressSource \<Rightarrow> time \<Rightarrow> time \<Rightarrow> DataMessage \<Rightarrow>
     (PrivateEgressError, ClientEffect) result \<times> 'c PrivateEgressControlClient" where
  "handle_staged_data_message w js tenant_of cl connection source now stamp message =
     (if dm_label message = PRIVATE_EGRESS_RESPONSE_LABEL then
        (case response_from_data_message w (response_from_slice js) message of
           Inl e \<Rightarrow> (Inl e, cl)
         | Inr response \<Rightarrow>
             (case map_of (cl_pending cl) (resp_command_id response) of
                None \<Rightarrow> (Inl ReplayConflict, cl)
              | Some pending \<Rightarrow>
                  if pr_source_connection pending = connection \<and> pr_source pending = source
                  then (Inr (Respond (resp_command_id response) response),
                        cl\<lparr>cl_pending := AList.delete (resp_command_id response) (cl_pending cl)\<rparr>)
                  else (Inl ReplayConflict, cl)))
      else if dm_label message = PRIVATE_EGRESS_LIFECYCLE_LABEL then
        (case lifecycle_from_data_message w (lifecycle_from_slice js) message of
           Inl e \<Rightarrow> (Inl e, cl)
         | Inr event \<Rightarrow>
             if ev_worker event \<noteq> cl_worker cl \<or> ev_source event \<noteq> source \<or>
                tenant_of connection \<noteq> Some (tenant_str (src_tenant_id source))
             then (Inl OwnershipMismatch, cl)
             else
               (case accept_lifecycle (cl_lifecycle_receipt_capacity cl) (cl_lifecycle_receipts cl)
                       now stamp event of
                  (Inl e, rs) \<Rightarrow> (Inl e, cl\<lparr>cl_lifecycle_receipts := rs\<rparr>)
                | (Inr is_new, rs) \<Rightarrow>
                    (case event_ack w js event of
                       Inl e \<Rightarrow> (Inl e, cl\<lparr>cl_lifecycle_receipts := rs\<rparr>)
                     | Inr ack \<Rightarrow>
                         (Inr (AckThenPublish ack (if is_new then Some event else None)),
                          cl\<lparr>cl_lifecycle_receipts := rs\<rparr>))))
      else (Inl InvalidResponse, cl))"

section \<open>Sequences of deliveries\<close>

text \<open>A delivery is an event with the two clock readings; \<open>accepted\<close> collects the events taken as new.\<close>

type_synonym lifecycle_delivery = "PrivateEgressLifecycleEvent \<times> time \<times> time"

fun accepted :: "nat \<Rightarrow> receipts \<Rightarrow> lifecycle_delivery list \<Rightarrow> PrivateEgressLifecycleEvent list" where
  "accepted cap rs [] = []"
| "accepted cap rs ((ev, now, stamp) # ds) =
     (let (res, rs') = accept_lifecycle cap rs now stamp ev
      in (if res = Inr True then [ev] else []) @ accepted cap rs' ds)"

fun receipts_after :: "nat \<Rightarrow> receipts \<Rightarrow> lifecycle_delivery list \<Rightarrow> receipts" where
  "receipts_after cap rs [] = rs"
| "receipts_after cap rs ((ev, now, stamp) # ds) =
     receipts_after cap (snd (accept_lifecycle cap rs now stamp ev)) ds"

declare trim_recent.simps [simp del]

section \<open>Exactly-once acceptance\<close>

text \<open>
  \<open>log_of K ep log\<close>: a numbered log of one route, as one gateway instance stamps it.
  \<open>received T K ep log n rs\<close>: the receipts of a worker that has taken the first \<open>n\<close> events of the log
  and none of whose terminal events is older than \<open>T\<close>.
\<close>

definition log_of :: "LifecycleReceiptKey \<Rightarrow> uuid \<Rightarrow> PrivateEgressLifecycleEvent list \<Rightarrow> bool" where
  "log_of K ep log \<longleftrightarrow>
     map (\<lambda>x. unat (ev_sequence x)) log = [1 ..< Suc (length log)] \<and> length log < 2 ^ 64 - 1 \<and>
     list_all (\<lambda>x. receipt_key x = K \<and> ev_gateway_epoch x = ep) log"

definition seen_entry :: "PrivateEgressLifecycleEvent \<Rightarrow> u64 \<times> uuid" where
  "seen_entry ev = (ev_sequence ev, ev_event_id ev)"

definition received ::
    "time \<Rightarrow> LifecycleReceiptKey \<Rightarrow> uuid \<Rightarrow> PrivateEgressLifecycleEvent list \<Rightarrow> nat \<Rightarrow> receipts \<Rightarrow> bool" where
  "received T K ep log n rs \<longleftrightarrow>
     keys_distinct rs \<and>
     (case map_of rs K of None \<Rightarrow> n = 0
      | Some r \<Rightarrow> rc_gateway_epoch r = ep \<and> unat (rc_last_sequence r) = n \<and> 0 < n \<and>
          rc_recent r = map seen_entry (drop (n - 64) (take n log)) \<and>
          (case rc_completed_at r of None \<Rightarrow> True | Some t \<Rightarrow> T \<le> t))"

definition timely :: "time \<Rightarrow> lifecycle_delivery \<Rightarrow> bool" where
  "timely T d \<longleftrightarrow>
     (case d of (ev, now, stamp) \<Rightarrow>
        now < T + RECEIPT_RETENTION \<and> (lifecycle_is_terminal ev \<longrightarrow> T \<le> stamp))"

lemma log_index:
  assumes "log_of K ep log" "ev \<in> set log"
  shows "0 < unat (ev_sequence ev)" "unat (ev_sequence ev) \<le> length log"
    "log ! (unat (ev_sequence ev) - 1) = ev" "receipt_key ev = K" "ev_gateway_epoch ev = ep"
proof -
  obtain i where i: "i < length log" "log ! i = ev" using assms(2) by (auto simp: in_set_conv_nth)
  have "unat (ev_sequence ev) = map (\<lambda>x. unat (ev_sequence x)) log ! i" using i by simp
  also have "\<dots> = Suc i" using assms(1) i(1) by (simp add: log_of_def del: upt_Suc)
  finally have q: "unat (ev_sequence ev) = Suc i" .
  show "0 < unat (ev_sequence ev)" "unat (ev_sequence ev) \<le> length log"
    "log ! (unat (ev_sequence ev) - 1) = ev" using q i by auto
  show "receipt_key ev = K" "ev_gateway_epoch ev = ep"
    using assms by (auto simp: log_of_def list_all_iff)
qed

lemma received_current:
  assumes "received T K ep log n rs" "now < T + RECEIPT_RETENTION"
  shows "received T K ep log n (filter (\<lambda>(_, r). receipt_current now r) rs)"
    "map_of (filter (\<lambda>(_, r). receipt_current now r) rs) K = map_of rs K"
  using assms
  by (auto simp: received_def map_of_retain receipt_current_def RECEIPT_RETENTION_def
      split: option.splits)

lemma saturating_succ_nat:
  assumes "unat q < 2 ^ 64 - 1"
  shows "unat (saturating_succ q) = Suc (unat q)"
proof -
  have "q \<noteq> - 1" using assms by (auto simp: unsigned_minus_1_eq_mask mask_eq_exp_minus_1)
  then show ?thesis
    using unatSuc [of q] by (simp add: saturating_succ_def eq_neg_iff_add_eq_0 add.commute)
qed

lemma trim_recent_eq: "trim_recent xs = drop (length xs - 64) xs"
proof (induction xs rule: trim_recent.induct)
  case (1 xs)
  show ?case
  proof (cases "length xs > 64")
    case True
    then have "trim_recent xs = drop (length (drop 1 xs) - 64) (drop 1 xs)"
      using 1 by (simp add: trim_recent.simps [of xs])
    also have "\<dots> = drop (length xs - 64) xs"
      unfolding drop_drop using True by (intro arg_cong2 [where f = drop]) simp_all
    finally show ?thesis .
  qed (simp add: trim_recent.simps [of xs])
qed

lemma recent_step:
  assumes "n < length log"
  shows "trim_recent (map seen_entry (drop (n - 64) (take n log)) @ [seen_entry (log ! n)]) =
    map seen_entry (drop (Suc n - 64) (take (Suc n) log))"
proof -
  have take: "take (Suc n) log = take n log @ [log ! n]" using assms by (rule take_Suc_conv_app_nth)
  have "map seen_entry (drop (n - 64) (take n log)) @ [seen_entry (log ! n)] =
      map seen_entry (drop (n - 64) (take (Suc n) log))"
    unfolding take using assms by simp
  moreover have "length (map seen_entry (drop (n - 64) (take (Suc n) log))) - 64 + (n - 64) = Suc n - 64"
    using assms by simp
  ultimately show ?thesis by (simp only: trim_recent_eq drop_map drop_drop)
qed

text \<open>What one delivery of the route does: the next event of the log is taken, nothing else is.\<close>

lemma accept_step:
  assumes log: "log_of K ep log" and rs: "received T K ep log n rs" and n: "n \<le> length log"
    and time: "timely T (ev, now, stamp)" and ev: "ev \<in> set log"
    and acc: "accept_lifecycle cap rs now stamp ev = (res, rs')"
  shows "if res = Inr True then n < length log \<and> ev = log ! n \<and> received T K ep log (Suc n) rs'
    else received T K ep log n rs'"
proof -
  let ?rs = "filter (\<lambda>(_, r). receipt_current now r) rs"
  note idx = log_index [OF log ev]
  have now: "now < T + RECEIPT_RETENTION" using time by (simp add: timely_def)
  note cur = received_current [OF rs now]
  have small: "n < 2 ^ 64 - 1" using n log by (simp add: log_of_def)
  have stamp: "lifecycle_is_terminal ev \<Longrightarrow> T \<le> stamp" using time by (simp add: timely_def)
  show ?thesis
  proof (cases "map_of rs K")
    case None
    then have n0: "n = 0" using rs by (simp add: received_def)
    show ?thesis
    proof (cases "ev_sequence ev = 1 \<and> length ?rs < cap")
      case True
      then have "ev = log ! n" "n < length log" using idx n0 by auto
      moreover have "[(1, ev_event_id ev)] = map seen_entry (drop (Suc n - 64) (take (Suc n) log))"
        using calculation True n0 by (simp add: take_Suc_conv_app_nth seen_entry_def)
      ultimately show ?thesis using True None n0 cur acc idx stamp
        by (auto simp: accept_lifecycle_def Let_def received_def)
    qed (use None cur acc idx in \<open>auto simp: accept_lifecycle_def Let_def\<close>)
  next
    case (Some r)
    then have r: "rc_gateway_epoch r = ep" "unat (rc_last_sequence r) = n"
      "case rc_completed_at r of None \<Rightarrow> True | Some t \<Rightarrow> T \<le> t"
      using rs by (auto simp: received_def)
    have suc: "unat (saturating_succ (rc_last_sequence r)) = Suc n"
      using saturating_succ_nat [of "rc_last_sequence r"] r(2) small by simp
    show ?thesis
    proof (cases "ev_sequence ev = saturating_succ (rc_last_sequence r)")
      case True
      then have q: "unat (ev_sequence ev) = Suc n" using suc by simp
      then have ev_n: "ev = log ! n" "n < length log" using idx by auto
      have recent: "trim_recent (rc_recent r @ [(ev_sequence ev, ev_event_id ev)]) =
          map seen_entry (drop (Suc n - 64) (take (Suc n) log))"
        using recent_step [OF ev_n(2)] rs Some ev_n(1) by (simp add: received_def seen_entry_def)
      have "rc_gateway_epoch r = ev_gateway_epoch ev" "map_of ?rs (receipt_key ev) = Some r"
        using r(1) idx(4,5) cur(2) Some by simp_all
      then have out: "res = Inr True" "rs' = AList.update K (r\<lparr>rc_last_sequence := ev_sequence ev,
          rc_recent := trim_recent (rc_recent r @ [(ev_sequence ev, ev_event_id ev)]),
          rc_completed_at := (if lifecycle_is_terminal ev then Some stamp else rc_completed_at r)\<rparr>) ?rs"
        using acc True idx(4) by (simp_all add: accept_lifecycle_def Let_def)
      have "keys_distinct ?rs" using cur(1) by (simp add: received_def)
      then show ?thesis
        unfolding out recent using ev_n q r stamp by (simp add: received_def)
    qed (use Some cur acc idx r in \<open>auto simp: accept_lifecycle_def Let_def split: if_splits\<close>)
  qed
qed

lemma accept_other:
  assumes "received T K ep log n rs" "now < T + RECEIPT_RETENTION" "receipt_key ev \<noteq> K"
    "accept_lifecycle cap rs now stamp ev = (res, rs')"
  shows "received T K ep log n rs'"
proof -
  let ?rs = "filter (\<lambda>(_, r). receipt_current now r) rs"
  have cur: "received T K ep log n ?rs" by (rule received_current(1) [OF assms(1,2)])
  then have upd: "received T K ep log n (AList.update (receipt_key ev) x ?rs)" for x
    using assms(3) by (auto simp: received_def)
  have "rs' = ?rs \<or> (\<exists>x. rs' = AList.update (receipt_key ev) x ?rs)"
    using assms(4) by (auto simp: accept_lifecycle_def Let_def split: option.splits if_splits)
  then show ?thesis using cur upd by auto
qed

lemma accepted_prefix:
  assumes "log_of K ep log"
  shows "received T K ep log n rs \<Longrightarrow> n \<le> length log \<Longrightarrow> list_all (timely T) ds \<Longrightarrow>
    \<forall>(ev, _) \<in> set ds. receipt_key ev = K \<longrightarrow> ev \<in> set log \<Longrightarrow>
    \<exists>m. n \<le> m \<and> m \<le> length log \<and> received T K ep log m (receipts_after cap rs ds) \<and>
      filter (\<lambda>ev. receipt_key ev = K) (accepted cap rs ds) = drop n (take m log)"
proof (induction ds arbitrary: n rs)
  case (Cons d ds)
  obtain ev now stamp where d: "d = (ev, now, stamp)" by (cases d)
  obtain res rs' where acc: "accept_lifecycle cap rs now stamp ev = (res, rs')"
    by (cases "accept_lifecycle cap rs now stamp ev")
  have time: "timely T (ev, now, stamp)" "list_all (timely T) ds" using Cons.prems d by simp_all
  have rest: "\<forall>(ev, _) \<in> set ds. receipt_key ev = K \<longrightarrow> ev \<in> set log" using Cons.prems by simp
  show ?case
  proof (cases "receipt_key ev = K \<and> res = Inr True")
    case True
    then have "ev \<in> set log" using Cons.prems d by simp
    from accept_step [OF assms Cons.prems(1,2) time(1) this acc] True
    have new: "n < length log" "ev = log ! n" "received T K ep log (Suc n) rs'" by simp_all
    from Cons.IH [OF new(3) _ time(2) rest] new(1)
    obtain m where m: "Suc n \<le> m" "m \<le> length log" "received T K ep log m (receipts_after cap rs' ds)"
      "filter (\<lambda>ev. receipt_key ev = K) (accepted cap rs' ds) = drop (Suc n) (take m log)" by auto
    have "drop n (take m log) = log ! n # drop (Suc n) (take m log)"
      using m(1,2) by (subst Cons_nth_drop_Suc [symmetric]) auto
    with m True d acc new(2) show ?thesis by (intro exI [of _ m]) simp
  next
    case False
    have "received T K ep log n rs'"
    proof (cases "receipt_key ev = K")
      case True
      then have "ev \<in> set log" using Cons.prems d by simp
      from accept_step [OF assms Cons.prems(1,2) time(1) this acc] True False show ?thesis by simp
    next
      case other: False
      show ?thesis by (rule accept_other [OF Cons.prems(1) _ other acc]) (use time(1) in \<open>simp add: timely_def\<close>)
    qed
    from Cons.IH [OF this Cons.prems(2) time(2) rest] obtain m where m: "n \<le> m" "m \<le> length log"
      "received T K ep log m (receipts_after cap rs' ds)"
      "filter (\<lambda>ev. receipt_key ev = K) (accepted cap rs' ds) = drop n (take m log)" by auto
    with False d acc show ?thesis by (intro exI [of _ m]) auto
  qed
qed auto

section \<open>Progress\<close>

lemma accept_next:
  assumes log: "log_of K ep log" and rs: "received T K ep log n rs" and n: "n < length log"
    and now: "now < T + RECEIPT_RETENTION" and room: "n = 0 \<longrightarrow> length rs < cap"
  shows "fst (accept_lifecycle cap rs now stamp (log ! n)) = Inr True"
proof -
  let ?ev = "log ! n" let ?rs = "filter (\<lambda>(_, r). receipt_current now r) rs"
  have ev: "?ev \<in> set log" using n by simp
  note idx = log_index [OF log ev]
  have "map (\<lambda>x. unat (ev_sequence x)) log ! n = Suc n"
    using log n by (simp add: log_of_def del: upt_Suc)
  then have q: "unat (ev_sequence ?ev) = Suc n" using n by simp
  have small: "n < 2 ^ 64 - 1" using n log by (simp add: log_of_def)
  note cur = received_current [OF rs now]
  have len: "length ?rs \<le> length rs" by simp
  show ?thesis
  proof (cases "map_of rs K")
    case None
    then have "n = 0" using rs by (simp add: received_def)
    then have "ev_sequence ?ev = 1" "length ?rs < cap"
      using q room len by (simp add: word_unat_eq_iff) (use \<open>n = 0\<close> room len in linarith)
    with None cur idx show ?thesis by (simp add: accept_lifecycle_def Let_def)
  next
    case (Some r)
    then have r: "rc_gateway_epoch r = ep" "unat (rc_last_sequence r) = n"
      using rs by (auto simp: received_def)
    have "unat (saturating_succ (rc_last_sequence r)) = unat (ev_sequence ?ev)"
      using saturating_succ_nat [of "rc_last_sequence r"] r(2) small q by simp
    then have "ev_sequence ?ev = saturating_succ (rc_last_sequence r)" by (simp add: word_unat_eq_iff)
    with Some cur idx r show ?thesis by (simp add: accept_lifecycle_def Let_def)
  qed
qed

lemma accepted_all:
  assumes "log_of K ep log"
  shows "received T K ep log n rs \<Longrightarrow> list_all (timely T) ds \<Longrightarrow> map fst ds = drop n log \<Longrightarrow>
    n = 0 \<longrightarrow> length rs < cap \<Longrightarrow> accepted cap rs ds = drop n log"
proof (induction ds arbitrary: n rs)
  case (Cons d ds)
  obtain ev now stamp where d: "d = (ev, now, stamp)" by (cases d)
  obtain res rs' where acc: "accept_lifecycle cap rs now stamp ev = (res, rs')"
    by (cases "accept_lifecycle cap rs now stamp ev")
  have time: "timely T (ev, now, stamp)" "list_all (timely T) ds" using Cons.prems d by simp_all
  have n: "n < length log" "ev = log ! n" "map fst ds = drop (Suc n) log"
    using Cons.prems(3) d
    by (metis drop_eq_Nil2 leI list.discI list.simps(9),
        metis Cons_nth_drop_Suc drop_eq_Nil2 fst_conv leI list.discI list.inject list.simps(9),
        metis Cons_nth_drop_Suc drop_eq_Nil2 leI list.discI list.inject list.simps(9))
  have now: "now < T + RECEIPT_RETENTION" using time by (simp add: timely_def)
  have res: "res = Inr True"
    using accept_next [OF assms Cons.prems(1) n(1) now Cons.prems(4), of stamp] acc n(2) by simp
  have "ev \<in> set log" using n by simp
  from accept_step [OF assms Cons.prems(1) _ time(1) this acc] n(1) res
  have "received T K ep log (Suc n) rs'" by simp
  from Cons.IH [OF this time(2) n(3)] have "accepted cap rs' ds = drop (Suc n) log" by simp
  with d acc res n show ?case by (simp add: Cons_nth_drop_Suc)
qed simp

lemma unacked_ids_distinct:
  assumes "store_ok st"
  shows "distinct (map ev_event_id (unacked_of e k st))"
proof -
  have "x = y" if xy: "x \<in> set (unacked_of e k st)" "y \<in> set (unacked_of e k st)" "ev_event_id x = ev_event_id y"
    for x y
  proof -
    obtain l where "journal_of st (ge_gateway_id e, ev_event_id x) = Some l" "lr_event l = x"
      using unacked_events(5) [OF assms xy(1)] by blast
    moreover obtain l' where "journal_of st (ge_gateway_id e, ev_event_id y) = Some l'" "lr_event l' = y"
      using unacked_events(5) [OF assms xy(2)] by blast
    ultimately show ?thesis using xy(3) by auto
  qed
  moreover have "distinct (unacked_of e k st)"
    using unacked_sorted [OF assms, of e k] by (simp add: strict_sorted_iff distinct_map)
  ultimately show ?thesis by (auto simp: distinct_map inj_on_def)
qed

definition ack_call ::
    "PrivateEgressGatewayEpoch \<Rightarrow> PrivateEgressRouteKey \<Rightarrow> PrivateEgressLifecycleEvent \<Rightarrow> EgressCall" where
  "ack_call e k ev = AckLifecycle e k (ev_event_id ev) (ev_sequence ev)"

lemma ack_call_done:
  assumes "store_ok st" "epoch_of st (ge_gateway_id e) = Some (ge_instance_id e)"
    "ev \<in> set (unacked_of e k st)"
  shows "fst (egress_call st (ack_call e k ev)) = Done (Inr ())"
proof -
  obtain l where "journal_of st (ge_gateway_id e, ev_event_id ev) = Some l" "lr_event l = ev" "lr_key l = k"
    "lr_epoch l = ge_instance_id e"
    using unacked_events(5) [OF assms(1,3)] by blast
  then show ?thesis
    using assms(2) by (simp add: ack_call_def ack_lifecycle_def ensure_epoch_def)
qed

lemma acks_drain:
  "store_ok st \<Longrightarrow> epoch_of st (ge_gateway_id e) = Some (ge_instance_id e) \<Longrightarrow> unacked_of e k st = evs \<Longrightarrow>
     egress_replies st (map (ack_call e k) evs) = replicate (length evs) (Done (Inr ())) \<and>
     unacked_of e k (egress_run st (map (ack_call e k) evs)) = []"
proof (induction evs arbitrary: st)
  case (Cons ev evs)
  let ?st = "snd (egress_call st (ack_call e k ev))"
  have ok_reply: "fst (egress_call st (ack_call e k ev)) = Done (Inr ())"
    using Cons.prems by (intro ack_call_done) simp_all
  have "unacked_of e k ?st = journal_spec e k (ack_call e k ev) (Done (Inr ())) (ev # evs)"
    using unacked_step [OF Cons.prems(1,2), of k "ack_call e k ev"] ok_reply Cons.prems(3)
    by (simp add: spares_def ack_call_def)
  also have "\<dots> = evs"
    using unacked_ids_distinct [OF Cons.prems(1), of e k] Cons.prems(3)
    by (auto simp: ack_call_def filter_id_conv image_iff)
  finally have rest: "unacked_of e k ?st = evs" .
  have "epoch_of ?st (ge_gateway_id e) = Some (ge_instance_id e)"
    using Cons.prems(2) by (intro not_superseded_epoch) (simp_all add: ack_call_def)
  from Cons.IH [OF egress_call_ok [OF Cons.prems(1)] this rest] ok_reply show ?case by simp
qed simp

end
