(* ===== verification/Egress_Service.thy ===== *)
theory Egress_Service
  imports Egress_Worker
begin

text \<open>
  The command service of a private egress gateway (\<open>PrivateEgressCommandService\<close> in
  \<open>src/private_egress.rs\<close>) over the standalone state store: execution of commands with replay
  protection, the process-local route cells with their capacity permits, lifecycle events, the end of
  a source, and draining.

  Each operation is modelled as a run that no other operation of the service interleaves; the calls
  it makes on the shared store are those of \<open>Egress_Store\<close>, whose properties hold for every
  interleaving. The gateway's handler, which is installed by the process, is an argument that gives
  the outcome of each call to it; the commands and events handed to it are recorded in
  \<open>sv_invoked\<close> and \<open>sv_observed\<close>. A route cell (an \<open>Arc\<close> of a mutex) is a number, its identity,
  with its content. A semaphore is the number of its free permits: a permit is taken by
  \<open>try_acquire_owned\<close> and returns when the record or the local variable that owns it is dropped.
  The clock readings of an operation are arguments.
\<close>

section \<open>Configuration and state\<close>

record PrivateEgressServiceConfig =
  cfg_max_active_routes :: nat
  cfg_max_replay_entries :: nat
  cfg_replay_ttl :: duration
  cfg_operation_timeout :: duration

definition service_config_default :: PrivateEgressServiceConfig where
  "service_config_default =
     \<lparr>cfg_max_active_routes = 2000, cfg_max_replay_entries = 8192,
      cfg_replay_ttl = 120 * 1000000000, cfg_operation_timeout = 10 * 1000000000\<rparr>"

definition service_config_validate ::
    "PrivateEgressServiceConfig \<Rightarrow> (PrivateEgressError, unit) result" where
  "service_config_validate cfg =
     (if cfg_max_active_routes cfg = 0 \<or> cfg_max_replay_entries cfg = 0 \<or>
         cfg_replay_ttl cfg < MAX_COMMAND_LIFETIME \<or> cfg_operation_timeout cfg = 0 \<or>
         cfg_operation_timeout cfg > 30 * 1000000000
      then Inl InvalidCommand else Inr ())"

record RouteRecord =
  sr_state :: PrivateEgressLifecycleState
  sr_permit :: bool

record ReplayRecord =
  rp_digest :: "256 word"
  rp_created_at :: time
  rp_response :: "PrivateEgressResponse option"

record ReplayState =
  rs_entries :: "(uuid \<times> ReplayRecord) list"
  rs_completed :: "uuid list"

record RouteTombstone =
  ts_key :: PrivateEgressRouteKey
  ts_cell :: nat
  ts_completed_at :: time

type_synonym route_cell = "nat \<times> RouteRecord option"

record PrivateEgressCommandService =
  sv_config :: PrivateEgressServiceConfig
  sv_epoch :: PrivateEgressGatewayEpoch
  sv_state_store :: store
  sv_capacity :: nat
  sv_routes :: "(PrivateEgressRouteKey \<times> route_cell) list"
  sv_terminal_routes :: "RouteTombstone list"
  sv_replay :: ReplayState
  sv_draining :: bool
  sv_next_cell :: nat
  sv_invoked :: "PrivateEgressCommand list"
  sv_observed :: "PrivateEgressLifecycleEvent list"

datatype HandlerOutcome = Finished "rstr option" | Refused PrivateEgressError | TimedOut

type_synonym handler =
  "PrivateEgressRouteAuthority \<Rightarrow> PrivateEgressCommand \<Rightarrow> HandlerOutcome"

text \<open>
  The readings of the clocks in one operation: of the monotonic clock when the terminal routes and
  the replay entries are swept, when a replay entry is created and when a terminal route is
  retained; of the system clock when a transition and when a command is completed.
\<close>

record clock_readings =
  ck_sweep :: time
  ck_replay :: time
  ck_created :: time
  ck_retained :: time
  ck_transition :: millis
  ck_completed :: millis

definition service_build ::
    "PrivateEgressServiceConfig \<Rightarrow> PrivateEgressGatewayEpoch \<Rightarrow> store \<Rightarrow> PrivateEgressCommandService" where
  "service_build config epoch state_store =
     \<lparr>sv_config = config, sv_epoch = epoch, sv_state_store = state_store,
      sv_capacity = cfg_max_active_routes config, sv_routes = [], sv_terminal_routes = [],
      sv_replay = \<lparr>rs_entries = [], rs_completed = []\<rparr>, sv_draining = False, sv_next_cell = 0,
      sv_invoked = [], sv_observed = []\<rparr>"

definition service_new ::
    "uuid \<Rightarrow> millis \<Rightarrow> PrivateEgressServiceConfig \<Rightarrow> (PrivateEgressError, PrivateEgressCommandService) result" where
  "service_new new_v4 unix_time config =
     and_then (service_config_validate config) (\<lambda>_.
       and_then (MemoryPrivateEgressStateStore_new (cfg_max_replay_entries config) (cfg_replay_ttl config))
         (\<lambda>memory.
           Inr (service_build config (epoch_standalone new_v4)
                  (snd (activate memory (epoch_standalone new_v4) unix_time)))))"

text \<open>
  The loop over the recovered routes: \<open>recover\<close> tells whether the handler acknowledged the route in
  time. The store keeps what was done before a failure.
\<close>

fun recover_routes ::
    "(PrivateEgressRouteAuthority \<Rightarrow> PrivateEgressTarget \<Rightarrow> uuid \<Rightarrow> bool) \<Rightarrow> PrivateEgressGatewayEpoch \<Rightarrow>
     store \<Rightarrow> PrivateEgressRecoveredRoute list \<Rightarrow> unit reply" where
  "recover_routes recover epoch st [] = (Inr (), st)"
| "recover_routes recover epoch st (r # rs) =
     (if \<not> recover (key_authority (rec_key r)) (rk_target (rec_key r)) (rec_dead_epoch r)
      then (Inl DeadEpochRecoveryFailed, st)
      else
        (case complete_route_recovery st epoch (rec_key r) of
           (Inl _, st') \<Rightarrow> (Inl DeadEpochRecoveryFailed, st')
         | (Inr _, st') \<Rightarrow> recover_routes recover epoch st' rs))"

definition service_new_with_state_store ::
    "(PrivateEgressRouteAuthority \<Rightarrow> PrivateEgressTarget \<Rightarrow> uuid \<Rightarrow> bool) \<Rightarrow> millis \<Rightarrow>
     PrivateEgressServiceConfig \<Rightarrow> PrivateEgressGatewayEpoch \<Rightarrow> store \<Rightarrow>
     (PrivateEgressError, PrivateEgressCommandService) result \<times> store" where
  "service_new_with_state_store recover unix_time config epoch st =
     (case service_config_validate config of
        Inl e \<Rightarrow> (Inl e, st)
      | Inr _ \<Rightarrow>
          (case begin_epoch st epoch unix_time of
             (Inl e, st1) \<Rightarrow> (Inl e, st1)
           | (Inr recovered, st1) \<Rightarrow>
               (case recover_routes recover epoch st1 recovered of
                  (Inl e, st2) \<Rightarrow> (Inl e, st2)
                | (Inr _, st2) \<Rightarrow> (Inr (service_build config epoch st2), st2))))"

definition service_begin_drain :: "PrivateEgressCommandService \<Rightarrow> PrivateEgressCommandService" where
  "service_begin_drain sv = sv\<lparr>sv_draining := True\<rparr>"

definition record_active :: "RouteRecord \<Rightarrow> bool" where
  "record_active r \<longleftrightarrow>
     sr_state r = Prepared \<or> sr_state r = PrivateEgressLifecycleState.Active"

definition active_routes :: "PrivateEgressCommandService \<Rightarrow> nat" where
  "active_routes sv =
     length (filter (\<lambda>(_, (_, cell)). case cell of None \<Rightarrow> False | Some r \<Rightarrow> record_active r) (sv_routes sv))"

section \<open>Retention of terminal routes and replay entries\<close>

fun sweep_terminal ::
    "time \<Rightarrow> duration \<Rightarrow> (PrivateEgressRouteKey \<times> route_cell) list \<Rightarrow> RouteTombstone list \<Rightarrow>
     (PrivateEgressRouteKey \<times> route_cell) list \<times> RouteTombstone list" where
  "sweep_terminal now ttl routes [] = (routes, [])"
| "sweep_terminal now ttl routes (r # terminal) =
     (if max 0 (now - ts_completed_at r) \<ge> int ttl
      then
        sweep_terminal now ttl
          (case map_of routes (ts_key r) of
             None \<Rightarrow> routes
           | Some (cell, _) \<Rightarrow> if cell = ts_cell r then AList.delete (ts_key r) routes else routes)
          terminal
      else (routes, r # terminal))"

definition sweep_terminal_routes ::
    "time \<Rightarrow> PrivateEgressCommandService \<Rightarrow> PrivateEgressCommandService" where
  "sweep_terminal_routes now sv =
     (let (routes, terminal) =
            sweep_terminal now (cfg_replay_ttl (sv_config sv)) (sv_routes sv) (sv_terminal_routes sv)
      in sv\<lparr>sv_routes := routes, sv_terminal_routes := terminal\<rparr>)"

definition retain_terminal_route ::
    "time \<Rightarrow> PrivateEgressRouteKey \<Rightarrow> nat \<Rightarrow> PrivateEgressCommandService \<Rightarrow> PrivateEgressCommandService" where
  "retain_terminal_route now key cell sv =
     sweep_terminal_routes now
       (sv\<lparr>sv_terminal_routes :=
             sv_terminal_routes sv @ [\<lparr>ts_key = key, ts_cell = cell, ts_completed_at = now\<rparr>]\<rparr>)"

function sweep_replay :: "time \<Rightarrow> duration \<Rightarrow> ReplayState \<Rightarrow> ReplayState" where
  "sweep_replay now ttl s =
     (case rs_completed s of
        [] \<Rightarrow> s
      | command_id # completed \<Rightarrow>
          let expired =
            (case map_of (rs_entries s) command_id of
               None \<Rightarrow> True
             | Some record \<Rightarrow>
                 rp_response record \<noteq> None \<and> max 0 (now - rp_created_at record) \<ge> int ttl)
          in if \<not> expired then s
             else sweep_replay now ttl
                    \<lparr>rs_entries = AList.delete command_id (rs_entries s), rs_completed = completed\<rparr>)"
  by pat_completeness auto
termination by (relation "measure (\<lambda>(_, _, s). length (rs_completed s))") auto

declare sweep_replay.simps [simp del]

section \<open>Executing one command\<close>

definition set_cell ::
    "PrivateEgressRouteKey \<Rightarrow> nat \<Rightarrow> RouteRecord option \<Rightarrow> PrivateEgressCommandService \<Rightarrow>
     PrivateEgressCommandService" where
  "set_cell key cell content sv = sv\<lparr>sv_routes := AList.update key (cell, content) (sv_routes sv)\<rparr>"

definition cell_content ::
    "PrivateEgressCommandService \<Rightarrow> PrivateEgressRouteKey \<Rightarrow> nat \<Rightarrow> RouteRecord option" where
  "cell_content sv key cell =
     (case map_of (sv_routes sv) key of
        None \<Rightarrow> None | Some (c, content) \<Rightarrow> if c = cell then content else None)"

definition release_permit :: "bool \<Rightarrow> PrivateEgressCommandService \<Rightarrow> PrivateEgressCommandService" where
  "release_permit held sv = (if held then sv\<lparr>sv_capacity := sv_capacity sv + 1\<rparr> else sv)"

text \<open>
  \<open>remove_empty_route_cell\<close>: with no other operation in between, the map and the caller are the only
  two owners of the cell and its lock is free.
\<close>

definition remove_empty_route_cell ::
    "PrivateEgressRouteKey \<Rightarrow> nat \<Rightarrow> PrivateEgressCommandService \<Rightarrow> PrivateEgressCommandService" where
  "remove_empty_route_cell key cell sv =
     (case map_of (sv_routes sv) key of
        None \<Rightarrow> sv
      | Some (c, content) \<Rightarrow>
          if c = cell \<and> content = None then sv\<lparr>sv_routes := AList.delete key (sv_routes sv)\<rparr> else sv)"

definition is_prepare :: "PrivateEgressOperation \<Rightarrow> bool" where
  "is_prepare operation \<longleftrightarrow> (case operation of Prepare _ _ _ _ _ \<Rightarrow> True | _ \<Rightarrow> False)"

definition expected_state ::
    "PrivateEgressOperation \<Rightarrow> RouteRecord option \<Rightarrow>
     (PrivateEgressError, PrivateEgressLifecycleState option) result" where
  "expected_state operation content =
     (let state = map_option sr_state content
      in case operation of
           Prepare _ _ _ _ _ \<Rightarrow> if content = None then Inr None else Inl InvalidTransition
         | Activate \<Rightarrow>
             if state = Some Prepared then Inr (Some PrivateEgressLifecycleState.Active)
             else Inl InvalidTransition
         | Abort \<Rightarrow>
             if state = Some Prepared then Inr (Some PrivateEgressLifecycleState.Ended)
             else Inl InvalidTransition
         | End _ \<Rightarrow>
             if state = Some Prepared \<or> state = Some PrivateEgressLifecycleState.Active
             then Inr (Some PrivateEgressLifecycleState.Ended) else Inl InvalidTransition
         | Dtmf _ _ \<Rightarrow>
             if state = Some PrivateEgressLifecycleState.Active
             then Inr (Some PrivateEgressLifecycleState.Active) else Inl InvalidTransition
         | PrivateEgressOperation.DataMessage _ \<Rightarrow>
             if state = Some PrivateEgressLifecycleState.Active
             then Inr (Some PrivateEgressLifecycleState.Active) else Inl InvalidTransition)"

definition end_command ::
    "uuid \<Rightarrow> millis \<Rightarrow> WorkerLease \<Rightarrow> PrivateEgressSource \<Rightarrow> PrivateEgressTarget \<Rightarrow>
     PrivateEgressEndReason \<Rightarrow> PrivateEgressCommand" where
  "end_command new_v4 now worker source target reason =
     \<lparr>cmd_version = PROTOCOL_VERSION, cmd_command_id = new_v4, cmd_issued_at_ms = now,
      cmd_expires_at_ms = sat_i64 (now + 5000), cmd_worker = worker, cmd_source = source,
      cmd_target = target, cmd_operation = End reason\<rparr>"

text \<open>The tail of \<open>execute_once\<close>: the local record follows the completed durable transition.\<close>

definition finish_transition ::
    "PrivateEgressCommand \<Rightarrow> PrivateEgressRouteKey \<Rightarrow> nat \<Rightarrow> PrivateEgressLifecycleState option \<Rightarrow>
     PrivateEgressLifecycleState option \<Rightarrow> rstr option \<Rightarrow> time \<Rightarrow> PrivateEgressCommandService \<Rightarrow>
     (PrivateEgressError, PrivateEgressResponse) result \<times> PrivateEgressCommandService" where
  "finish_transition command key cell durable_expected expected external_reference now sv =
     (let preparing = is_prepare (cmd_operation command);
          content = cell_content sv key cell;
          matches = (if preparing then content = None
                     else map_option sr_state content = durable_expected)
      in if \<not> matches
         then (Inl StateUnavailable, service_begin_drain (release_permit preparing sv))
         else
           let (state, sv1) =
             (case cmd_operation command of
                Prepare _ _ _ _ _ \<Rightarrow>
                  (Prepared, set_cell key cell (Some \<lparr>sr_state = Prepared, sr_permit = True\<rparr>) sv)
              | Activate \<Rightarrow>
                  (PrivateEgressLifecycleState.Active,
                   set_cell key cell
                     (map_option (\<lambda>r. r\<lparr>sr_state := PrivateEgressLifecycleState.Active\<rparr>) content) sv)
              | Dtmf _ _ \<Rightarrow> (the expected, sv)
              | PrivateEgressOperation.DataMessage _ \<Rightarrow> (the expected, sv)
              | _ \<Rightarrow>
                  (PrivateEgressLifecycleState.Ended,
                   release_permit (case content of None \<Rightarrow> False | Some r \<Rightarrow> sr_permit r)
                     (set_cell key cell
                        (map_option (\<lambda>r. r\<lparr>sr_state := PrivateEgressLifecycleState.Ended,
                                           sr_permit := False\<rparr>) content) sv)));
               sv2 = (if state = PrivateEgressLifecycleState.Ended
                      then retain_terminal_route now key cell sv1 else sv1)
           in (Inr \<lparr>resp_version = PROTOCOL_VERSION, resp_command_id = cmd_command_id command,
                    resp_accepted = True, resp_replayed = False, resp_state = Some state,
                    resp_failure_code = None, resp_external_reference = external_reference\<rparr>, sv2))"

definition set_store :: "store \<Rightarrow> PrivateEgressCommandService \<Rightarrow> PrivateEgressCommandService" where
  "set_store st sv = sv\<lparr>sv_state_store := st\<rparr>"

text \<open>
  The middle of \<open>execute_once\<close>: the transition is claimed and, for a Prepare, the permit is held;
  the handler runs, and the transition is completed or aborted.
\<close>

definition run_handler ::
    "handler \<Rightarrow> uuid \<Rightarrow> clock_readings \<Rightarrow> PrivateEgressRouteAuthority \<Rightarrow> PrivateEgressCommand \<Rightarrow>
     PrivateEgressRouteKey \<Rightarrow> nat \<Rightarrow> PrivateEgressLifecycleState option \<Rightarrow>
     PrivateEgressLifecycleState option \<Rightarrow> PrivateEgressCommandService \<Rightarrow>
     (PrivateEgressError, PrivateEgressResponse) result \<times> PrivateEgressCommandService" where
  "run_handler handler new_v4 ck authority command key cell durable_expected expected sv0 =
     (let preparing = is_prepare (cmd_operation command);
          next_state = (case expected of None \<Rightarrow> Prepared | Some s \<Rightarrow> s);
          sv = sv0\<lparr>sv_invoked := sv_invoked sv0 @ [command]\<rparr>;
          failed = (\<lambda>error.
            (case abort_route_transition (sv_state_store sv) (sv_epoch sv) key (cmd_command_id command) of
               (Inl _, st) \<Rightarrow>
                 (Inl StateUnavailable, service_begin_drain (release_permit preparing (set_store st sv)))
             | (Inr _, st) \<Rightarrow>
                 (let sv1 = release_permit preparing (set_store st sv)
                  in (Inl error, if preparing then remove_empty_route_cell key cell sv1 else sv1))))
      in case handler authority command of
           Refused error \<Rightarrow> failed error
         | TimedOut \<Rightarrow> failed PrivateEgressError.Timeout
         | Finished external_reference \<Rightarrow>
             (case complete_route_transition (sv_state_store sv) (sv_epoch sv) key
                     (cmd_command_id command) next_state (ck_transition ck) of
                (Inl error, st) \<Rightarrow>
                  (let cleanup = end_command new_v4 (ck_transition ck) (cmd_worker command)
                         (cmd_source command) (cmd_target command) PrivateEgressEndReason.Failed;
                       sv1 = service_begin_drain (release_permit preparing (set_store st sv));
                       sv2 = sv1\<lparr>sv_invoked := sv_invoked sv1 @ [cleanup]\<rparr>
                   in (Inl error, if preparing then remove_empty_route_cell key cell sv2 else sv2))
              | (Inr _, st) \<Rightarrow>
                  finish_transition command key cell durable_expected expected external_reference
                    (ck_retained ck) (set_store st sv)))"

definition execute_once ::
    "handler \<Rightarrow> uuid \<Rightarrow> clock_readings \<Rightarrow> PrivateEgressRouteAuthority \<Rightarrow> PrivateEgressCommand \<Rightarrow>
     PrivateEgressCommandService \<Rightarrow>
     (PrivateEgressError, PrivateEgressResponse) result \<times> PrivateEgressCommandService" where
  "execute_once handler new_v4 ck authority command sv =
     (let preparing = is_prepare (cmd_operation command)
      in if sv_draining sv \<and> preparing then (Inl Draining, sv)
         else
           (case assert_epoch (sv_state_store sv) (sv_epoch sv) of
              (Inl e, _) \<Rightarrow> (Inl e, sv)
            | (Inr _, _) \<Rightarrow>
                let key = PrivateEgressRouteKey_new (cmd_worker command) (cmd_source command) (cmd_target command);
                    entry =
                      (case map_of (sv_routes sv) key of
                         Some (cell, _) \<Rightarrow> Some (cell, sv)
                       | None \<Rightarrow>
                           if preparing
                           then Some (sv_next_cell sv,
                                      (set_cell key (sv_next_cell sv) None sv)
                                        \<lparr>sv_next_cell := sv_next_cell sv + 1\<rparr>)
                           else None)
                in (case entry of
                      None \<Rightarrow> (Inl InvalidTransition, sv)
                    | Some (cell, sv1) \<Rightarrow>
                        (case expected_state (cmd_operation command) (cell_content sv1 key cell) of
                           Inl e \<Rightarrow> (Inl e, sv1)
                         | Inr expected \<Rightarrow>
                             let durable_expected = map_option sr_state (cell_content sv1 key cell);
                                 next_state = (case expected of None \<Rightarrow> Prepared | Some s \<Rightarrow> s)
                             in (case claim_route_transition (sv_state_store sv1) (sv_epoch sv1) key
                                        (cmd_command_id command) durable_expected next_state of
                                   (Inl e, st) \<Rightarrow>
                                     (Inl e, if preparing
                                             then remove_empty_route_cell key cell (set_store st sv1)
                                             else set_store st sv1)
                                 | (Inr _, st) \<Rightarrow>
                                     let sv2 = set_store st sv1
                                     in if preparing \<and> sv_capacity sv2 = 0
                                        then
                                          let (_, st3) = abort_route_transition (sv_state_store sv2)
                                                (sv_epoch sv2) key (cmd_command_id command)
                                          in (Inl CapacityExceeded,
                                              remove_empty_route_cell key cell (set_store st3 sv2))
                                        else
                                          run_handler handler new_v4 ck authority command key cell
                                            durable_expected expected
                                            (if preparing
                                             then sv2\<lparr>sv_capacity := sv_capacity sv2 - 1\<rparr>
                                             else sv2))))))"

section \<open>Replay protection\<close>

definition set_replay ::
    "uuid \<Rightarrow> ReplayRecord \<Rightarrow> PrivateEgressCommandService \<Rightarrow> PrivateEgressCommandService" where
  "set_replay command_id record sv =
     sv\<lparr>sv_replay := (sv_replay sv)\<lparr>rs_entries :=
         AList.update command_id record (rs_entries (sv_replay sv))\<rparr>\<rparr>"

text \<open>Record the response of a command; \<open>queued\<close> puts it on the queue the sweep works off.\<close>

definition record_response ::
    "uuid \<Rightarrow> PrivateEgressResponse \<Rightarrow> bool \<Rightarrow> PrivateEgressCommandService \<Rightarrow>
     PrivateEgressCommandService option" where
  "record_response command_id response queued sv =
     (case map_of (rs_entries (sv_replay sv)) command_id of
        None \<Rightarrow> None
      | Some record \<Rightarrow>
          let sv1 = set_replay command_id (record\<lparr>rp_response := Some response\<rparr>) sv
          in Some (if queued
                   then sv1\<lparr>sv_replay := (sv_replay sv1)\<lparr>rs_completed :=
                          rs_completed (sv_replay sv1) @ [command_id]\<rparr>\<rparr>
                   else sv1))"

text \<open>
  \<open>execute\<close> after the replay entry was created: the durable claim, the execution and the durable
  completion. A replay entry that another task still works on is only met when operations overlap;
  then the wait of this run ends with its timeout.
\<close>

definition execute_claimed ::
    "handler \<Rightarrow> uuid \<Rightarrow> clock_readings \<Rightarrow> PrivateEgressRouteAuthority \<Rightarrow> PrivateEgressCommand \<Rightarrow>
     256 word \<Rightarrow> millis \<Rightarrow> PrivateEgressCommandService \<Rightarrow>
     (PrivateEgressError, PrivateEgressResponse) result \<times> PrivateEgressCommandService" where
  "execute_claimed handler new_v4 ck authority command digest now_ms sv =
     (let command_id = cmd_command_id command
      in case claim_command (sv_state_store sv) (sv_epoch sv) command_id digest now_ms of
           (Inl error, st) \<Rightarrow>
             (Inl error,
              (set_store st sv)\<lparr>sv_replay := (sv_replay sv)\<lparr>rs_entries :=
                AList.delete command_id (rs_entries (sv_replay sv))\<rparr>\<rparr>)
         | (Inr (Completed response), st) \<Rightarrow>
             (case record_response command_id response True (set_store st sv) of
                None \<Rightarrow> (Inl StateUnavailable, set_store st sv)
              | Some sv1 \<Rightarrow> (Inr (response\<lparr>resp_replayed := True\<rparr>), sv1))
         | (Inr InFlight, st) \<Rightarrow>
             (case record_response command_id (response_rejected command_id StateUnavailable) True
                     (set_store st sv) of
                None \<Rightarrow> (Inl StateUnavailable, set_store st sv)
              | Some sv1 \<Rightarrow> (Inl StateUnavailable, service_begin_drain sv1))
         | (Inr Acquired, st) \<Rightarrow>
             let (result, sv1) = execute_once handler new_v4 ck authority command (set_store st sv);
                 stored = (case result of Inr response \<Rightarrow> response
                           | Inl error \<Rightarrow> response_rejected command_id error)
             in (case complete_command (sv_state_store sv1) (sv_epoch sv1) command_id digest stored
                        (ck_completed ck) of
                   (Inl error, st2) \<Rightarrow>
                     (let sv2 = service_begin_drain (set_store st2 sv1)
                      in case record_response command_id (response_rejected command_id error) False sv2 of
                           None \<Rightarrow> (Inl StateUnavailable, sv2)
                         | Some sv3 \<Rightarrow> (Inl error, sv3))
                 | (Inr _, st2) \<Rightarrow>
                     (case record_response command_id stored True (set_store st2 sv1) of
                        None \<Rightarrow> (Inl InvalidResponse, set_store st2 sv1)
                      | Some sv3 \<Rightarrow> (Inr stored, sv3))))"

definition service_execute ::
    "wire \<Rightarrow> (PrivateEgressCommand \<Rightarrow> bytes option) \<Rightarrow> (bytes \<Rightarrow> 256 word) \<Rightarrow> handler \<Rightarrow> uuid \<Rightarrow>
     clock_readings \<Rightarrow> PrivateEgressRouteAuthority \<Rightarrow> PrivateEgressCommand \<Rightarrow> millis \<Rightarrow>
     PrivateEgressCommandService \<Rightarrow>
     (PrivateEgressError, PrivateEgressResponse) result \<times> PrivateEgressCommandService" where
  "service_execute w to_vec sha256 handler new_v4 ck authority command now_ms sv0 =
     (let sv = sweep_terminal_routes (ck_sweep ck) sv0
      in case command_validate w command now_ms of
           Inl e \<Rightarrow> (Inl e, sv)
         | Inr _ \<Rightarrow>
             if cmd_worker command \<noteq> auth_worker authority \<or> cmd_source command \<noteq> auth_source authority
             then (Inl OwnershipMismatch, sv)
             else if is_prepare (cmd_operation command) \<and>
                     length (sv_routes sv) \<ge>
                       cfg_max_active_routes (sv_config sv) + cfg_max_replay_entries (sv_config sv)
             then (Inl CapacityExceeded, sv)
             else
               (case command_digest to_vec sha256 command of
                  Inl e \<Rightarrow> (Inl e, sv)
                | Inr digest \<Rightarrow>
                    let sv1 = sv\<lparr>sv_replay :=
                                sweep_replay (ck_replay ck) (cfg_replay_ttl (sv_config sv)) (sv_replay sv)\<rparr>
                    in (case map_of (rs_entries (sv_replay sv1)) (cmd_command_id command) of
                          Some record \<Rightarrow>
                            if rp_digest record \<noteq> digest then (Inl ReplayConflict, sv1)
                            else
                              (case rp_response record of
                                 Some response \<Rightarrow> (Inr (response\<lparr>resp_replayed := True\<rparr>), sv1)
                               | None \<Rightarrow> (Inl PrivateEgressError.Timeout, sv1))
                        | None \<Rightarrow>
                            if length (rs_entries (sv_replay sv1)) \<ge>
                                 cfg_max_replay_entries (sv_config sv1)
                            then (Inl CapacityExceeded, sv1)
                            else
                              execute_claimed handler new_v4 ck authority command digest now_ms
                                (set_replay (cmd_command_id command)
                                   \<lparr>rp_digest = digest, rp_created_at = ck_created ck,
                                    rp_response = None\<rparr> sv1))))"

section \<open>Lifecycle events\<close>

text \<open>\<open>retained\<close> and \<open>unix_time\<close> are the clock readings of the operation.\<close>

definition record_lifecycle ::
    "time \<Rightarrow> millis \<Rightarrow> PrivateEgressRouteAuthority \<Rightarrow> PrivateEgressLifecycleEvent \<Rightarrow>
     PrivateEgressCommandService \<Rightarrow>
     (PrivateEgressError, PrivateEgressLifecycleEvent) result \<times> PrivateEgressCommandService" where
  "record_lifecycle retained unix_time authority event sv =
     (if ev_worker event \<noteq> auth_worker authority \<or> ev_source event \<noteq> auth_source authority
      then (Inl OwnershipMismatch, sv)
      else
        let key = PrivateEgressRouteKey_new (ev_worker event) (ev_source event) (ev_target event)
        in (case map_of (sv_routes sv) key of
              None \<Rightarrow> (Inl InvalidTransition, sv)
            | Some (cell, None) \<Rightarrow> (Inl InvalidTransition, sv)
            | Some (cell, Some current) \<Rightarrow>
                if \<not> (case ev_kind event of
                         Progress _ _ \<Rightarrow> sr_state current = Prepared
                       | State state _ \<Rightarrow> lifecycle_transition_allowed (sr_state current) state)
                then (Inl InvalidTransition, sv)
                else
                  (case append_lifecycle (sv_state_store sv) (sv_epoch sv) key event unix_time of
                     (Inl e, st) \<Rightarrow> (Inl e, set_store st sv)
                   | (Inr stamped_event, st) \<Rightarrow>
                       let terminal = lifecycle_is_terminal stamped_event;
                           sv1 = set_store st sv;
                           sv2 = (case lifecycle_state stamped_event of
                                    None \<Rightarrow> sv1
                                  | Some state \<Rightarrow>
                                      if terminal
                                      then release_permit (sr_permit current)
                                             (set_cell key cell
                                               (Some (current\<lparr>sr_state := state, sr_permit := False\<rparr>)) sv1)
                                      else set_cell key cell (Some (current\<lparr>sr_state := state\<rparr>)) sv1);
                           sv3 = (if terminal then sv2
                                  else sv2\<lparr>sv_observed := sv_observed sv2 @ [stamped_event]\<rparr>)
                       in (Inr stamped_event,
                           if terminal then retain_terminal_route retained key cell sv3 else sv3))))"

definition acknowledge_lifecycle ::
    "PrivateEgressRouteAuthority \<Rightarrow> PrivateEgressLifecycleAck \<Rightarrow> PrivateEgressCommandService \<Rightarrow>
     (PrivateEgressError, unit) result \<times> PrivateEgressCommandService" where
  "acknowledge_lifecycle authority ack sv =
     (if ack_worker ack \<noteq> auth_worker authority \<or> ack_source ack \<noteq> auth_source authority \<or>
         ack_gateway_epoch ack \<noteq> ge_instance_id (sv_epoch sv)
      then (Inl OwnershipMismatch, sv)
      else
        let key = PrivateEgressRouteKey_new (ack_worker ack) (ack_source ack) (ack_target ack)
        in (case unacked_lifecycle (sv_state_store sv) (sv_epoch sv) key of
              (Inl e, _) \<Rightarrow> (Inl e, sv)
            | (Inr events, _) \<Rightarrow>
                let found = find (\<lambda>event. ev_event_id event = ack_event_id ack \<and>
                                           ev_sequence event = ack_sequence ack) events;
                    terminal = (case found of None \<Rightarrow> None
                                | Some event \<Rightarrow> if lifecycle_is_terminal event then Some event else None)
                in (case ack_lifecycle (sv_state_store sv) (sv_epoch sv) key (ack_event_id ack)
                           (ack_sequence ack) of
                      (Inl e, st) \<Rightarrow> (Inl e, set_store st sv)
                    | (Inr _, st) \<Rightarrow>
                        (Inr (), case terminal of
                                   None \<Rightarrow> set_store st sv
                                 | Some event \<Rightarrow>
                                     (set_store st sv)\<lparr>sv_observed := sv_observed sv @ [event]\<rparr>))))"

definition service_unacked_lifecycle ::
    "PrivateEgressRouteAuthority \<Rightarrow> PrivateEgressTarget \<Rightarrow> PrivateEgressCommandService \<Rightarrow>
     (PrivateEgressError, PrivateEgressLifecycleEvent list) result" where
  "service_unacked_lifecycle authority target sv =
     fst (unacked_lifecycle (sv_state_store sv) (sv_epoch sv)
            (PrivateEgressRouteKey_new (auth_worker authority) (auth_source authority) target))"

section \<open>The end of a source and draining\<close>

text \<open>
  The loop of \<open>end_source_until\<close> over the keys. \<open>late key\<close> tells that the deadline has passed when
  the key's turn comes, \<open>new_v4 key\<close> and \<open>unix_time\<close> are the identifier and the time of the End
  command sent for it; the result is whether anything timed out.
\<close>

fun end_routes ::
    "handler \<Rightarrow> (PrivateEgressRouteKey \<Rightarrow> uuid) \<Rightarrow> millis \<Rightarrow> (PrivateEgressRouteKey \<Rightarrow> bool) \<Rightarrow>
     PrivateEgressRouteAuthority \<Rightarrow> PrivateEgressRouteKey list \<Rightarrow> PrivateEgressCommandService \<Rightarrow>
     bool \<times> PrivateEgressCommandService" where
  "end_routes handler new_v4 unix_time late authority [] sv = (False, sv)"
| "end_routes handler new_v4 unix_time late authority (key # keys) sv =
     (let entry = map_of (sv_routes sv) key;
          needs_end = (case entry of None \<Rightarrow> True | Some (_, content) \<Rightarrow> content \<noteq> None);
          command = end_command (new_v4 key) unix_time (auth_worker authority) (auth_source authority)
                      (rk_target key) PrivateEgressEndReason.Cancelled;
          timed_out = needs_end \<and> (late key \<or> handler authority command = TimedOut);
          sv1 = (if needs_end \<and> \<not> late key then sv\<lparr>sv_invoked := sv_invoked sv @ [command]\<rparr> else sv);
          sv2 = (case entry of
                   None \<Rightarrow> sv1
                 | Some (_, content) \<Rightarrow>
                     (release_permit (case content of None \<Rightarrow> False | Some r \<Rightarrow> sr_permit r) sv1)
                       \<lparr>sv_routes := AList.delete key (sv_routes sv1)\<rparr>);
          (rest, sv3) = end_routes handler new_v4 unix_time late authority keys sv2
      in (timed_out \<or> rest, sv3))"

definition end_source_until ::
    "handler \<Rightarrow> (PrivateEgressRouteKey \<Rightarrow> uuid) \<Rightarrow> millis \<Rightarrow> (PrivateEgressRouteKey \<Rightarrow> bool) \<Rightarrow>
     PrivateEgressRouteAuthority \<Rightarrow> PrivateEgressCommandService \<Rightarrow> bool \<times> PrivateEgressCommandService" where
  "end_source_until handler new_v4 unix_time late authority sv =
     (let (keys, sv1) =
        (case fail_source (sv_state_store sv) (sv_epoch sv) authority unix_time of
           (Inr keys, st) \<Rightarrow> (keys, set_store st sv)
         | (Inl _, st) \<Rightarrow> ([], service_begin_drain (set_store st sv)));
          local = filter (\<lambda>key. belongs_to key authority) (map fst (sv_routes sv1));
          all = foldl (\<lambda>ks key. if key \<in> set ks then ks else ks @ [key]) keys local
      in end_routes handler new_v4 unix_time late authority all sv1)"

definition service_authorities ::
    "PrivateEgressCommandService \<Rightarrow> PrivateEgressRouteAuthority list" where
  "service_authorities sv =
     foldl (\<lambda>as key. if key_authority key \<in> set as then as else as @ [key_authority key]) []
       (map fst (sv_routes sv))"

fun end_sources ::
    "handler \<Rightarrow> (PrivateEgressRouteKey \<Rightarrow> uuid) \<Rightarrow> millis \<Rightarrow> (PrivateEgressRouteKey \<Rightarrow> bool) \<Rightarrow>
     PrivateEgressRouteAuthority list \<Rightarrow> PrivateEgressCommandService \<Rightarrow>
     bool \<times> PrivateEgressCommandService" where
  "end_sources handler new_v4 unix_time late [] sv = (False, sv)"
| "end_sources handler new_v4 unix_time late (a # as) sv =
     (let (timed_out, sv1) = end_source_until handler new_v4 unix_time late a sv;
          (rest, sv2) = end_sources handler new_v4 unix_time late as sv1
      in (timed_out \<or> rest, sv2))"

definition held_permits :: "(PrivateEgressRouteKey \<times> route_cell) list \<Rightarrow> nat" where
  "held_permits routes =
     length (filter (\<lambda>(_, (_, content)). case content of None \<Rightarrow> False | Some r \<Rightarrow> sr_permit r) routes)"

text \<open>
  \<open>handler_drain\<close> is the answer of the handler's own drain, \<open>overdue\<close> whether the deadline has
  passed at the end. Removing the remaining cells drops the permits their records hold.
\<close>

definition service_drain ::
    "handler \<Rightarrow> (PrivateEgressRouteKey \<Rightarrow> uuid) \<Rightarrow> millis \<Rightarrow> (PrivateEgressRouteKey \<Rightarrow> bool) \<Rightarrow>
     (PrivateEgressError, unit) result \<Rightarrow> bool \<Rightarrow> PrivateEgressCommandService \<Rightarrow>
     (PrivateEgressError, unit) result \<times> PrivateEgressCommandService" where
  "service_drain handler new_v4 unix_time late handler_drain overdue sv0 =
     (let sv = service_begin_drain sv0;
          (ended_late, sv1) = end_sources handler new_v4 unix_time late (service_authorities sv) sv;
          timed_out = (ended_late \<or> handler_drain = Inl PrivateEgressError.Timeout);
          handler_error = (case handler_drain of
                             Inr _ \<Rightarrow> None
                           | Inl e \<Rightarrow> if e = PrivateEgressError.Timeout then None else Some e);
          sv2 = sv1\<lparr>sv_capacity := sv_capacity sv1 + held_permits (sv_routes sv1), sv_routes := [],
                    sv_terminal_routes := []\<rparr>
      in (case handler_error of
            Some e \<Rightarrow> (Inl e, sv2)
          | None \<Rightarrow> if timed_out \<or> overdue then (Inl PrivateEgressError.Timeout, sv2) else (Inr (), sv2)))"

end
