(* ===== verification/Egress_Capacity.thy ===== *)
theory Egress_Capacity
  imports Egress_Service
begin

text \<open>
  The invariant of the gateway's command service: every capacity permit is either free or held by
  exactly one route that is prepared or active, and a tombstone only ever removes a route cell that
  holds none. \<open>service_call\<close> performs one operation of the service; the invariant holds after every
  sequence of them.
\<close>

section \<open>The invariant\<close>

definition permit_of :: "route_cell option \<Rightarrow> nat" where
  "permit_of entry =
     (case entry of Some (_, Some r) \<Rightarrow> (if sr_permit r then 1 else 0) | _ \<Rightarrow> 0)"

definition cells_ok :: "PrivateEgressCommandService \<Rightarrow> bool" where
  "cells_ok sv \<longleftrightarrow>
     (\<forall>key cell content. map_of (sv_routes sv) key = Some (cell, content) \<longrightarrow>
        cell < sv_next_cell sv \<and>
        (case content of None \<Rightarrow> True | Some r \<Rightarrow> sr_permit r \<longleftrightarrow> record_active r)) \<and>
     (\<forall>t \<in> set (sv_terminal_routes sv). ts_cell t < sv_next_cell sv \<and>
        (\<forall>content. map_of (sv_routes sv) (ts_key t) = Some (ts_cell t, content) \<longrightarrow>
           (case content of None \<Rightarrow> False | Some r \<Rightarrow> \<not> sr_permit r)))"

text \<open>\<open>service_holding n\<close>: the running operation itself holds \<open>n\<close> permits.\<close>

definition service_holding :: "nat \<Rightarrow> PrivateEgressCommandService \<Rightarrow> bool" where
  "service_holding n sv \<longleftrightarrow>
     keys_distinct (sv_routes sv) \<and> keys_distinct (rs_entries (sv_replay sv)) \<and>
     sv_capacity sv + held_permits (sv_routes sv) + n = cfg_max_active_routes (sv_config sv) \<and>
     cells_ok sv \<and> store_ok (sv_state_store sv)"

abbreviation service_ok :: "PrivateEgressCommandService \<Rightarrow> bool" where
  "service_ok \<equiv> service_holding 0"

section \<open>Counting permits\<close>

lemma held_permits_Nil [simp]: "held_permits [] = 0"
  by (simp add: held_permits_def)

lemma held_permits_Cons: "held_permits ((k, e) # m) = permit_of (Some e) + held_permits m"
  by (cases e) (simp add: held_permits_def permit_of_def split: option.splits)

lemma permit_of_None [simp]: "permit_of None = 0" "permit_of (Some (c, None)) = 0"
  by (simp_all add: permit_of_def)

lemma held_permits_update:
  "held_permits (AList.update k e m) + permit_of (map_of m k) = held_permits m + permit_of (Some e)"
proof (induction m)
  case (Cons p m)
  then show ?case by (cases p) (auto simp: held_permits_Cons)
qed (simp add: held_permits_Cons)

lemma held_permits_delete:
  "keys_distinct m \<Longrightarrow> held_permits (AList.delete k m) + permit_of (map_of m k) = held_permits m"
proof (induction m)
  case (Cons p m)
  obtain k' e where p: "p = (k', e)" by (cases p)
  show ?case
  proof (cases "k' = k")
    case True
    then have "AList.delete k m = m"
      using Cons.prems p by (auto simp: AList.delete_eq filter_id_conv image_iff)
    with True p show ?thesis by (simp add: held_permits_Cons)
  next
    case False
    with Cons p show ?thesis by (simp add: held_permits_Cons)
  qed
qed simp

lemma active_eq_held:
  assumes "cells_ok sv" "keys_distinct (sv_routes sv)"
  shows "active_routes sv = held_permits (sv_routes sv)"
proof -
  have "record_active r \<longleftrightarrow> sr_permit r" if "(key, (cell, Some r)) \<in> set (sv_routes sv)" for key cell r
  proof -
    have "map_of (sv_routes sv) key = Some (cell, Some r)"
      using that in_map_of [OF assms(2), of key "(cell, Some r)"] by simp
    then show ?thesis using assms(1) by (fastforce simp: cells_ok_def)
  qed
  then have "filter (\<lambda>(_, (_, cell)). case cell of None \<Rightarrow> False | Some r \<Rightarrow> record_active r) (sv_routes sv) =
      filter (\<lambda>(_, (_, cell)). case cell of None \<Rightarrow> False | Some r \<Rightarrow> sr_permit r) (sv_routes sv)"
    by (intro filter_cong) (auto split: option.splits)
  then show ?thesis by (simp add: active_routes_def held_permits_def)
qed

section \<open>Updates\<close>

lemma service_ok_store: "service_holding n sv \<Longrightarrow> store_ok st \<Longrightarrow> service_holding n (set_store st sv)"
  by (simp add: service_holding_def set_store_def cells_ok_def)

lemma service_ok_drain [simp]: "service_holding n (service_begin_drain sv) = service_holding n sv"
  by (simp add: service_holding_def service_begin_drain_def cells_ok_def)

lemma service_ok_invoked [simp]:
  "service_holding n (sv\<lparr>sv_invoked := x\<rparr>) = service_holding n sv"
  "service_holding n (sv\<lparr>sv_observed := y\<rparr>) = service_holding n sv"
  by (simp_all add: service_holding_def cells_ok_def)

text \<open>
  A cell is rewritten with the permits it gains or loses moved from or to the semaphore: \<open>gain\<close> is
  the permit of the new content, and the old one goes back.
\<close>

lemma service_ok_set_cell:
  assumes "keys_distinct (sv_routes sv)" "keys_distinct (rs_entries (sv_replay sv))" "cells_ok sv"
    "store_ok (sv_state_store sv)"
    "sv_capacity sv + held_permits (sv_routes sv) + permit_of (Some (cell, content)) + n =
      cfg_max_active_routes (sv_config sv) + permit_of (map_of (sv_routes sv) key)"
    "cell < sv_next_cell sv"
    "case content of None \<Rightarrow> True | Some r \<Rightarrow> sr_permit r \<longleftrightarrow> record_active r"
    "\<And>t. t \<in> set (sv_terminal_routes sv) \<Longrightarrow> ts_key t = key \<Longrightarrow> ts_cell t = cell \<Longrightarrow>
       case content of None \<Rightarrow> False | Some r \<Rightarrow> \<not> sr_permit r"
  shows "service_holding n (set_cell key cell content sv)"
proof -
  have "cells_ok (set_cell key cell content sv)"
    using assms(3,6,7,8) by (auto simp: cells_ok_def set_cell_def)
  moreover have "sv_capacity sv + held_permits (AList.update key (cell, content) (sv_routes sv)) + n =
      cfg_max_active_routes (sv_config sv)"
    using held_permits_update [of key "(cell, content)" "sv_routes sv"] assms(5) by linarith
  ultimately show ?thesis using assms(1,2,4) by (simp add: service_holding_def set_cell_def)
qed

lemma cells_ok_delete:
  assumes "cells_ok sv"
  shows "cells_ok (sv\<lparr>sv_routes := AList.delete key (sv_routes sv)\<rparr>)"
  using assms by (auto simp: cells_ok_def split: if_splits)

lemma service_ok_delete:
  assumes "service_holding n sv"
  shows "service_holding n (sv\<lparr>sv_routes := AList.delete key (sv_routes sv),
    sv_capacity := sv_capacity sv + permit_of (map_of (sv_routes sv) key)\<rparr>)"
  using assms cells_ok_delete [of sv key] held_permits_delete [of "sv_routes sv" key]
  by (auto simp: service_holding_def cells_ok_def)

lemma remove_empty_ok:
  assumes "service_holding n sv"
  shows "service_holding n (remove_empty_route_cell key cell sv)"
proof (cases "map_of (sv_routes sv) key")
  case (Some e)
  then show ?thesis
    using assms service_ok_delete [OF assms, of key]
    by (cases e) (auto simp: remove_empty_route_cell_def)
qed (use assms in \<open>simp add: remove_empty_route_cell_def\<close>)

lemma sweep_terminal_ok:
  assumes "sweep_terminal now ttl routes terminal = (routes', terminal')"
    "service_holding n (sv\<lparr>sv_routes := routes, sv_terminal_routes := terminal\<rparr>)"
  shows "service_holding n (sv\<lparr>sv_routes := routes', sv_terminal_routes := terminal'\<rparr>)"
  using assms
proof (induction now ttl routes terminal arbitrary: routes' terminal' rule: sweep_terminal.induct)
  case (2 now ttl routes r terminal)
  show ?case
  proof (cases "max 0 (now - ts_completed_at r) \<ge> int ttl")
    case True
    let ?routes = "case map_of routes (ts_key r) of None \<Rightarrow> routes
      | Some (cell, _) \<Rightarrow> if cell = ts_cell r then AList.delete (ts_key r) routes else routes"
    let ?sv = "sv\<lparr>sv_routes := routes, sv_terminal_routes := r # terminal\<rparr>"
    have ok: "service_holding n (sv\<lparr>sv_routes := routes, sv_terminal_routes := terminal\<rparr>)"
      using "2.prems"(2) by (auto simp: service_holding_def cells_ok_def)
    have "service_holding n (sv\<lparr>sv_routes := ?routes, sv_terminal_routes := terminal\<rparr>)"
    proof (cases "\<exists>content. map_of routes (ts_key r) = Some (ts_cell r, content)")
      case hit: True
      then obtain content where c: "map_of routes (ts_key r) = Some (ts_cell r, content)" ..
      then have "permit_of (map_of routes (ts_key r)) = 0"
        using "2.prems"(2) by (auto simp: service_holding_def cells_ok_def permit_of_def split: option.splits)
      then show ?thesis
        using service_ok_delete [OF ok, of "ts_key r"] c by (simp add: service_holding_def cells_ok_def)
    qed (use ok in \<open>auto split: option.splits\<close>)
    from "2.IH" [OF True _ this] "2.prems"(1) True show ?thesis by simp
  qed (use "2.prems" in auto)
qed simp

lemma sweep_terminal_routes_ok:
  assumes "service_holding n sv"
  shows "service_holding n (sweep_terminal_routes now sv)"
proof -
  obtain routes terminal where s: "sweep_terminal now (cfg_replay_ttl (sv_config sv)) (sv_routes sv)
    (sv_terminal_routes sv) = (routes, terminal)" by fastforce
  have "service_holding n (sv\<lparr>sv_routes := sv_routes sv, sv_terminal_routes := sv_terminal_routes sv\<rparr>)"
    using assms by simp
  from sweep_terminal_ok [OF s this] s show ?thesis by (simp add: sweep_terminal_routes_def)
qed

lemma retain_terminal_ok:
  assumes "service_holding n sv" "cell < sv_next_cell sv"
    "\<And>content. map_of (sv_routes sv) key = Some (cell, content) \<Longrightarrow>
       case content of None \<Rightarrow> False | Some r \<Rightarrow> \<not> sr_permit r"
  shows "service_holding n (retain_terminal_route now key cell sv)"
  unfolding retain_terminal_route_def
  using assms by (intro sweep_terminal_routes_ok) (auto simp: service_holding_def cells_ok_def)

lemma sweep_replay_entries:
  "keys_distinct (rs_entries s) \<Longrightarrow> keys_distinct (rs_entries (sweep_replay now ttl s))"
proof (induction now ttl s rule: sweep_replay.induct)
  case (1 now ttl s)
  show ?case
    using "1.prems" "1.IH"
    by (subst sweep_replay.simps) (auto simp: Let_def split: list.splits)
qed

section \<open>Every operation keeps the invariant\<close>

lemma release_permit_ok:
  "service_holding (n + (if held then 1 else 0)) sv \<Longrightarrow> service_holding n (release_permit held sv)"
  by (auto simp: release_permit_def service_holding_def cells_ok_def)

lemma release_permit_sel [simp]:
  "sv_routes (release_permit b sv) = sv_routes sv" "sv_next_cell (release_permit b sv) = sv_next_cell sv"
  "sv_terminal_routes (release_permit b sv) = sv_terminal_routes sv"
  "sv_state_store (release_permit b sv) = sv_state_store sv" "sv_epoch (release_permit b sv) = sv_epoch sv"
  "sv_config (release_permit b sv) = sv_config sv" "sv_replay (release_permit b sv) = sv_replay sv"
  "sv_invoked (release_permit b sv) = sv_invoked sv"
  by (simp_all add: release_permit_def)

lemma set_store_sel [simp]:
  "sv_routes (set_store st sv) = sv_routes sv" "sv_next_cell (set_store st sv) = sv_next_cell sv"
  "sv_terminal_routes (set_store st sv) = sv_terminal_routes sv"
  "sv_state_store (set_store st sv) = st" "sv_epoch (set_store st sv) = sv_epoch sv"
  "sv_config (set_store st sv) = sv_config sv" "sv_replay (set_store st sv) = sv_replay sv"
  "sv_capacity (set_store st sv) = sv_capacity sv" "sv_invoked (set_store st sv) = sv_invoked sv"
  "sv_draining (set_store st sv) = sv_draining sv"
  by (simp_all add: set_store_def)

lemma set_cell_sel [simp]:
  "sv_routes (set_cell k c x sv) = AList.update k (c, x) (sv_routes sv)"
  "sv_next_cell (set_cell k c x sv) = sv_next_cell sv"
  "sv_terminal_routes (set_cell k c x sv) = sv_terminal_routes sv"
  "sv_state_store (set_cell k c x sv) = sv_state_store sv" "sv_epoch (set_cell k c x sv) = sv_epoch sv"
  "sv_config (set_cell k c x sv) = sv_config sv" "sv_replay (set_cell k c x sv) = sv_replay sv"
  "sv_capacity (set_cell k c x sv) = sv_capacity sv" "sv_invoked (set_cell k c x sv) = sv_invoked sv"
  "sv_draining (set_cell k c x sv) = sv_draining sv"
  by (simp_all add: set_cell_def)

lemma holding_cell:
  assumes "service_holding n sv" "map_of (sv_routes sv) key = Some (cell, content)"
  shows "cell < sv_next_cell sv" "content = Some r \<Longrightarrow> sr_permit r \<longleftrightarrow> record_active r"
  using assms unfolding service_holding_def cells_ok_def by (blast, fastforce)

lemma holding_tombstone:
  assumes "service_holding n sv" "t \<in> set (sv_terminal_routes sv)"
    "map_of (sv_routes sv) (ts_key t) = Some (ts_cell t, content)"
  obtains r where "content = Some r" "\<not> sr_permit r"
proof -
  have "case content of None \<Rightarrow> False | Some r \<Rightarrow> \<not> sr_permit r"
    using assms unfolding service_holding_def cells_ok_def by blast
  then show thesis by (cases content) (auto intro: that)
qed

text \<open>The cell of a route that is prepared or active holds a permit and has no tombstone.\<close>

lemma active_cell:
  assumes "service_holding n sv" "map_of (sv_routes sv) key = Some (cell, Some r)" "record_active r"
  shows "sr_permit r" "permit_of (map_of (sv_routes sv) key) = 1" "cell < sv_next_cell sv"
    "t \<in> set (sv_terminal_routes sv) \<Longrightarrow> ts_key t = key \<Longrightarrow> ts_cell t \<noteq> cell"
proof -
  show p: "sr_permit r" using holding_cell(2) [OF assms(1,2) refl] assms(3) by simp
  show "permit_of (map_of (sv_routes sv) key) = 1" using p assms(2) by (simp add: permit_of_def)
  show "cell < sv_next_cell sv" by (rule holding_cell(1) [OF assms(1,2)])
  assume t: "t \<in> set (sv_terminal_routes sv)" "ts_key t = key"
  show "ts_cell t \<noteq> cell"
  proof
    assume "ts_cell t = cell"
    with t assms(2) have "map_of (sv_routes sv) (ts_key t) = Some (ts_cell t, Some r)" by simp
    from holding_tombstone [OF assms(1) t(1) this] p show False by auto
  qed
qed

text \<open>Rewriting the record of such a cell, as an operation or as its end.\<close>

lemma set_active_cell_ok:
  assumes "service_holding n sv" "map_of (sv_routes sv) key = Some (cell, Some r)" "record_active r"
    "record_active r'" "sr_permit r' = sr_permit r"
  shows "service_holding n (set_cell key cell (Some r') sv)"
  using assms active_cell [OF assms(1-3)]
  by (intro service_ok_set_cell) (auto simp: service_holding_def permit_of_def)

lemma end_cell_ok:
  assumes "service_holding n sv" "map_of (sv_routes sv) key = Some (cell, Some r)" "record_active r"
    "egress_is_terminal s"
  shows "service_holding n
    (retain_terminal_route now key cell
      (release_permit (sr_permit r)
        (set_cell key cell (Some (r\<lparr>sr_state := s, sr_permit := False\<rparr>)) sv)))"
proof -
  let ?sv = "set_cell key cell (Some (r\<lparr>sr_state := s, sr_permit := False\<rparr>)) sv"
  note act = active_cell [OF assms(1-3)]
  have "\<not> record_active (r\<lparr>sr_state := s, sr_permit := False\<rparr>)"
    using assms(4) by (auto simp: record_active_def egress_is_terminal_def)
  then have "service_holding (n + 1) ?sv"
    using assms act by (intro service_ok_set_cell) (auto simp: service_holding_def permit_of_def)
  then have "service_holding n (release_permit (sr_permit r) ?sv)"
    using act(1) by (intro release_permit_ok) simp
  then show ?thesis using act(3) by (intro retain_terminal_ok) auto
qed

lemma cell_content_hit [simp]:
  "map_of (sv_routes sv) key = Some (cell, content) \<Longrightarrow> cell_content sv key cell = content"
  by (simp add: cell_content_def)

lemma expected_state_active:
  assumes "expected_state operation content = Inr expected" "\<not> is_prepare operation"
  obtains r where "content = Some r" "record_active r" "expected \<noteq> None"
  using assms
  by (cases content)
    (auto simp: expected_state_def Let_def is_prepare_def record_active_def
      split: PrivateEgressOperation.splits if_splits)

lemma finish_transition_ok:
  assumes hold: "service_holding (if is_prepare (cmd_operation c) then 1 else 0) sv"
    and cell: "map_of (sv_routes sv) key = Some (cell, content)"
    and exp: "expected_state (cmd_operation c) content = Inr expected"
  shows "service_ok
    (snd (finish_transition c key cell (map_option sr_state content) expected ext now sv))"
proof (cases "is_prepare (cmd_operation c)")
  case True
  then obtain a b d f g where op: "cmd_operation c = Prepare a b d f g"
    by (auto simp: is_prepare_def split: PrivateEgressOperation.splits)
  then have none: "content = None" using exp by (auto simp: expected_state_def split: if_splits)
  have hold1: "service_holding 1 sv" using hold True by simp
  have "service_ok (set_cell key cell (Some \<lparr>sr_state = Prepared, sr_permit = True\<rparr>) sv)"
    using hold1 cell none
    by (intro service_ok_set_cell)
      (fastforce simp: service_holding_def permit_of_def record_active_def cells_ok_def)+
  then show ?thesis using op cell none by (simp add: finish_transition_def is_prepare_def)
next
  case False
  have hold0: "service_ok sv" using hold False by simp
  obtain r where r: "content = Some r" "record_active r" "expected \<noteq> None"
    using expected_state_active [OF exp False] .
  have ended: "service_ok (retain_terminal_route now key cell
      (release_permit (sr_permit r) (set_cell key cell
        (Some (r\<lparr>sr_state := PrivateEgressLifecycleState.Ended, sr_permit := False\<rparr>)) sv)))"
    using end_cell_ok [OF hold0 _ r(2)] cell r(1) by (simp add: egress_is_terminal_def)
  have act: "service_ok (set_cell key cell (Some (r\<lparr>sr_state := PrivateEgressLifecycleState.Active\<rparr>)) sv)"
    using set_active_cell_ok [OF hold0 _ r(2)] cell r(1) by (simp add: record_active_def)
  show ?thesis
    using False cell exp r ended act hold0
    by (cases "cmd_operation c")
      (auto simp: finish_transition_def is_prepare_def Let_def expected_state_def split: if_splits)
qed

lemma drain_sel [simp]:
  "sv_routes (service_begin_drain sv) = sv_routes sv" "sv_next_cell (service_begin_drain sv) = sv_next_cell sv"
  "sv_terminal_routes (service_begin_drain sv) = sv_terminal_routes sv"
  "sv_state_store (service_begin_drain sv) = sv_state_store sv" "sv_epoch (service_begin_drain sv) = sv_epoch sv"
  "sv_config (service_begin_drain sv) = sv_config sv" "sv_replay (service_begin_drain sv) = sv_replay sv"
  "sv_capacity (service_begin_drain sv) = sv_capacity sv" "sv_invoked (service_begin_drain sv) = sv_invoked sv"
  by (simp_all add: service_begin_drain_def)

lemma holding_store: "service_holding n sv \<Longrightarrow> store_ok (sv_state_store sv)"
  by (simp add: service_holding_def)

lemma release_store_ok:
  assumes "service_holding (if b then 1 else 0) sv" "store_ok st"
  shows "service_ok (release_permit b (set_store st sv))"
  using service_ok_store [OF assms] by (intro release_permit_ok) simp

lemma run_handler_ok:
  assumes hold: "service_holding (if is_prepare (cmd_operation c) then 1 else 0) sv"
    and cell: "map_of (sv_routes sv) key = Some (cell, content)"
    and exp: "expected_state (cmd_operation c) content = Inr expected"
  shows "service_ok
    (snd (run_handler handler new_v4 ck a c key cell (map_option sr_state content) expected sv))"
proof -
  let ?p = "is_prepare (cmd_operation c)" let ?sv = "sv\<lparr>sv_invoked := sv_invoked sv @ [c]\<rparr>"
  have hold': "service_holding (if ?p then 1 else 0) ?sv" using hold by simp
  have st: "store_ok (sv_state_store ?sv)" by (rule holding_store [OF hold'])
  have abort: "store_ok st" if "abort_route_transition (sv_state_store sv) (sv_epoch sv) key (cmd_command_id c) = (x, st)" for x st
    using abort_route_transition_ok [of "sv_state_store sv" "sv_epoch sv" key "cmd_command_id c"] st that by simp
  have complete: "store_ok st" if "complete_route_transition (sv_state_store sv) (sv_epoch sv) key (cmd_command_id c) s t = (x, st)" for x st s t
    using complete_route_transition_ok [of "sv_state_store sv" "sv_epoch sv" key "cmd_command_id c" s t] st that by simp
  have returned: "service_ok (release_permit b (set_store st ?sv))" if "store_ok st" "b = ?p" for st b
    using release_store_ok [OF hold' that(1)] that(2) by simp
  have fin: "service_ok (snd (finish_transition c key cell (map_option sr_state content) expected x t (set_store st ?sv)))"
    if "store_ok st" for st x t
    using finish_transition_ok [OF service_ok_store [OF hold' that] _ exp] cell by simp
  show ?thesis
    unfolding run_handler_def Let_def
    by (auto split: HandlerOutcome.splits prod.splits sum.splits
        intro!: returned fin remove_empty_ok dest: abort complete)
qed

text \<open>The cell that \<open>execute_once\<close> works on.\<close>

definition route_entry ::
    "bool \<Rightarrow> PrivateEgressRouteKey \<Rightarrow> PrivateEgressCommandService \<Rightarrow> (nat \<times> PrivateEgressCommandService) option" where
  "route_entry preparing key sv =
     (case map_of (sv_routes sv) key of
        Some (cell, _) \<Rightarrow> Some (cell, sv)
      | None \<Rightarrow>
          if preparing
          then Some (sv_next_cell sv,
                     (set_cell key (sv_next_cell sv) None sv)\<lparr>sv_next_cell := sv_next_cell sv + 1\<rparr>)
          else None)"

lemma new_cell_ok:
  assumes "service_holding n sv" "map_of (sv_routes sv) key = None"
  shows "service_holding n
    ((set_cell key (sv_next_cell sv) None sv)\<lparr>sv_next_cell := sv_next_cell sv + 1\<rparr>)"
proof -
  have "ts_cell t < sv_next_cell sv" if "t \<in> set (sv_terminal_routes sv)" for t
    using assms(1) that unfolding service_holding_def cells_ok_def by blast
  then have old: "ts_cell t \<noteq> sv_next_cell sv" "ts_cell t < Suc (sv_next_cell sv)"
    if "t \<in> set (sv_terminal_routes sv)" for t using that by fastforce+
  have "cells_ok ((set_cell key (sv_next_cell sv) None sv)\<lparr>sv_next_cell := sv_next_cell sv + 1\<rparr>)"
    using assms(1) old unfolding service_holding_def cells_ok_def
    by (auto simp: less_Suc_eq split: if_splits)
  moreover have "held_permits (AList.update key (sv_next_cell sv, None) (sv_routes sv)) =
    held_permits (sv_routes sv)"
    using held_permits_update [of key "(sv_next_cell sv, None)" "sv_routes sv"] assms(2) by simp
  ultimately show ?thesis using assms(1) by (simp add: service_holding_def)
qed

lemma route_entry_ok:
  assumes "service_ok sv" "route_entry preparing key sv = Some (cell, sv1)"
  obtains content where "map_of (sv_routes sv1) key = Some (cell, content)" "service_ok sv1"
    "sv_state_store sv1 = sv_state_store sv" "sv_epoch sv1 = sv_epoch sv" "sv_replay sv1 = sv_replay sv"
    "sv_invoked sv1 = sv_invoked sv" "sv_config sv1 = sv_config sv" "sv_draining sv1 = sv_draining sv"
  using assms new_cell_ok [OF assms(1)]
  by (auto simp: route_entry_def split: option.splits if_splits prod.splits)

lemma execute_once_ok:
  assumes ok: "service_ok sv"
  shows "service_ok (snd (execute_once handler new_v4 ck a c sv))"
proof -
  let ?p = "is_prepare (cmd_operation c)"
  let ?key = "PrivateEgressRouteKey_new (cmd_worker c) (cmd_source c) (cmd_target c)"
  show ?thesis
  proof (cases "route_entry ?p ?key sv")
    case None
    with ok show ?thesis
      unfolding execute_once_def Let_def route_entry_def [symmetric]
      by (auto split: prod.splits sum.splits)
  next
    case (Some e)
    obtain cell sv1 where e: "e = (cell, sv1)" by (cases e)
    obtain content where sv1: "map_of (sv_routes sv1) ?key = Some (cell, content)" "service_ok sv1"
      using route_entry_ok [OF ok] Some e by metis
    have claim: "service_ok (set_store st sv1)"
      if "claim_route_transition (sv_state_store sv1) (sv_epoch sv1) ?key i x n = (r, st)" for i x n r st
      using claim_route_transition_ok [OF holding_store [OF sv1(2)], of "sv_epoch sv1" ?key i x n] that
      by (intro service_ok_store [OF sv1(2)]) simp
    have abort: "service_ok (set_store st2 (set_store st sv1))"
      if "service_ok (set_store st sv1)" "abort_route_transition st (sv_epoch sv1) ?key i = (r, st2)" for st i r st2
      using abort_route_transition_ok [of st "sv_epoch sv1" ?key i] holding_store [OF that(1)] that
      by (intro service_ok_store [OF that(1)]) simp
    have take: "service_holding (Suc 0) ((set_store st sv1)\<lparr>sv_capacity := sv_capacity sv1 - Suc 0\<rparr>)"
      if "service_ok (set_store st sv1)" "0 < sv_capacity sv1" for st
      using that by (auto simp: service_holding_def cells_ok_def)
    show ?thesis
      unfolding execute_once_def Let_def route_entry_def [symmetric] Some e
      using ok sv1 claim
      by (auto split: prod.splits sum.splits intro!: remove_empty_ok run_handler_ok abort take)
  qed
qed

lemma holding_replay:
  "service_holding n sv \<Longrightarrow> keys_distinct (rs_entries x) \<Longrightarrow> service_holding n (sv\<lparr>sv_replay := x\<rparr>)"
  by (simp add: service_holding_def cells_ok_def)

lemma record_response_ok:
  assumes "record_response i r q sv = Some sv'" "service_holding n sv"
  shows "service_holding n sv'"
proof (cases "map_of (rs_entries (sv_replay sv)) i")
  case (Some x)
  have "keys_distinct (rs_entries (sv_replay sv))" using assms(2) by (simp add: service_holding_def)
  then show ?thesis
    using assms Some
    by (cases q) (auto simp: record_response_def set_replay_def Let_def intro!: holding_replay)
qed (use assms in \<open>simp add: record_response_def\<close>)

lemma execute_claimed_ok:
  assumes ok: "service_ok sv"
  shows "service_ok (snd (execute_claimed handler new_v4 ck a c d now sv))"
proof -
  obtain claim st where cl: "claim_command (sv_state_store sv) (sv_epoch sv) (cmd_command_id c) d now = (claim, st)"
    by fastforce
  have st: "service_ok (set_store st sv)"
    using claim_command_ok [OF holding_store [OF ok], of "sv_epoch sv" "cmd_command_id c" d now] cl
    by (intro service_ok_store [OF ok]) simp
  obtain result sv1 where ex: "execute_once handler new_v4 ck a c (set_store st sv) = (result, sv1)"
    by fastforce
  have sv1: "service_ok sv1" using execute_once_ok [OF st, of handler new_v4 ck a c] ex by simp
  have complete: "service_ok (set_store st2 sv1)"
    if "complete_command (sv_state_store sv1) (sv_epoch sv1) i d r t = (x, st2)" for i r t x st2
    using complete_command_ok [OF holding_store [OF sv1], of "sv_epoch sv1" i d r t] that
    by (intro service_ok_store [OF sv1]) simp
  have recorded: "service_ok sv'" if "record_response i r q (set_store st sv) = Some sv'" for i r q sv'
    by (rule record_response_ok [OF that st])
  have stored: "service_ok sv'"
    if "complete_command (sv_state_store sv1) (sv_epoch sv1) i d r t = (x, st2)"
      "record_response i' r' q (set_store st2 sv1) = Some sv'" for i r t x st2 i' r' q sv'
    by (rule record_response_ok [OF that(2) complete [OF that(1)]])
  have dropped: "service_ok sv'"
    if "complete_command (sv_state_store sv1) (sv_epoch sv1) i d r t = (x, st2)"
      "record_response i' r' q (service_begin_drain (set_store st2 sv1)) = Some sv'" for i r t x st2 i' r' q sv'
    using record_response_ok [OF that(2), of 0] complete [OF that(1)] by simp
  have drop: "service_ok ((set_store st sv)\<lparr>sv_replay := (sv_replay sv)\<lparr>rs_entries := AList.delete i
      (rs_entries (sv_replay sv))\<rparr>\<rparr>)" for i
    using st by (simp add: service_holding_def cells_ok_def)
  show ?thesis
    unfolding execute_claimed_def Let_def cl using ex st sv1 drop
    by (auto split: sum.splits PrivateEgressCommandClaim.splits option.splits prod.splits
        intro: complete recorded stored dropped)
qed

lemma sweep_replay_ok:
  "service_holding n sv \<Longrightarrow> service_holding n (sv\<lparr>sv_replay := sweep_replay now ttl (sv_replay sv)\<rparr>)"
  by (simp add: service_holding_def cells_ok_def sweep_replay_entries)

lemma set_replay_ok: "service_holding n sv \<Longrightarrow> service_holding n (set_replay i r sv)"
  by (simp add: service_holding_def cells_ok_def set_replay_def)

lemma service_execute_ok:
  assumes ok: "service_ok sv"
  shows "service_ok (snd (service_execute w to_vec sha handler new_v4 ck a c now sv))"
  using sweep_terminal_routes_ok [OF ok, of "ck_sweep ck"]
  unfolding service_execute_def Let_def
  by (auto split: sum.splits option.splits
      intro!: sweep_replay_ok execute_claimed_ok set_replay_ok)

lemma record_lifecycle_ok:
  assumes ok: "service_ok sv"
  shows "service_ok (snd (record_lifecycle now t a ev sv))"
proof -
  let ?key = "PrivateEgressRouteKey_new (ev_worker ev) (ev_source ev) (ev_target ev)"
  have app: "service_ok (set_store st sv)"
    if "append_lifecycle (sv_state_store sv) (sv_epoch sv) ?key ev t = (x, st)" for x st
    using append_lifecycle_ok [OF holding_store [OF ok], of "sv_epoch sv" ?key ev t] that
    by (intro service_ok_store [OF ok]) simp
  have kind: "ev_kind ev' = ev_kind ev"
    if "append_lifecycle (sv_state_store sv) (sv_epoch sv) ?key ev t = (Inr ev', st)" for ev' st
    using that by (cases rule: append_lifecycle_cases [of "sv_state_store sv" "sv_epoch sv" ?key ev t]) auto
  have active: "record_active r" if "lifecycle_transition_allowed (sr_state r) s" for r s
    using that by (cases "sr_state r") (auto simp: record_active_def)
  have stays: "record_active (r\<lparr>sr_state := s\<rparr>)"
    if "s \<noteq> PrivateEgressLifecycleState.Ended" "s \<noteq> PrivateEgressLifecycleState.Failed" for r s
    using that by (cases s) (auto simp: record_active_def)
  show ?thesis
    unfolding record_lifecycle_def Let_def
    using ok app kind active stays
    by (auto simp: lifecycle_is_terminal_def lifecycle_state_def egress_is_terminal_def
        split: option.splits sum.splits prod.splits PrivateEgressLifecycleKind.splits
        intro!: end_cell_ok set_active_cell_ok)
qed

lemma acknowledge_lifecycle_ok:
  assumes ok: "service_ok sv"
  shows "service_ok (snd (acknowledge_lifecycle a ack sv))"
proof -
  have ack: "service_ok (set_store st sv)"
    if "ack_lifecycle (sv_state_store sv) (sv_epoch sv) k i q = (x, st)" for k i q x st
    using ack_lifecycle_ok [OF holding_store [OF ok], of "sv_epoch sv" k i q] that
    by (intro service_ok_store [OF ok]) simp
  show ?thesis
    unfolding acknowledge_lifecycle_def Let_def
    using ok by (auto split: prod.splits sum.splits option.splits intro: ack)
qed

lemma drop_cell_ok:
  assumes "service_holding n sv" "map_of (sv_routes sv) key = Some (cell, content)"
  shows "service_holding n
    ((release_permit (case content of None \<Rightarrow> False | Some r \<Rightarrow> sr_permit r) sv)
       \<lparr>sv_routes := AList.delete key (sv_routes sv)\<rparr>)"
proof -
  have "(release_permit (case content of None \<Rightarrow> False | Some r \<Rightarrow> sr_permit r) sv)
      \<lparr>sv_routes := AList.delete key (sv_routes sv)\<rparr> =
    sv\<lparr>sv_routes := AList.delete key (sv_routes sv),
       sv_capacity := sv_capacity sv + permit_of (map_of (sv_routes sv) key)\<rparr>"
    using assms(2) by (cases sv) (auto simp: release_permit_def permit_of_def split: option.splits)
  then show ?thesis using service_ok_delete [OF assms(1), of key] by simp
qed

lemma end_routes_ok:
  "service_ok sv \<Longrightarrow> service_ok (snd (end_routes handler new_v4 t late a keys sv))"
proof (induction handler new_v4 t late a keys sv rule: end_routes.induct)
  case (2 handler new_v4 t late a key keys sv)
  let ?entry = "map_of (sv_routes sv) key"
  let ?needs = "case ?entry of None \<Rightarrow> True | Some (_, content) \<Rightarrow> content \<noteq> None"
  let ?cmd = "end_command (new_v4 key) t (auth_worker a) (auth_source a) (rk_target key)
    PrivateEgressEndReason.Cancelled"
  let ?sv1 = "if ?needs \<and> \<not> late key then sv\<lparr>sv_invoked := sv_invoked sv @ [?cmd]\<rparr> else sv"
  let ?sv2 = "case ?entry of None \<Rightarrow> ?sv1
    | Some (_, content) \<Rightarrow>
        (release_permit (case content of None \<Rightarrow> False | Some r \<Rightarrow> sr_permit r) ?sv1)
          \<lparr>sv_routes := AList.delete key (sv_routes ?sv1)\<rparr>"
  have sv1: "service_ok ?sv1" "sv_routes ?sv1 = sv_routes sv" using "2.prems" by simp_all
  have sv2: "service_ok ?sv2"
  proof (cases ?entry)
    case None
    then show ?thesis using sv1(1) by (simp only: option.case)
  next
    case (Some e)
    obtain cell content where "e = (cell, content)" by (cases e)
    with Some have "map_of (sv_routes ?sv1) key = Some (cell, content)" using sv1(2) by (simp only:)
    from drop_cell_ok [OF sv1(1) this] Some \<open>e = (cell, content)\<close> show ?thesis
      by (simp only: option.case prod.case)
  qed
  have "service_ok (snd (end_routes handler new_v4 t late a keys ?sv2))"
    by (rule "2.IH" [OF refl refl refl refl refl refl sv2])
  then show ?case by (simp add: Let_def case_prod_beta)
qed simp

lemma end_source_until_ok:
  assumes ok: "service_ok sv"
  shows "service_ok (snd (end_source_until handler new_v4 t late a sv))"
proof -
  have st: "service_ok (set_store st sv)"
    if "fail_source (sv_state_store sv) (sv_epoch sv) a t = (x, st)" for x st
    using fail_source_ok [OF holding_store [OF ok], of "sv_epoch sv" a t] that
    by (intro service_ok_store [OF ok]) simp
  show ?thesis
    unfolding end_source_until_def Let_def
    by (auto split: prod.splits sum.splits intro!: end_routes_ok st)
qed

lemma end_sources_ok: "service_ok sv \<Longrightarrow> service_ok (snd (end_sources handler new_v4 t late as sv))"
proof (induction as arbitrary: sv)
  case (Cons a as)
  from Cons.IH [OF end_source_until_ok [OF Cons.prems]] show ?case
    by (simp add: Let_def case_prod_beta)
qed simp

lemma service_drain_ok:
  assumes "service_ok sv"
  shows "service_ok (snd (service_drain handler new_v4 t late drained overdue sv))"
proof -
  let ?ended = "end_sources handler new_v4 t late (service_authorities (service_begin_drain sv))
    (service_begin_drain sv)"
  have "service_ok (snd ?ended)" using assms by (intro end_sources_ok) simp
  then have "service_ok ((snd ?ended)\<lparr>sv_capacity := sv_capacity (snd ?ended) + held_permits (sv_routes (snd ?ended)),
      sv_routes := [], sv_terminal_routes := []\<rparr>)"
    by (simp add: service_holding_def cells_ok_def)
  then show ?thesis
    unfolding service_drain_def Let_def by (auto split: prod.splits option.splits sum.splits if_splits)
qed

section \<open>Sequences of operations\<close>

datatype ServiceCall =
  Execute wire "PrivateEgressCommand \<Rightarrow> bytes option" "bytes \<Rightarrow> 256 word" handler uuid clock_readings
    PrivateEgressRouteAuthority PrivateEgressCommand millis
| RecordLifecycle time millis PrivateEgressRouteAuthority PrivateEgressLifecycleEvent
| AcknowledgeLifecycle PrivateEgressRouteAuthority PrivateEgressLifecycleAck
| EndSource handler "PrivateEgressRouteKey \<Rightarrow> uuid" millis "PrivateEgressRouteKey \<Rightarrow> bool"
    PrivateEgressRouteAuthority
| Drain handler "PrivateEgressRouteKey \<Rightarrow> uuid" millis "PrivateEgressRouteKey \<Rightarrow> bool"
    "(PrivateEgressError, unit) result" bool

fun service_call :: "PrivateEgressCommandService \<Rightarrow> ServiceCall \<Rightarrow> PrivateEgressCommandService" where
  "service_call sv (Execute w to_vec sha h v ck a c now) =
     snd (service_execute w to_vec sha h v ck a c now sv)"
| "service_call sv (RecordLifecycle now t a ev) = snd (record_lifecycle now t a ev sv)"
| "service_call sv (AcknowledgeLifecycle a ack) = snd (acknowledge_lifecycle a ack sv)"
| "service_call sv (EndSource h v t late a) = snd (end_source_until h v t late a sv)"
| "service_call sv (Drain h v t late drained overdue) = snd (service_drain h v t late drained overdue sv)"

definition service_run :: "PrivateEgressCommandService \<Rightarrow> ServiceCall list \<Rightarrow> PrivateEgressCommandService" where
  "service_run sv calls = foldl service_call sv calls"

lemma service_run_simps [simp]:
  "service_run sv [] = sv" "service_run sv (c # cs) = service_run (service_call sv c) cs"
  by (simp_all add: service_run_def)

lemma service_call_ok: "service_ok sv \<Longrightarrow> service_ok (service_call sv c)"
  by (cases c)
    (simp_all add: service_execute_ok record_lifecycle_ok acknowledge_lifecycle_ok end_source_until_ok
      service_drain_ok)

lemma service_run_ok: "service_ok sv \<Longrightarrow> service_ok (service_run sv cs)"
  by (induction cs arbitrary: sv) (simp_all add: service_call_ok)

lemma service_build_ok: "store_ok st \<Longrightarrow> service_ok (service_build config epoch st)"
  by (simp add: service_build_def service_holding_def cells_ok_def)

lemma service_new_ok:
  assumes "service_new v t config = Inr sv"
  shows "service_ok sv"
proof -
  obtain st where st: "MemoryPrivateEgressStateStore_new (cfg_max_replay_entries config) (cfg_replay_ttl config) = Inr st"
    "sv = service_build config (epoch_standalone v) (snd (activate st (epoch_standalone v) t))"
    using assms by (auto simp: service_new_def result_simps)
  have "store_ok (begun st (epoch_standalone v) t)" using new_store_ok [OF st(1)] by (rule begin_epoch_ok)
  then have "store_ok (snd (activate st (epoch_standalone v) t))"
    by (simp add: begin_epoch_def case_prod_beta)
  then show ?thesis using st(2) service_build_ok by simp
qed

end
