(* ===== verification/Egress_Trace.thy ===== *)
theory Egress_Trace
  imports Egress_Capacity
begin

text \<open>
  What one operation of the command service does to the parts of its state that the capacity
  invariant does not speak of: it changes the shared store only through calls of the store, it
  changes the replay entries only in \<open>execute\<close>, and it hands a command to the handler only when the
  store has acquired that command.
\<close>

section \<open>Traces of store calls\<close>

text \<open>\<open>st'\<close> is reached from \<open>st\<close> by calls whose times lie in the period.\<close>

definition store_trace :: "millis \<Rightarrow> millis \<Rightarrow> store \<Rightarrow> store \<Rightarrow> bool" where
  "store_trace since period st st' \<longleftrightarrow>
     (\<exists>cs. st' = egress_run st cs \<and> (\<forall>c \<in> set cs. in_window since period c))"

lemma egress_run_append: "egress_run st (cs @ ds) = egress_run (egress_run st cs) ds"
  by (simp add: egress_run_def)

lemma store_trace_refl [simp]: "store_trace since period st st"
  unfolding store_trace_def by (rule exI [of _ "[]"]) simp

lemma store_trace_trans:
  assumes "store_trace since period st st1" "store_trace since period st1 st2"
  shows "store_trace since period st st2"
proof -
  obtain cs where cs: "st1 = egress_run st cs" "\<forall>c \<in> set cs. in_window since period c"
    using assms(1) unfolding store_trace_def by blast
  obtain ds where ds: "st2 = egress_run st1 ds" "\<forall>c \<in> set ds. in_window since period c"
    using assms(2) unfolding store_trace_def by blast
  show ?thesis
    unfolding store_trace_def using cs ds by (intro exI [of _ "cs @ ds"]) (auto simp: egress_run_append)
qed

lemma store_trace_call:
  "in_window since period c \<Longrightarrow> store_trace since period st (snd (egress_call st c))"
  unfolding store_trace_def by (rule exI [of _ "[c]"]) simp

definition in_period :: "millis \<Rightarrow> millis \<Rightarrow> millis \<Rightarrow> bool" where
  "in_period since period t \<longleftrightarrow> since \<le> t \<and> t < since + period"

lemma trace_steps:
  "claim_route_transition st e k i x n = (a, st') \<Longrightarrow> store_trace since period st st'"
  "abort_route_transition st e k i = (a, st') \<Longrightarrow> store_trace since period st st'"
  "complete_route_recovery st e k = (a, st') \<Longrightarrow> store_trace since period st st'"
  "ack_lifecycle st e k i q = (b, st') \<Longrightarrow> store_trace since period st st'"
  using store_trace_call [of since period "ClaimRouteTransition e k i x n" st]
    store_trace_call [of since period "AbortRouteTransition e k i" st]
    store_trace_call [of since period "CompleteRouteRecovery e k" st]
    store_trace_call [of since period "AckLifecycle e k i q" st]
  by (simp_all add: in_window_def)

lemma timed_trace_steps:
  assumes "in_period since period t"
  shows "claim_command st e i d t = (a, st') \<Longrightarrow> store_trace since period st st'"
    and "complete_command st e i d r t = (b, st') \<Longrightarrow> store_trace since period st st'"
    and "complete_route_transition st e k i n t = (b, st') \<Longrightarrow> store_trace since period st st'"
    and "append_lifecycle st e k ev t = (c, st') \<Longrightarrow> store_trace since period st st'"
    and "fail_source st e au t = (x, st') \<Longrightarrow> store_trace since period st st'"
    and "begin_epoch st e t = (y, st') \<Longrightarrow> store_trace since period st st'"
  using assms store_trace_call [of since period "ClaimCommand e i d t" st]
    store_trace_call [of since period "CompleteCommand e i d r t" st]
    store_trace_call [of since period "CompleteRouteTransition e k i n t" st]
    store_trace_call [of since period "AppendLifecycle e k ev t" st]
    store_trace_call [of since period "FailSource e au t" st]
    store_trace_call [of since period "BeginEpoch e t" st]
  by (simp_all add: in_window_def in_period_def)

section \<open>What an operation keeps\<close>

text \<open>
  The configuration, the epoch and the replay entries stay, and the store is reached by calls in the
  period.
\<close>

definition kept ::
    "millis \<Rightarrow> millis \<Rightarrow> PrivateEgressCommandService \<Rightarrow> PrivateEgressCommandService \<Rightarrow> bool" where
  "kept since period sv sv' \<longleftrightarrow>
     sv_config sv' = sv_config sv \<and> sv_epoch sv' = sv_epoch sv \<and> sv_replay sv' = sv_replay sv \<and>
     store_trace since period (sv_state_store sv) (sv_state_store sv')"

lemma kept_refl [simp]: "kept since period sv sv"
  by (simp add: kept_def)

lemma kept_trans: "kept since period sv sv1 \<Longrightarrow> kept since period sv1 sv2 \<Longrightarrow> kept since period sv sv2"
  by (auto simp: kept_def intro: store_trace_trans)

lemma kept_store:
  "kept since period sv sv1 \<Longrightarrow> store_trace since period (sv_state_store sv1) st \<Longrightarrow>
     kept since period sv (set_store st sv1)"
  by (auto simp: kept_def intro: store_trace_trans)

lemma sweep_terminal_routes_sel [simp]:
  "sv_config (sweep_terminal_routes now sv) = sv_config sv"
  "sv_epoch (sweep_terminal_routes now sv) = sv_epoch sv"
  "sv_replay (sweep_terminal_routes now sv) = sv_replay sv"
  "sv_state_store (sweep_terminal_routes now sv) = sv_state_store sv"
  "sv_invoked (sweep_terminal_routes now sv) = sv_invoked sv"
  "sv_draining (sweep_terminal_routes now sv) = sv_draining sv"
  by (simp_all add: sweep_terminal_routes_def case_prod_beta)

lemma retain_terminal_route_sel [simp]:
  "sv_config (retain_terminal_route now k c sv) = sv_config sv"
  "sv_epoch (retain_terminal_route now k c sv) = sv_epoch sv"
  "sv_replay (retain_terminal_route now k c sv) = sv_replay sv"
  "sv_state_store (retain_terminal_route now k c sv) = sv_state_store sv"
  "sv_invoked (retain_terminal_route now k c sv) = sv_invoked sv"
  by (simp_all add: retain_terminal_route_def)

lemma remove_empty_route_cell_sel [simp]:
  "sv_config (remove_empty_route_cell k c sv) = sv_config sv"
  "sv_epoch (remove_empty_route_cell k c sv) = sv_epoch sv"
  "sv_replay (remove_empty_route_cell k c sv) = sv_replay sv"
  "sv_state_store (remove_empty_route_cell k c sv) = sv_state_store sv"
  "sv_invoked (remove_empty_route_cell k c sv) = sv_invoked sv"
  by (auto simp: remove_empty_route_cell_def split: option.splits)

lemma kept_local [simp]:
  "kept since period sv (release_permit b sv1) \<longleftrightarrow> kept since period sv sv1"
  "kept since period sv (service_begin_drain sv1) \<longleftrightarrow> kept since period sv sv1"
  "kept since period sv (set_cell k c x sv1) \<longleftrightarrow> kept since period sv sv1"
  "kept since period sv (remove_empty_route_cell k c sv1) \<longleftrightarrow> kept since period sv sv1"
  "kept since period sv (retain_terminal_route now k c sv1) \<longleftrightarrow> kept since period sv sv1"
  "kept since period sv (sweep_terminal_routes now sv1) \<longleftrightarrow> kept since period sv sv1"
  "kept since period sv (sv1\<lparr>sv_invoked := cs\<rparr>) \<longleftrightarrow> kept since period sv sv1"
  "kept since period sv (sv1\<lparr>sv_observed := es\<rparr>) \<longleftrightarrow> kept since period sv sv1"
  "kept since period sv (sv1\<lparr>sv_capacity := n\<rparr>) \<longleftrightarrow> kept since period sv sv1"
  "kept since period sv (sv1\<lparr>sv_next_cell := n\<rparr>) \<longleftrightarrow> kept since period sv sv1"
  "kept since period sv (sv1\<lparr>sv_routes := m\<rparr>) \<longleftrightarrow> kept since period sv sv1"
  "kept since period sv (sv1\<lparr>sv_terminal_routes := ts\<rparr>) \<longleftrightarrow> kept since period sv sv1"
  by (simp_all add: kept_def)

lemma finish_transition_kept:
  "kept since period sv (snd (finish_transition c key cell x y ext now sv))"
  unfolding finish_transition_def Let_def
  by (auto split: PrivateEgressOperation.splits prod.splits)

lemma run_handler_kept:
  assumes "in_period since period (ck_transition ck)"
  shows "kept since period sv (snd (run_handler handler v ck a c key cell x y sv))"
proof -
  have fin: "kept since period sv
      (snd (finish_transition c key cell x y ext now (set_store st (sv\<lparr>sv_invoked := cs\<rparr>))))"
    if "store_trace since period (sv_state_store sv) st" for st ext now cs
    using that by (intro kept_trans [OF _ finish_transition_kept] kept_store) auto
  show ?thesis
    unfolding run_handler_def Let_def using assms
    by (auto split: HandlerOutcome.splits prod.splits sum.splits
        intro!: kept_store fin intro: trace_steps timed_trace_steps)
qed

lemma route_entry_kept:
  "route_entry p key sv = Some (cell, sv1) \<Longrightarrow> kept since period sv sv1"
  by (auto simp: route_entry_def split: option.splits if_splits prod.splits)

lemma execute_once_kept:
  assumes "in_period since period (ck_transition ck)"
  shows "kept since period sv (snd (execute_once handler v ck a c sv))"
proof -
  let ?key = "PrivateEgressRouteKey_new (cmd_worker c) (cmd_source c) (cmd_target c)"
  let ?p = "is_prepare (cmd_operation c)"
  show ?thesis
  proof (cases "route_entry ?p ?key sv")
    case None
    then show ?thesis
      unfolding execute_once_def Let_def route_entry_def [symmetric]
      by (auto split: prod.splits sum.splits)
  next
    case (Some e)
    obtain cell sv1 where e: "e = (cell, sv1)" by (cases e)
    have sv1: "kept since period sv sv1" using route_entry_kept Some e by simp
    have run: "kept since period sv (snd (run_handler handler v ck a c key cl x y sv2))"
      if "kept since period sv sv2" for key cl x y sv2
      by (rule kept_trans [OF that run_handler_kept [OF assms]])
    show ?thesis
      unfolding execute_once_def Let_def route_entry_def [symmetric] Some e
      using sv1
      by (auto split: prod.splits sum.splits intro!: kept_store run intro: trace_steps)
  qed
qed

section \<open>What is handed to the handler\<close>

definition invocations :: "uuid \<Rightarrow> PrivateEgressCommandService \<Rightarrow> nat" where
  "invocations i sv = length (filter (\<lambda>c. cmd_command_id c = i) (sv_invoked sv))"

text \<open>The guards of \<open>execute_once\<close>: no Prepare while draining, a live epoch and a legal transition.\<close>

definition admitted_by :: "PrivateEgressCommandService \<Rightarrow> PrivateEgressCommand \<Rightarrow> bool" where
  "admitted_by sv c \<longleftrightarrow>
     \<not> (sv_draining sv \<and> is_prepare (cmd_operation c)) \<and>
     epoch_of (sv_state_store sv) (ge_gateway_id (sv_epoch sv)) = Some (ge_instance_id (sv_epoch sv)) \<and>
     (\<exists>x. expected_state (cmd_operation c)
        (case map_of (sv_routes sv)
           (PrivateEgressRouteKey_new (cmd_worker c) (cmd_source c) (cmd_target c)) of
           None \<Rightarrow> None | Some (_, content) \<Rightarrow> content) = Inr x)"

text \<open>A command was handed over, and after it at most the End command that cleans up its route.\<close>

definition handed_over ::
    "uuid \<Rightarrow> PrivateEgressCommand \<Rightarrow> PrivateEgressCommandService \<Rightarrow> PrivateEgressCommandService \<Rightarrow> bool" where
  "handed_over v c sv sv' \<longleftrightarrow>
     sv_invoked sv' = sv_invoked sv @ [c] \<or>
     (\<exists>t. sv_invoked sv' = sv_invoked sv @
        [c, end_command v t (cmd_worker c) (cmd_source c) (cmd_target c) PrivateEgressEndReason.Failed])"

lemma finish_transition_invoked [simp]:
  "sv_invoked (snd (finish_transition c key cell x y ext now sv)) = sv_invoked sv"
  unfolding finish_transition_def Let_def
  by (auto split: PrivateEgressOperation.splits prod.splits)

lemma run_handler_invoked: "handed_over v c sv (snd (run_handler handler v ck a c key cell x y sv))"
  unfolding run_handler_def Let_def handed_over_def
  by (auto split: HandlerOutcome.splits prod.splits sum.splits)

lemma route_entry_content:
  assumes "route_entry p key sv = Some (cell, sv1)"
  shows "cell_content sv1 key cell =
      (case map_of (sv_routes sv) key of None \<Rightarrow> None | Some (_, content) \<Rightarrow> content)"
    and "sv_invoked sv1 = sv_invoked sv"
  using assms by (auto simp: route_entry_def cell_content_def split: option.splits if_splits prod.splits)

lemma execute_once_invoked:
  "sv_invoked (snd (execute_once handler v ck a c sv)) = sv_invoked sv \<or>
   (admitted_by sv c \<and> handed_over v c sv (snd (execute_once handler v ck a c sv)))"
proof -
  let ?key = "PrivateEgressRouteKey_new (cmd_worker c) (cmd_source c) (cmd_target c)"
  let ?p = "is_prepare (cmd_operation c)"
  show ?thesis
  proof (cases "route_entry ?p ?key sv")
    case None
    then show ?thesis
      unfolding execute_once_def Let_def route_entry_def [symmetric]
      by (auto split: prod.splits sum.splits)
  next
    case (Some e)
    obtain cell sv1 where e: "e = (cell, sv1)" by (cases e)
    note content = route_entry_content [OF Some [unfolded e]]
    have run: "handed_over v c sv (snd (run_handler handler v ck a c ?key cell x y sv2))"
      if "sv_invoked sv2 = sv_invoked sv" for x y sv2
      using run_handler_invoked [of v c sv2 handler ck a ?key cell x y] that by (simp add: handed_over_def)
    show ?thesis
    proof (cases "admitted_by sv c")
      case True
      then show ?thesis
        unfolding execute_once_def Let_def route_entry_def [symmetric] Some e
        using content(2) by (auto split: prod.splits sum.splits intro!: run)
    next
      case False
      then show ?thesis
        unfolding execute_once_def Let_def route_entry_def [symmetric] Some e
        using content
        by (auto simp: admitted_by_def assert_epoch_def split: prod.splits sum.splits if_splits)
    qed
  qed
qed

section \<open>Executing a command\<close>

text \<open>
  The entries of other commands stay; the configuration and the epoch stay; the store is reached by
  calls in the period.
\<close>

definition entry_of :: "uuid \<Rightarrow> PrivateEgressCommandService \<Rightarrow> ReplayRecord option" where
  "entry_of i sv = map_of (rs_entries (sv_replay sv)) i"

definition executed ::
    "millis \<Rightarrow> millis \<Rightarrow> uuid \<Rightarrow> PrivateEgressCommandService \<Rightarrow> PrivateEgressCommandService \<Rightarrow> bool" where
  "executed since period i sv sv' \<longleftrightarrow>
     sv_config sv' = sv_config sv \<and> sv_epoch sv' = sv_epoch sv \<and>
     (\<forall>j. j \<noteq> i \<longrightarrow> entry_of j sv' = entry_of j sv) \<and>
     store_trace since period (sv_state_store sv) (sv_state_store sv')"

lemma executed_kept: "kept since period sv sv' \<Longrightarrow> executed since period i sv sv'"
  by (simp add: kept_def executed_def entry_of_def)

lemma executed_trans:
  "executed since period i sv sv1 \<Longrightarrow> executed since period i sv1 sv2 \<Longrightarrow> executed since period i sv sv2"
  by (auto simp: executed_def intro: store_trace_trans)

lemma executed_store:
  "executed since period i sv sv1 \<Longrightarrow> store_trace since period (sv_state_store sv1) st \<Longrightarrow>
     executed since period i sv (set_store st sv1)"
  by (auto simp: executed_def entry_of_def intro: store_trace_trans)

lemma executed_drain [simp]:
  "executed since period i sv (service_begin_drain sv1) \<longleftrightarrow> executed since period i sv sv1"
  by (simp add: executed_def entry_of_def)

lemma record_response_effect:
  assumes "record_response i r q sv = Some sv'"
  shows "executed since period i sv sv'" "sv_invoked sv' = sv_invoked sv"
    "sv_state_store sv' = sv_state_store sv"
    "entry_of i sv' = map_option (\<lambda>x. x\<lparr>rp_response := Some r\<rparr>) (entry_of i sv)"
  using assms
  by (auto simp: record_response_def set_replay_def executed_def entry_of_def Let_def
      split: option.splits if_splits)

lemma record_response_None: "record_response i r q sv = None \<longleftrightarrow> entry_of i sv = None"
  by (auto simp: record_response_def entry_of_def Let_def split: option.splits)

lemma executed_recorded:
  "record_response i r q sv1 = Some sv2 \<Longrightarrow> executed since period i sv sv1 \<Longrightarrow> executed since period i sv sv2"
  by (rule executed_trans [OF _ record_response_effect(1)])

text \<open>
  The part of \<open>execute\<close> behind the durable claim: what it keeps, when it reaches the handler, and
  what it leaves in the replay entry of its command.
\<close>

lemma execute_claimed_executed:
  assumes "in_period since period now" "in_period since period (ck_transition ck)"
    "in_period since period (ck_completed ck)"
  shows "executed since period (cmd_command_id c) sv (snd (execute_claimed handler v ck a c d now sv))"
proof -
  let ?i = "cmd_command_id c"
  obtain claim st where cl: "claim_command (sv_state_store sv) (sv_epoch sv) ?i d now = (claim, st)"
    by fastforce
  have st: "executed since period ?i sv (set_store st sv)"
    using timed_trace_steps(1) [OF assms(1) cl] by (intro executed_store executed_kept) auto
  obtain result sv1 where ex: "execute_once handler v ck a c (set_store st sv) = (result, sv1)"
    by fastforce
  have sv1: "executed since period ?i sv sv1"
    using executed_trans [OF st executed_kept [OF execute_once_kept [OF assms(2)]]] ex
    by (metis snd_conv)
  have complete: "executed since period ?i sv (set_store st2 sv1)"
    if "complete_command (sv_state_store sv1) (sv_epoch sv1) ?i d r (ck_completed ck) = (x, st2)" for r x st2
    using timed_trace_steps(2) [OF assms(3) that] by (rule executed_store [OF sv1])
  have deleted: "executed since period ?i sv ((set_store st sv)\<lparr>sv_replay := (sv_replay sv)\<lparr>rs_entries :=
      AList.delete ?i (rs_entries (sv_replay sv))\<rparr>\<rparr>)"
    using st by (simp add: executed_def entry_of_def)
  show ?thesis
    unfolding execute_claimed_def Let_def cl using ex st sv1 deleted complete
    by (auto split: sum.splits PrivateEgressCommandClaim.splits option.splits prod.splits
        elim!: executed_recorded)
qed

lemma admitted_by_claim:
  "admitted_by (set_store (snd (claim_command (sv_state_store sv) e i d t)) sv) c = admitted_by sv c"
  using epoch_step [of "sv_state_store sv" "ClaimCommand e i d t"] by (simp add: admitted_by_def)

lemma record_response_invoked:
  "record_response i r q sv1 = Some sv2 \<Longrightarrow> sv_invoked sv1 = cs \<Longrightarrow> sv_invoked sv2 = cs"
  using record_response_effect(2) by metis

lemma record_response_store:
  "record_response i r q sv1 = Some sv2 \<Longrightarrow> store_trace since period st (sv_state_store sv1) \<Longrightarrow>
     store_trace since period st (sv_state_store sv2)"
  using record_response_effect(3) by metis

lemma execute_claimed_invoked:
  assumes "in_period since period (ck_transition ck)" "in_period since period (ck_completed ck)"
    and "sv' = snd (execute_claimed handler v ck a c d now sv)"
    and "claim_command (sv_state_store sv) (sv_epoch sv) (cmd_command_id c) d now = (claim, st)"
  shows "sv_invoked sv' = sv_invoked sv \<or>
    (claim = Inr Acquired \<and> admitted_by sv c \<and> handed_over v c sv sv' \<and>
     store_trace since period st (sv_state_store sv'))"
proof (cases "claim = Inr Acquired")
  case False
  then show ?thesis
    unfolding assms(3) execute_claimed_def Let_def assms(4)
    by (auto split: sum.splits PrivateEgressCommandClaim.splits option.splits
        dest: record_response_invoked [OF _ refl])
next
  case True
  obtain result sv1 where ex: "execute_once handler v ck a c (set_store st sv) = (result, sv1)"
    by fastforce
  have adm: "admitted_by (set_store st sv) c = admitted_by sv c"
    using admitted_by_claim [of sv "sv_epoch sv" "cmd_command_id c" d now c] assms(4) by simp
  have inv: "sv_invoked sv' = sv_invoked sv1"
    unfolding assms(3) execute_claimed_def Let_def assms(4) using True ex
    by (auto split: sum.splits option.splits prod.splits dest: record_response_invoked [OF _ refl])
  have tr1: "store_trace since period st (sv_state_store sv1)"
    using execute_once_kept [OF assms(1), of "set_store st sv" handler v a c] ex by (simp add: kept_def)
  have tr2: "store_trace since period st st2"
    if "complete_command (sv_state_store sv1) (sv_epoch sv1) i d r (ck_completed ck) = (x, st2)" for i r x st2
    using store_trace_trans [OF tr1 timed_trace_steps(2) [OF assms(2) that]] .
  have trace: "store_trace since period st (sv_state_store sv')"
    unfolding assms(3) execute_claimed_def Let_def assms(4) using True ex tr1 tr2
    by (auto split: sum.splits option.splits prod.splits elim!: record_response_store)
  show ?thesis
    using execute_once_invoked [of handler v ck a c "set_store st sv"] ex adm inv trace True
    by (auto simp: handed_over_def)
qed

lemma execute_claimed_answer:
  assumes "execute_claimed handler v ck a c d now sv = (Inr r, sv')"
    and "entry_of (cmd_command_id c) sv = Some x"
  obtains r0 where "entry_of (cmd_command_id c) sv' = Some (x\<lparr>rp_response := Some r0\<rparr>)"
    "r0\<lparr>resp_replayed := True\<rparr> = r\<lparr>resp_replayed := True\<rparr>"
proof -
  let ?i = "cmd_command_id c"
  obtain claim st where cl: "claim_command (sv_state_store sv) (sv_epoch sv) ?i d now = (claim, st)"
    by fastforce
  obtain result sv1 where ex: "execute_once handler v ck a c (set_store st sv) = (result, sv1)"
    by fastforce
  have "kept (ck_transition ck) 1 (set_store st sv) sv1"
    using execute_once_kept [of "ck_transition ck" 1 ck "set_store st sv" handler v a c] ex
    by (simp add: in_period_def)
  then have sv1: "entry_of ?i (set_store st2 sv1) = Some x" for st2
    using assms(2) by (simp add: kept_def entry_of_def)
  have st: "entry_of ?i (set_store st sv) = Some x" using assms(2) by (simp add: entry_of_def)
  have "\<exists>r0. entry_of ?i sv' = Some (x\<lparr>rp_response := Some r0\<rparr>) \<and>
    r0\<lparr>resp_replayed := True\<rparr> = r\<lparr>resp_replayed := True\<rparr>"
    using assms(1) ex sv1 st unfolding execute_claimed_def Let_def cl
    by (auto simp: record_response_effect(4)
        split: sum.splits PrivateEgressCommandClaim.splits option.splits prod.splits)
  then show thesis using that by blast
qed

end
