(* ===== verification/Egress_Redelivery.thy ===== *)
theory Egress_Redelivery
  imports Egress_Worker
begin

text \<open>
  Redelivery of lifecycle events after lost acknowledgements: a worker that took some of the events
  of a route answers the ones it remembers as repetitions and takes the remaining ones as new, so
  that a redelivery of what the gateway still holds completes the delivery of the route.
\<close>

declare map_of_eq_Some_iff [simp del]

section \<open>Answers of the worker\<close>

text \<open>Every delivery is answered, by taking the event as new or by recognising it.\<close>

fun answered :: "nat \<Rightarrow> receipts \<Rightarrow> lifecycle_delivery list \<Rightarrow> bool" where
  "answered cap rs [] = True"
| "answered cap rs ((ev, now, stamp) # ds) \<longleftrightarrow>
     is_ok (fst (accept_lifecycle cap rs now stamp ev)) \<and>
     answered cap (snd (accept_lifecycle cap rs now stamp ev)) ds"

lemma accepted_append:
  "accepted cap rs (ds @ ds') = accepted cap rs ds @ accepted cap (receipts_after cap rs ds) ds'"
  by (induction cap rs ds rule: answered.induct) (simp_all add: split_beta)

lemma answered_append:
  "answered cap rs (ds @ ds') \<longleftrightarrow> answered cap rs ds \<and> answered cap (receipts_after cap rs ds) ds'"
  by (induction cap rs ds rule: answered.induct) simp_all

lemma accepted_length: "length (accepted cap rs ds) \<le> length ds"
  by (induction cap rs ds rule: answered.induct) (auto simp: split_beta le_SucI)

lemma all_accepted_answered: "accepted cap rs ds = map fst ds \<Longrightarrow> answered cap rs ds"
proof (induction cap rs ds rule: answered.induct)
  case (2 cap rs ev now stamp ds)
  have "fst (accept_lifecycle cap rs now stamp ev) = Inr True"
  proof (rule ccontr)
    assume "fst (accept_lifecycle cap rs now stamp ev) \<noteq> Inr True"
    then have "length (accepted cap rs ((ev, now, stamp) # ds)) \<le> length ds"
      using accepted_length by (simp add: split_beta)
    then show False using "2.prems" by simp
  qed
  then show ?case using 2 by (simp add: split_beta is_ok_def)
qed simp

text \<open>An event that was taken and is among the last 64 is recognised.\<close>

lemma accept_again:
  assumes log: "log_of K ep log" and rs: "received T K ep log n rs" and n: "n \<le> length log"
    and now: "now < T + RECEIPT_RETENTION" and ev: "ev \<in> set (drop (n - 64) (take n log))"
  shows "fst (accept_lifecycle cap rs now stamp ev) = Inr False"
proof -
  let ?rs = "filter (\<lambda>(_, r). receipt_current now r) rs"
  have ev_log: "ev \<in> set (take n log)" using ev by (rule in_set_dropD)
  then obtain i where i: "i < n" "log ! i = ev" "i < length log" by (auto simp: in_set_conv_nth)
  have ev_in: "ev \<in> set log" using ev_log by (rule in_set_takeD)
  note idx = log_index [OF log ev_in]
  have "map (\<lambda>x. unat (ev_sequence x)) log ! i = Suc i"
    using log i(3) by (simp add: log_of_def del: upt_Suc)
  then have q: "unat (ev_sequence ev) = Suc i" using i(2,3) by simp
  obtain r where r: "map_of rs K = Some r" "rc_gateway_epoch r = ep" "unat (rc_last_sequence r) = n"
      "rc_recent r = map seen_entry (drop (n - 64) (take n log))"
    using rs i(1) by (auto simp: received_def split: option.splits)
  have "n < 2 ^ 64 - 1" using n log by (simp add: log_of_def)
  then have "unat (saturating_succ (rc_last_sequence r)) = Suc n"
    using saturating_succ_nat [of "rc_last_sequence r"] r(3) by simp
  then have "ev_sequence ev \<noteq> saturating_succ (rc_last_sequence r)" using q i(1) by auto
  moreover have "ev_sequence ev \<le> rc_last_sequence r" using q i(1) r(3) by (simp add: word_le_nat_alt)
  moreover have "(ev_sequence ev, ev_event_id ev) \<in> set (rc_recent r)"
    using ev unfolding r(4) by (auto simp: seen_entry_def)
  moreover have "map_of ?rs (receipt_key ev) = Some r" "rc_gateway_epoch r = ev_gateway_epoch ev"
    using received_current(2) [OF rs now] r(1,2) idx(4,5) by simp_all
  ultimately show ?thesis by (simp add: accept_lifecycle_def Let_def list_ex_iff)
qed

lemma repeated_again:
  assumes log: "log_of K ep log" and n: "n \<le> length log"
  shows "received T K ep log n rs \<Longrightarrow> list_all (timely T) ds \<Longrightarrow>
    set (map fst ds) \<subseteq> set (drop (n - 64) (take n log)) \<Longrightarrow>
    accepted cap rs ds = [] \<and> answered cap rs ds \<and> received T K ep log n (receipts_after cap rs ds) \<and>
    length (receipts_after cap rs ds) \<le> length rs"
proof (induction cap rs ds rule: answered.induct)
  case (2 cap rs ev now stamp ds)
  have time: "timely T (ev, now, stamp)" "now < T + RECEIPT_RETENTION"
    using "2.prems"(2) by (simp_all add: timely_def)
  have ev: "ev \<in> set (drop (n - 64) (take n log))" using "2.prems"(3) by simp
  note again = accept_again [OF log "2.prems"(1) n time(2) ev, of cap stamp]
  obtain rs' where acc: "accept_lifecycle cap rs now stamp ev = (Inr False, rs')"
    using again by (cases "accept_lifecycle cap rs now stamp ev") simp
  have "ev \<in> set log" using ev by (meson in_set_dropD in_set_takeD)
  from accept_step [OF log "2.prems"(1) n time(1) this acc] have "received T K ep log n rs'" by simp
  moreover have "length rs' \<le> length rs"
    using acc by (auto simp: accept_lifecycle_def Let_def split: option.splits if_splits)
  ultimately show ?case
    using "2.IH" "2.prems" acc by (auto simp: is_ok_def)
qed simp

lemma redelivered:
  assumes log: "log_of K ep log" and rs: "received T K ep log n rs" and n: "n \<le> length log"
    and time: "list_all (timely T) ds" and room: "n = 0 \<longrightarrow> length rs < cap"
    and ds: "map fst ds = old @ drop n log" "set old \<subseteq> set (drop (n - 64) (take n log))"
  shows "accepted cap rs ds = drop n log \<and> answered cap rs ds"
proof -
  define ds1 ds2 where "ds1 = take (length old) ds" and "ds2 = drop (length old) ds"
  have split: "ds = ds1 @ ds2" "map fst ds1 = old" "map fst ds2 = drop n log"
    using ds(1) by (simp_all add: ds1_def ds2_def take_map [symmetric] drop_map [symmetric])
  have parts: "list_all (timely T) ds1" "list_all (timely T) ds2" using time split(1) by simp_all
  have old: "accepted cap rs ds1 = []" "answered cap rs ds1"
      "received T K ep log n (receipts_after cap rs ds1)" "length (receipts_after cap rs ds1) \<le> length rs"
    using repeated_again [OF log n rs parts(1)] ds(2) split(2) by simp_all
  have "n = 0 \<longrightarrow> length (receipts_after cap rs ds1) < cap" using old(4) room by linarith
  then have "accepted cap (receipts_after cap rs ds1) ds2 = drop n log"
    by (rule accepted_all [OF log old(3) parts(2) split(3)])
  moreover from this have "answered cap (receipts_after cap rs ds1) ds2"
    using split(3) by (intro all_accepted_answered) simp
  ultimately show ?thesis using old(1,2) by (simp add: split(1) accepted_append answered_append)
qed

section \<open>What the gateway still holds\<close>

lemma journal_spec_subset: "set (journal_spec e k c r log) \<subseteq> set log \<union> set (stamped_by e k c r)"
  by (cases "(e, k, c, r, log)" rule: journal_spec.cases) auto

lemma journal_run_subset: "set (journal_run e k st cs log) \<subseteq> set log \<union> set (stamped e k st cs)"
proof (induction cs arbitrary: st log)
  case (Cons c cs)
  show ?case
    using Cons.IH [of "snd (egress_call st c)" "journal_spec e k c (fst (egress_call st c)) log"]
      journal_spec_subset [of e k c "fst (egress_call st c)" log]
    by auto
qed simp

lemma unacked_of_fresh:
  assumes "store_ok st" "next_of (ge_gateway_id e) k st = 0"
  shows "unacked_of e k st = []"
proof (rule ccontr)
  assume "unacked_of e k st \<noteq> []"
  then obtain ev where ev: "ev \<in> set (unacked_of e k st)" by (cases "unacked_of e k st") auto
  from unacked_events(3,4) [OF assms(1) ev] assms(2) show False by (auto simp: next_of_def)
qed

lemma sorted_sublist:
  fixes f :: "'a \<Rightarrow> 'b :: linorder"
  assumes "sorted_wrt (<) (map f xs)" "sorted_wrt (<) (map f ys)" "set xs \<subseteq> set ys"
  shows "xs = filter (\<lambda>y. y \<in> set xs) ys"
proof -
  let ?zs = "filter (\<lambda>y. y \<in> set xs) ys"
  have zs: "set ?zs = set xs" using assms(3) by auto
  have "sorted_wrt (<) (map f ?zs)" using assms(2) by (simp add: sorted_wrt_map sorted_wrt_filter)
  then have "map f xs = map f ?zs" using strict_sorted_equal [OF _ assms(1)] zs by (simp add: assms(1))
  moreover have "inj_on f (set ys)" using assms(2) by (simp add: strict_sorted_iff distinct_map)
  then have "inj_on f (set xs \<union> set ?zs)" using assms(3) zs by (auto intro: inj_on_subset)
  ultimately show ?thesis by (rule map_inj_on)
qed

text \<open>What a gateway instance that started the numbering of a route still holds of its events.\<close>

lemma unacked_of_stamped:
  assumes ok: "store_ok st" and act: "epoch_of st (ge_gateway_id e) = Some (ge_instance_id e)"
    and calls: "undisturbed e k st calls" and fresh: "next_of (ge_gateway_id e) k st = 0"
  shows "unacked_of e k (egress_run st calls) =
    filter (\<lambda>ev. ev \<in> set (unacked_of e k (egress_run st calls))) (stamped e k st calls)"
proof (rule sorted_sublist)
  show "sorted_wrt (<) (map ev_sequence (unacked_of e k (egress_run st calls)))"
    by (rule unacked_sorted [OF egress_run_ok [OF ok]])
  have "sorted_wrt (<) (map (\<lambda>x. unat (ev_sequence x)) (stamped e k st calls))"
    using stamped_numbered [OF ok act calls] by (simp del: upt_Suc)
  then show "sorted_wrt (<) (map ev_sequence (stamped e k st calls))"
    by (simp add: sorted_wrt_map word_less_nat_alt)
  show "set (unacked_of e k (egress_run st calls)) \<subseteq> set (stamped e k st calls)"
    using unacked_run [OF ok act calls] journal_run_subset [of e k st calls "unacked_of e k st"]
      unacked_of_fresh [OF ok fresh] by simp
qed

end
