(* ===== verification/Egress_Properties.thy ===== *)
theory Egress_Properties
  imports Egress_Redelivery
begin

text \<open>
  The properties of the private egress protocol: of the gateway's state store across arbitrary
  sequences of calls, of the worker's receipts, and of the two together.
\<close>

section \<open>A concrete route\<close>

text \<open>One gateway with two instances, a route of one call, and a store of four entries per map that
  keeps completed records for five milliseconds.\<close>

definition sample_lease :: WorkerLease where
  "sample_lease = \<lparr>lease_worker_id = WorkerId 21, lease_fence = WorkerFence 9\<rparr>"

definition sample_source :: PrivateEgressSource where
  "sample_source =
     \<lparr>src_tenant_id = TenantId [116], src_call_id = CallId 5, src_leg_id = LegId 6,
      src_binding_generation = BindingGeneration 1\<rparr>"

definition sample_target :: PrivateEgressTarget where
  "sample_target = \<lparr>tgt_leg_id = LegId 7, tgt_binding_generation = BindingGeneration 1\<rparr>"

definition sample_key :: PrivateEgressRouteKey where
  "sample_key = PrivateEgressRouteKey_new sample_lease sample_source sample_target"

definition first_instance :: PrivateEgressGatewayEpoch where
  "first_instance = \<lparr>ge_gateway_id = [103], ge_instance_id = 1\<rparr>"

definition second_instance :: PrivateEgressGatewayEpoch where
  "second_instance = \<lparr>ge_gateway_id = [103], ge_instance_id = 2\<rparr>"

definition sample_egress_store :: store where
  "sample_egress_store =
     \<lparr>st_max_entries = 4, st_ttl = 5000000, st_state = egress_state_default\<rparr>"

definition sample_event_of :: "uuid \<Rightarrow> PrivateEgressLifecycleState \<Rightarrow> PrivateEgressLifecycleEvent" where
  "sample_event_of i s =
     \<lparr>ev_version = PROTOCOL_VERSION, ev_event_id = i, ev_worker = sample_lease,
      ev_source = sample_source, ev_target = sample_target, ev_gateway_epoch = 0, ev_sequence = 0,
      ev_kind = State s None\<rparr>"

text \<open>A route is prepared, becomes active and ends, and two events of it are journaled.\<close>

definition sample_setup :: "EgressCall list" where
  "sample_setup =
     [BeginEpoch first_instance 10,
      ClaimRouteTransition first_instance sample_key 40 None Prepared,
      CompleteRouteTransition first_instance sample_key 40 Prepared 11]"

definition sample_journal :: "EgressCall list" where
  "sample_journal =
     [AppendLifecycle first_instance sample_key
        (sample_event_of 51 PrivateEgressLifecycleState.Active) 12,
      AppendLifecycle first_instance sample_key
        (sample_event_of 52 PrivateEgressLifecycleState.Ended) 13]"

lemma sample_store_new:
  "MemoryPrivateEgressStateStore_new 4 5000000 = Inr sample_egress_store"
  by (simp add: MemoryPrivateEgressStateStore_new_def sample_egress_store_def)

lemma sample_ttl: "ttl_ms sample_egress_store = 5"
  by (simp add: ttl_ms_def sample_egress_store_def as_millis_def I64_MAX_def)

lemmas sample_defs =
  sample_egress_store_def egress_state_default_def first_instance_def second_instance_def
  sample_setup_def sample_journal_def

lemmas egress_eval =
  begin_epoch_def activate_def begin_epoch_locked_def claim_command_def complete_command_def
  claim_route_transition_def complete_route_transition_def append_lifecycle_def append_to_route_def
  ack_lifecycle_def unacked_lifecycle_def unacked_record_def ensure_epoch_def Let_def
  set_route_def set_command_def set_journal_def egress_is_terminal_def sweep_locked_def
  expired_route_def keep_command_def drop_route_def ttl_ms_def as_millis_def I64_MAX_def I64_MIN_def
  sat_i64_def route_live_def fence_route_def fence_command_def

lemma sample_ready:
  "egress_run sample_egress_store sample_setup =
     \<lparr>st_max_entries = 4, st_ttl = 5000000,
      st_state =
        \<lparr>es_active_epochs = [([103], 1)], es_commands = [],
         es_routes =
           [(([103], sample_key),
             \<lparr>rr_epoch = 1, rr_state = Some Prepared, rr_pending = None,
              rr_next_lifecycle_sequence = 0, rr_tombstoned_at_ms = None,
              rr_recovery_required = False\<rparr>)],
         es_lifecycle = []\<rparr>\<rparr>"
  by (simp add: sample_defs egress_eval)

lemma ttl_ms_claim [simp]: "ttl_ms (snd (claim_command st e i d t)) = ttl_ms st"
  using ttl_ms_call [of st "ClaimCommand e i d t"] by simp

lemma ttl_ms_complete [simp]: "ttl_ms (snd (complete_command st e i d r t)) = ttl_ms st"
  using ttl_ms_call [of st "CompleteCommand e i d r t"] by simp

section \<open>Properties of the store\<close>

text \<open>
  C20: every store that any sequence of calls produces from a new one satisfies the invariant:
  bounded maps, commands of the active epoch, tombstones exactly on terminal routes, live routes only
  under the active instance, and a journal whose records belong to stored routes of their epoch and
  carry distinct sequences that the route has issued.
\<close>

theorem egress_store_invariant:
  assumes "MemoryPrivateEgressStateStore_new max_entries ttl = Inr st"
  shows "store_ok (egress_run st calls)"
  using new_store_ok [OF assms] by (rule egress_run_ok)

theorem egress_store_invariant_witness:
  "store_ok (egress_run sample_egress_store (sample_setup @ sample_journal))"
  by (rule egress_store_invariant [OF sample_store_new])

text \<open>
  C21: a superseded gateway instance is fenced for good. Once another instance of the gateway has
  begun, every call of the old instance is answered with DeadEpoch and changes nothing, whatever
  calls were made in between, unless the old instance itself begins again.
\<close>

theorem superseded_instance_is_fenced:
  assumes "MemoryPrivateEgressStateStore_new max_entries ttl = Inr st0"
    and "supersedes e (BeginEpoch e' t)"
    and "\<forall>c \<in> set later. \<not> (begins_epoch c \<and> call_epoch c = e)"
    and "call_epoch c = e" "\<not> begins_epoch c"
    and "st = egress_run st0 (earlier @ BeginEpoch e' t # later)"
  shows "reply_error (fst (egress_call st c)) = Some DeadEpoch \<and> snd (egress_call st c) = st"
proof -
  let ?st1 = "snd (egress_call (egress_run st0 earlier) (BeginEpoch e' t))"
  have ok: "store_ok ?st1" using assms(1) new_store_ok egress_run_ok egress_call_ok by blast
  have "superseded e ?st1" using assms(2) by (simp add: superseded_def)
  then have "superseded e (egress_run ?st1 later)"
    using assms(3) by (intro fenced.run [OF ok]) (auto simp: not_revived_def)
  then have "superseded e st" using assms(6) by simp
  then show ?thesis by (rule superseded_call [OF _ assms(4,5)])
qed

theorem superseded_instance_is_fenced_witness:
  "reply_error (fst (egress_call
     (egress_run sample_egress_store
        (sample_setup @ BeginEpoch second_instance 13 # [ClaimCommand second_instance 40 0 13]))
     (ClaimCommand first_instance 40 0 14))) = Some DeadEpoch"
  by (rule superseded_instance_is_fenced [OF sample_store_new _ _ _ _ refl, of first_instance,
        THEN conjunct1])
    (simp_all add: first_instance_def second_instance_def)

text \<open>
  A command is executed at most once. Within any period of the store's retention time, over all
  instances of a gateway and all interleavings of calls, at most one claim of a command identifier
  is answered with Acquired.
\<close>

theorem command_acquired_once:
  assumes "MemoryPrivateEgressStateStore_new max_entries ttl = Inr st0"
    and "\<forall>c \<in> set calls. in_window since (ttl_ms st0) c"
  shows "acquisitions gateway command_id (egress_run st0 earlier) calls \<le> 1"
  using acquired_at_most_once [OF egress_run_ok [OF new_store_ok [OF assms(1)]]] assms(2) by simp

theorem command_acquired_once_witness:
  "acquisitions [103] 40 (egress_run sample_egress_store sample_setup)
     [ClaimCommand first_instance 40 0 13, BeginEpoch second_instance 14,
      ClaimCommand second_instance 40 0 15] \<le> 1"
  by (rule command_acquired_once [OF sample_store_new, of _ 12])
    (simp add: sample_ttl in_window_def)

text \<open>
  A completed command is replayed. After a command was acquired and completed under one
  instance, every further claim within the retention time returns exactly the recorded response, and
  a claim of the same identifier with another digest is a ReplayConflict, whatever happened in
  between.
\<close>

theorem completed_command_is_replayed:
  assumes "MemoryPrivateEgressStateStore_new max_entries ttl = Inr st0"
    and "fst (claim_command (egress_run st0 earlier) e i d t0) = Inr Acquired"
    and "st1 = egress_run (snd (claim_command (egress_run st0 earlier) e i d t0)) during"
    and "fst (complete_command st1 e i d r t1) = Inr ()" "since \<le> t1"
    and "\<forall>c \<in> set during. in_window since (ttl_ms st0) c"
    and "\<forall>c \<in> set later. in_window since (ttl_ms st0) c \<and> \<not> supersedes e c"
    and "t < since + ttl_ms st0"
  shows "fst (claim_command (egress_run (snd (complete_command st1 e i d r t1)) later) e i d' t) =
    (if d' = d then Inr (Completed r) else Inl ReplayConflict)"
proof -
  let ?st = "egress_run st0 earlier" let ?claim = "ClaimCommand e i d t0"
  let ?complete = "CompleteCommand e i d r t1"
  have ok: "store_ok ?st" using assms(1) new_store_ok egress_run_ok by blast
  then have ok0: "store_ok (snd (egress_call ?st ?claim))" by (rule egress_call_ok)
  have "acquires (ge_gateway_id e) i ?claim (fst (egress_call ?st ?claim))"
    using assms(2) by simp
  then have "command_retained since (ge_gateway_id e) i (snd (egress_call ?st ?claim))"
    by (rule acquired_retained [OF ok])
  then have ret: "command_retained since (ge_gateway_id e) i st1"
    using retained.run [OF ok0, of since "ge_gateway_id e" i during] assms(3,6) by simp
  have ok1: "store_ok st1" using ok0 egress_run_ok assms(3) by simp
  let ?st2 = "snd (egress_call st1 ?complete)"
  have ok2: "store_ok ?st2" by (rule egress_call_ok [OF ok1])
  have ttl: "ttl_ms ?st2 = ttl_ms st0" using assms(3) by simp
  have "response_recorded since e i d r ?st2"
    using completed_is_recorded [OF ok1 assms(4,5) ret] by simp
  then have "response_recorded since e i d r (egress_run ?st2 later)"
    using assms(7) ttl by (intro recorded.run [OF ok2]) auto
  from recorded_is_replayed [OF egress_run_ok [OF ok2] this, of t d'] show ?thesis
    using assms(8) ttl by simp
qed

theorem completed_command_is_replayed_witness:
  "fst (claim_command
     (egress_run (snd (complete_command
        (egress_run (snd (claim_command (egress_run sample_egress_store sample_setup) first_instance 41 3 12))
           [AssertEpoch first_instance])
        first_instance 41 3 (response_rejected 41 Timeout) 13))
        [ClaimCommand first_instance 42 4 14])
     first_instance 41 3 15) = Inr (Completed (response_rejected 41 Timeout))"
proof -
  have claim: "fst (claim_command (egress_run sample_egress_store sample_setup) first_instance 41 3 12) =
    Inr Acquired"
    by (simp add: sample_ready first_instance_def egress_eval)
  have complete: "fst (complete_command
      (egress_run (snd (claim_command (egress_run sample_egress_store sample_setup) first_instance 41 3 12))
         [AssertEpoch first_instance])
      first_instance 41 3 (response_rejected 41 PrivateEgressError.Timeout) 13) = Inr ()"
    by (simp add: sample_ready first_instance_def egress_eval)
  show ?thesis
    using completed_command_is_replayed [OF sample_store_new claim refl complete, of 12
        "[ClaimCommand first_instance 42 4 14]" 15 3]
    by (simp add: sample_ttl in_window_def)
qed

text \<open>
  C22: a terminal route is final. For the retention time after a route was tombstoned, whatever is
  called, by any instance, it keeps its terminal state, and no claim or completion of a transition
  and no lifecycle event of the route is accepted.
\<close>

theorem terminal_route_is_final:
  assumes "MemoryPrivateEgressStateStore_new max_entries ttl = Inr st0"
    and "routes_of (egress_run st0 earlier) (ge_gateway_id e, k) = Some route"
    and "rr_state route = Some s" "egress_is_terminal s" "rr_tombstoned_at_ms route = Some ended"
    and "\<forall>c \<in> set later. before (ended + ttl_ms st0) c"
    and "st = egress_run (egress_run st0 earlier) later"
  shows "map_option rr_state (routes_of st (ge_gateway_id e, k)) = Some (Some s) \<and>
    fst (claim_route_transition st e k i x n) \<noteq> Inr () \<and>
    fst (complete_route_transition st e k i n t) \<noteq> Inr () \<and>
    fst (append_lifecycle st e k ev t) \<noteq> Inr ev'"
proof -
  have ok: "store_ok (egress_run st0 earlier)" using assms(1) new_store_ok egress_run_ok by blast
  have "route_tombstoned ended (ge_gateway_id e) k s (egress_run st0 earlier)"
    using assms(2-5) by (simp add: route_tombstoned_def)
  then have tomb: "route_tombstoned ended (ge_gateway_id e) k s st"
    using tombstoned.run [OF ok] assms(6,7) by simp
  have "store_ok st" using ok egress_run_ok assms(7) by simp
  from tombstoned_refuses [OF this tomb] tomb show ?thesis
    by (auto simp: route_tombstoned_def split: option.splits)
qed

lemma sample_ended:
  "routes_of (egress_run sample_egress_store (sample_setup @ sample_journal)) ([103], sample_key) =
     Some \<lparr>rr_epoch = 1, rr_state = Some PrivateEgressLifecycleState.Ended, rr_pending = None,
           rr_next_lifecycle_sequence = 2, rr_tombstoned_at_ms = Some 13,
           rr_recovery_required = False\<rparr>"
  by (simp add: sample_ready sample_journal_def sample_event_of_def first_instance_def egress_eval
      sample_key_def PrivateEgressRouteKey_new_def key_authority_def sample_source_def)

theorem terminal_route_is_final_witness:
  "fst (claim_route_transition
     (egress_run (egress_run sample_egress_store (sample_setup @ sample_journal))
        [BeginEpoch second_instance 14, ClaimCommand second_instance 41 3 15])
     second_instance sample_key 60 (Some PrivateEgressLifecycleState.Ended) Prepared) \<noteq> Inr ()"
  using terminal_route_is_final [OF sample_store_new _ _ _ _ _ refl,
      of "sample_setup @ sample_journal" second_instance sample_key _ PrivateEgressLifecycleState.Ended 13
      "[BeginEpoch second_instance 14, ClaimCommand second_instance 41 3 15]"]
  by (simp add: sample_ended sample_ttl before_def egress_is_terminal_def second_instance_def
      del: egress_run_simps)

lemma fenced_not_live [simp]: "\<not> route_live (fenced_route t r)"
  by (simp add: fenced_route_def failed_route_def route_live_def egress_is_terminal_def)

text \<open>
  C23: a new instance takes over every live route. Beginning an epoch reports exactly the routes of
  the gateway that still awaited recovery and, when the instance is new, those that were live under
  the previous one, and leaves no route of the gateway live; a reported route is reported again by
  every later epoch until its recovery is completed.
\<close>

theorem recovery_until_completed:
  assumes "MemoryPrivateEgressStateStore_new max_entries ttl = Inr st0"
    and "st = egress_run st0 earlier"
    and "ge_gateway_id e' = ge_gateway_id e"
    and "\<forall>c \<in> set later. not_recovered (ge_gateway_id e) k c"
  shows "(k \<in> recovered_keys st e t \<longleftrightarrow>
      recovery_pending (ge_gateway_id e) k st \<or>
      (fences st e \<and> (\<exists>r. routes_of st (ge_gateway_id e, k) = Some r \<and> route_live r))) \<and>
    (fences st e \<and> routes_of (begun st e t) (ge_gateway_id e, k) = Some r \<longrightarrow> \<not> route_live r) \<and>
    (k \<in> recovered_keys st e t \<longrightarrow> k \<in> recovered_keys (egress_run (begun st e t) later) e' t')"
proof (intro conjI impI)
  have ok: "store_ok st" using assms(1,2) new_store_ok egress_run_ok by blast
  then have ok1: "store_ok (begun st e t)" by (rule begin_epoch_ok)
  note mem = recovered_keys_eq [OF ok, of e t] begun_recovery [OF ok, of e k t]
  show "k \<in> recovered_keys st e t \<longleftrightarrow>
      recovery_pending (ge_gateway_id e) k st \<or>
      (fences st e \<and> (\<exists>r. routes_of st (ge_gateway_id e, k) = Some r \<and> route_live r))"
    using mem by simp
  show "\<not> route_live r" if "fences st e \<and> routes_of (begun st e t) (ge_gateway_id e, k) = Some r"
    using that by (auto simp: begun_routes [OF ok] split: if_splits) (metis fenced_not_live)
  assume "k \<in> recovered_keys st e t"
  then have "recovery_pending (ge_gateway_id e) k (begun st e t)" using mem by simp
  then have "recovery_pending (ge_gateway_id e) k (egress_run (begun st e t) later)"
    using awaiting.run [OF ok1] assms(4) by blast
  then have "recovery_pending (ge_gateway_id e') k (begun (egress_run (begun st e t) later) e' t')"
    using begun_recovery [OF egress_run_ok [OF ok1, of later], of e' k t'] assms(3) by simp
  then show "k \<in> recovered_keys (egress_run (begun st e t) later) e' t'"
    using recovered_keys_eq [OF egress_run_ok [OF ok1, of later], of e' t'] by simp
qed

theorem recovery_until_completed_witness:
  "sample_key \<in> recovered_keys
     (egress_run (begun (egress_run sample_egress_store sample_setup) second_instance 20)
        [ClaimCommand second_instance 41 3 30]) second_instance 31"
proof -
  note take_over = recovery_until_completed [OF sample_store_new refl, of second_instance second_instance
      "[ClaimCommand second_instance 41 3 30]" sample_key sample_setup 20 _ 31]
  have "sample_key \<in> recovered_keys (egress_run sample_egress_store sample_setup) second_instance 20"
    using take_over by (simp add: not_recovered_def sample_ready fences_def second_instance_def route_live_def
        egress_is_terminal_def)
  with take_over show ?thesis by (simp add: not_recovered_def)
qed

section \<open>The journal and the worker\<close>

text \<open>
  C24: the journal of a route is a numbered queue. For as long as no other instance takes over and
  the route is not swept away, what unacked_lifecycle returns after any sequence of calls is what a
  queue holds that appends every event as append_lifecycle stamped it and removes every acknowledged
  one. The stamped events carry consecutive numbers that continue the counter of the route, from one
  for a route that does not exist yet, and what the queue holds is in ascending order.
\<close>

theorem journal_refines_queue:
  assumes "MemoryPrivateEgressStateStore_new max_entries ttl = Inr st0"
    and "st = egress_run st0 earlier"
    and "epoch_of st (ge_gateway_id e) = Some (ge_instance_id e)"
    and "undisturbed e k st calls"
    and "first = (case routes_of st (ge_gateway_id e, k) of
      None \<Rightarrow> 1 | Some r \<Rightarrow> Suc (unat (rr_next_lifecycle_sequence r)))"
  shows "fst (unacked_lifecycle (egress_run st calls) e k) =
      Inr (journal_run e k st calls (unacked_of e k st)) \<and>
    sorted_wrt (<) (map ev_sequence (journal_run e k st calls (unacked_of e k st))) \<and>
    map (\<lambda>ev. unat (ev_sequence ev)) (stamped e k st calls) =
      [first ..< first + length (stamped e k st calls)]"
proof -
  have ok: "store_ok st" using assms(1,2) new_store_ok egress_run_ok by blast
  note run = unacked_run [OF ok assms(3,4)]
  have "fst (unacked_lifecycle (egress_run st calls) e k) = Inr (unacked_of e k (egress_run st calls))"
    using run unacked_lifecycle_eq by simp
  moreover have "sorted_wrt (<) (map ev_sequence (unacked_of e k (egress_run st calls)))"
    by (rule unacked_sorted [OF egress_run_ok [OF ok]])
  moreover have "Suc (unat (next_of (ge_gateway_id e) k st)) = first"
    using assms(5) by (simp add: next_of_def split: option.split)
  ultimately show ?thesis
    using run conjunct1 [OF stamped_numbered [OF ok assms(3,4)]] by (auto simp del: upt_Suc)
qed

lemma sample_instance_active:
  "epoch_of (egress_run sample_egress_store sample_setup) (ge_gateway_id first_instance) =
     Some (ge_instance_id first_instance)"
  by (simp add: sample_ready first_instance_def)

lemma sample_undisturbed:
  "undisturbed first_instance sample_key (egress_run sample_egress_store sample_setup)
     (sample_journal @ [AckLifecycle first_instance sample_key 51 1])"
  by (simp add: sample_journal_def spares_def)

theorem journal_refines_queue_witness:
  "fst (unacked_lifecycle (egress_run (egress_run sample_egress_store sample_setup)
     (sample_journal @ [AckLifecycle first_instance sample_key 51 1])) first_instance sample_key) =
   Inr (journal_run first_instance sample_key (egress_run sample_egress_store sample_setup)
     (sample_journal @ [AckLifecycle first_instance sample_key 51 1])
     (unacked_of first_instance sample_key (egress_run sample_egress_store sample_setup)))"
  by (rule journal_refines_queue [OF sample_store_new refl sample_instance_active sample_undisturbed refl,
        THEN conjunct1])













section \<open>Commands on the wire\<close>

text \<open>
  C27: commands survive the wire. A command that validates and whose message is built is decoded by
  the receiver to the same command, for every JSON codec that decodes what it encodes and every
  message library that builds and accepts the protocol's reliable messages.
\<close>

theorem command_wire_round_trip:
  assumes "wire_laws w" "\<And>bs. to_vec c = Some bs \<Longrightarrow> from_slice bs = Some c"
    and "command_validate w c now = Inr ()"
    and "command_to_data_message w to_vec c = Inr message"
  shows "command_from_data_message w from_slice message now = Inr c"
proof -
  obtain bs where bs: "to_vec c = Some bs" "length bs \<le> MAX_COMMAND_BYTES"
    "message = message_reliable w PRIVATE_EGRESS_COMMAND_LABEL PRIVATE_EGRESS_CONTENT_TYPE bs"
    using assms(4)
    by (auto simp: command_to_data_message_def wrap_message_def split: option.splits if_splits)
  have "is_private_egress_label PRIVATE_EGRESS_COMMAND_LABEL" by (simp add: is_private_egress_label_def)
  with bs assms(1) have "validate_wire_message w message PRIVATE_EGRESS_COMMAND_LABEL = Inr ()"
    "dm_bytes message = bs"
    by (simp_all add: validate_wire_message_def wire_laws_def)
  then show ?thesis using assms(2,3) bs(1) by (simp add: command_from_data_message_def)
qed

definition sample_wire :: wire where
  "sample_wire =
     \<lparr>message_validate = (\<lambda>m. length (dm_bytes m) \<le> 65536),
      message_reliable = (\<lambda>l c b. \<lparr>dm_label = l, dm_content_type = c, dm_reliable_ordered = True,
                                   dm_bytes = b\<rparr>)\<rparr>"

definition sample_command :: PrivateEgressCommand where
  "sample_command =
     \<lparr>cmd_version = 1, cmd_command_id = 40, cmd_issued_at_ms = 1000, cmd_expires_at_ms = 6000,
      cmd_worker = sample_lease, cmd_source = sample_source, cmd_target = sample_target,
      cmd_operation = Activate\<rparr>"

theorem command_wire_round_trip_witness:
  "command_from_data_message sample_wire (\<lambda>bs. if bs = [1] then Some sample_command else None)
     (message_reliable sample_wire PRIVATE_EGRESS_COMMAND_LABEL PRIVATE_EGRESS_CONTENT_TYPE [1]) 2000 =
   Inr sample_command"
proof (rule command_wire_round_trip [where to_vec = "\<lambda>_. Some [1]"])
  show "wire_laws sample_wire" by (simp add: wire_laws_def sample_wire_def MAX_COMMAND_BYTES_def)
  show "command_validate sample_wire sample_command 2000 = Inr ()"
    by (simp add: command_validate_def sample_command_def PROTOCOL_VERSION_def checked_i64_def I64_MAX_def
        I64_MIN_def as_millis_def MAX_COMMAND_LIFETIME_def MAX_CLOCK_SKEW_def sat_i64_def)
  show "command_to_data_message sample_wire (\<lambda>_. Some [1]) sample_command =
    Inr (message_reliable sample_wire PRIVATE_EGRESS_COMMAND_LABEL PRIVATE_EGRESS_CONTENT_TYPE [1])"
    by (simp add: command_to_data_message_def wrap_message_def MAX_COMMAND_BYTES_def)
qed simp

text \<open>
  C28: the constructor builds well-formed commands. A command that new returns carries the protocol
  version, a non-nil identifier and the arguments, lives for at most thirty seconds, and is accepted
  by every receiver whose clock is at most ten seconds behind the issuer and not past the expiry; a
  data message it carries can never claim one of the protocol's own labels.
\<close>

theorem new_command_well_formed:
  assumes "PrivateEgressCommand_new w command_id now lifetime worker source target operation = Inr c"
    and "I64_MIN \<le> now" "now \<le> I64_MAX" "t \<le> cmd_expires_at_ms c" "now \<le> t + 10000"
  shows "cmd_version c = PROTOCOL_VERSION \<and> cmd_command_id c = command_id \<and> command_id \<noteq> 0 \<and>
    cmd_worker c = worker \<and> cmd_source c = source \<and> cmd_target c = target \<and>
    cmd_operation c = operation \<and> cmd_issued_at_ms c = now \<and>
    now < cmd_expires_at_ms c \<and> cmd_expires_at_ms c \<le> now + 30000 \<and> cmd_expires_at_ms c \<le> I64_MAX \<and>
    (\<forall>m. operation = PrivateEgressOperation.DataMessage m \<longrightarrow> \<not> is_private_egress_label (dm_label m)) \<and>
    command_validate w c t = Inr ()"
proof -
  let ?c = "\<lparr>cmd_version = PROTOCOL_VERSION, cmd_command_id = command_id, cmd_issued_at_ms = now,
    cmd_expires_at_ms = now + int (as_millis lifetime), cmd_worker = worker, cmd_source = source,
    cmd_target = target, cmd_operation = operation\<rparr>"
  have c: "c = ?c" "command_validate w ?c now = Inr ()" "now + int (as_millis lifetime) \<le> I64_MAX"
    using assms(1)
    by (auto simp: PrivateEgressCommand_new_def Let_def checked_i64_def result_simps
        split: if_splits option.splits)
  then have v: "command_id \<noteq> 0" "0 < as_millis lifetime" "int (as_millis lifetime) \<le> 30000"
    "validate_operation w operation = Inr ()"
    by (auto simp: command_validate_def as_millis_def MAX_COMMAND_LIFETIME_def checked_i64_def
        split: if_splits option.splits)
  have "now \<le> sat_i64 (t + 10000)"
    using assms(2,3,5) by (auto simp: sat_i64_def)
  then have "command_validate w c t = Inr ()"
    using v assms(4) c
    by (auto simp: command_validate_def checked_i64_def I64_MIN_def I64_MAX_def as_millis_def
        MAX_COMMAND_LIFETIME_def MAX_CLOCK_SKEW_def)
  with c v show ?thesis by (auto split: if_splits)
qed

theorem new_command_well_formed_witness:
  "\<exists>c. PrivateEgressCommand_new sample_wire 40 1000 5000000000 sample_lease sample_source sample_target
       Activate = Inr c \<and> command_validate sample_wire c 2000 = Inr ()"
proof -
  have "PrivateEgressCommand_new sample_wire 40 1000 5000000000 sample_lease sample_source sample_target
    Activate = Inr sample_command"
    by (simp add: PrivateEgressCommand_new_def command_validate_def sample_command_def PROTOCOL_VERSION_def
        checked_i64_def I64_MAX_def I64_MIN_def as_millis_def MAX_COMMAND_LIFETIME_def MAX_CLOCK_SKEW_def
        sat_i64_def)
  with new_command_well_formed [OF this, of 2000] show ?thesis
    by (simp add: I64_MAX_def I64_MIN_def sample_command_def)
qed

section \<open>Exhausted sequences\<close>

text \<open>
  When the sequence of a route is exhausted, an accepted state change is written to the route
  although the append fails and nothing is journaled.
\<close>

lemma exhausted_append_is_not_atomic:
  assumes "epoch_of st (ge_gateway_id e) = Some (ge_instance_id e)"
    "event_of_key k ev" "ev_gateway_epoch ev = 0" "ev_sequence ev = 0" "ev_kind ev = State s' None"
    "journal_of st (ge_gateway_id e, ev_event_id ev) = None"
    "length (es_lifecycle (st_state st)) < st_max_entries st"
    "routes_of st (ge_gateway_id e, k) = Some r" "rr_epoch r = ge_instance_id e"
    "\<not> rr_recovery_required r" "rr_tombstoned_at_ms r = None" "rr_pending r = None"
    "rr_state r = Some s" "lifecycle_transition_allowed s s'" "rr_next_lifecycle_sequence r = - 1"
  shows "fst (append_lifecycle st e k ev t) = Inl StateUnavailable"
    "map_option rr_state (routes_of (snd (append_lifecycle st e k ev t)) (ge_gateway_id e, k)) =
       Some (Some s')"
    "journal_of (snd (append_lifecycle st e k ev t)) = journal_of st"
  using assms by (simp_all add: append_lifecycle_def append_to_route_def ensure_epoch_def Let_def
      event_of_key_def)

end
