(* ===== verification/Egress_Fleet.thy ===== *)
theory Egress_Fleet
  imports Egress_Trace Egress_Properties
begin

text \<open>
  The command service as a whole: the replay entries across operations, and a fleet of service
  instances that share one store. A fleet step starts a new instance on the store, as a restarted
  gateway does, or lets any instance, the superseded ones included, perform one operation.
\<close>

section \<open>The sweep of replay entries\<close>

definition entry_expired :: "time \<Rightarrow> duration \<Rightarrow> ReplayRecord option \<Rightarrow> bool" where
  "entry_expired now ttl entry \<longleftrightarrow>
     (case entry of None \<Rightarrow> True
      | Some record \<Rightarrow> rp_response record \<noteq> None \<and> max 0 (now - rp_created_at record) \<ge> int ttl)"

lemma sweep_replay_step:
  "sweep_replay now ttl s =
     (case rs_completed s of
        [] \<Rightarrow> s
      | i # completed \<Rightarrow>
          if entry_expired now ttl (map_of (rs_entries s) i)
          then sweep_replay now ttl \<lparr>rs_entries = AList.delete i (rs_entries s), rs_completed = completed\<rparr>
          else s)"
  by (subst sweep_replay.simps) (simp add: entry_expired_def Let_def split: list.split)

text \<open>
  The sweep removes the longest prefix of the queue whose entries have expired.
\<close>

lemma sweep_replay_result:
  "rs_completed (sweep_replay now ttl s) =
     dropWhile (\<lambda>i. entry_expired now ttl (map_of (rs_entries s) i)) (rs_completed s)"
  "map_of (rs_entries (sweep_replay now ttl s)) =
     (\<lambda>i. if i \<in> set (takeWhile (\<lambda>i. entry_expired now ttl (map_of (rs_entries s) i)) (rs_completed s))
           then None else map_of (rs_entries s) i)"
proof -
  have "rs_completed (sweep_replay now ttl s) =
      dropWhile (\<lambda>i. entry_expired now ttl (map_of (rs_entries s) i)) (rs_completed s) \<and>
    map_of (rs_entries (sweep_replay now ttl s)) =
      (\<lambda>i. if i \<in> set (takeWhile (\<lambda>i. entry_expired now ttl (map_of (rs_entries s) i)) (rs_completed s))
            then None else map_of (rs_entries s) i)"
  proof (induction "rs_completed s" arbitrary: s)
    case Nil
    then show ?case by (subst (1 2) sweep_replay_step) simp
  next
    case (Cons i completed)
    let ?s = "\<lparr>rs_entries = AList.delete i (rs_entries s), rs_completed = completed\<rparr>"
    show ?case
    proof (cases "entry_expired now ttl (map_of (rs_entries s) i)")
      case True
      have same: "entry_expired now ttl (map_of (rs_entries ?s) j) \<longleftrightarrow>
          entry_expired now ttl (map_of (rs_entries s) j)" for j
        using True by (auto simp: entry_expired_def)
      have "sweep_replay now ttl s = sweep_replay now ttl ?s"
        using True Cons.hyps(2) [symmetric] by (subst sweep_replay_step) simp
      with Cons.hyps(1) [of ?s] True show ?thesis
        unfolding Cons.hyps(2) [symmetric] same by (auto simp: fun_eq_iff)
    next
      case False
      then have "sweep_replay now ttl s = s"
        using Cons.hyps(2) [symmetric] by (subst sweep_replay_step) simp
      with False Cons.hyps(2) [symmetric] show ?thesis by simp
    qed
  qed
  then show "rs_completed (sweep_replay now ttl s) =
      dropWhile (\<lambda>i. entry_expired now ttl (map_of (rs_entries s) i)) (rs_completed s)"
    "map_of (rs_entries (sweep_replay now ttl s)) =
      (\<lambda>i. if i \<in> set (takeWhile (\<lambda>i. entry_expired now ttl (map_of (rs_entries s) i)) (rs_completed s))
            then None else map_of (rs_entries s) i)" by blast+
qed

lemma sweep_keeps_live:
  "\<not> entry_expired now ttl (map_of (rs_entries s) i) \<Longrightarrow>
     map_of (rs_entries (sweep_replay now ttl s)) i = map_of (rs_entries s) i"
  by (auto simp: sweep_replay_result(2) dest: set_takeWhileD)

lemma sweep_keeps_absent:
  "map_of (rs_entries s) i = None \<Longrightarrow> map_of (rs_entries (sweep_replay now ttl s)) i = None"
  by (simp add: sweep_replay_result(2))

section \<open>Operations other than execute\<close>

lemma record_lifecycle_kept:
  assumes "in_period since period t"
  shows "kept since period sv (snd (record_lifecycle now t a ev sv))"
  unfolding record_lifecycle_def Let_def using assms
  by (auto split: option.splits sum.splits prod.splits intro!: kept_store intro: timed_trace_steps)

lemma record_lifecycle_invoked [simp]:
  "sv_invoked (snd (record_lifecycle now t a ev sv)) = sv_invoked sv"
  unfolding record_lifecycle_def Let_def
  by (auto split: option.splits sum.splits prod.splits)

lemma acknowledge_lifecycle_kept: "kept since period sv (snd (acknowledge_lifecycle a ack sv))"
  unfolding acknowledge_lifecycle_def Let_def
  by (auto split: option.splits sum.splits prod.splits intro!: kept_store intro: trace_steps)

lemma acknowledge_lifecycle_invoked [simp]:
  "sv_invoked (snd (acknowledge_lifecycle a ack sv)) = sv_invoked sv"
  unfolding acknowledge_lifecycle_def Let_def
  by (auto split: option.splits sum.splits prod.splits)

lemma end_routes_kept: "kept since period sv (snd (end_routes h v t late a keys sv))"
proof (induction keys arbitrary: sv)
  case (Cons key keys)
  have "kept since period sv (snd (end_routes h v t late a keys sv2))" if "kept since period sv sv2" for sv2
    by (rule kept_trans [OF that Cons.IH])
  then show ?case by (auto simp: Let_def case_prod_beta split: option.splits)
qed simp

lemma end_source_until_kept:
  assumes "in_period since period t"
  shows "kept since period sv (snd (end_source_until h v t late a sv))"
  unfolding end_source_until_def Let_def
  by (auto split: prod.splits sum.splits intro!: kept_trans [OF kept_store end_routes_kept]
      kept_trans [OF _ end_routes_kept] kept_store intro: timed_trace_steps [OF assms])

lemma end_sources_kept:
  assumes "in_period since period t"
  shows "kept since period sv (snd (end_sources h v t late as sv))"
proof (induction as arbitrary: sv)
  case (Cons a as)
  have "kept since period sv (snd (end_sources h v t late as (snd (end_source_until h v t late a sv))))"
    by (rule kept_trans [OF end_source_until_kept [OF assms] Cons.IH])
  then show ?case by (simp add: Let_def case_prod_beta)
qed simp

lemma service_drain_kept:
  assumes "in_period since period t"
  shows "kept since period sv (snd (service_drain h v t late drained overdue sv))"
proof -
  have "kept since period sv (snd (end_sources h v t late as (service_begin_drain sv)))" for as
    by (rule kept_trans [OF _ end_sources_kept [OF assms]]) simp
  then show ?thesis
    unfolding service_drain_def Let_def case_prod_beta by (auto split: option.splits)
qed

section \<open>Commands sent at the end of a source\<close>

text \<open>The operations that end routes hand over only End commands with identifiers of their own.\<close>

lemma invocations_invoked:
  "sv_invoked sv' = sv_invoked sv \<Longrightarrow> invocations i sv' = invocations i sv"
  by (simp add: invocations_def)

lemma end_routes_invocations:
  assumes "\<forall>k. v k \<noteq> i"
  shows "invocations i (snd (end_routes h v t late a keys sv)) = invocations i sv"
proof (induction keys arbitrary: sv)
  case (Cons key keys)
  have "invocations i (sv\<lparr>sv_invoked := sv_invoked sv @ [end_command (v key) t w s tg r]\<rparr>) = invocations i sv"
    for w s tg r
    using assms by (simp add: invocations_def end_command_def)
  with Cons.IH show ?case
    by (auto simp: Let_def case_prod_beta invocations_def end_command_def assms split: option.splits)
qed simp

lemma end_source_until_invocations:
  assumes "\<forall>k. v k \<noteq> i"
  shows "invocations i (snd (end_source_until h v t late a sv)) = invocations i sv"
  unfolding end_source_until_def Let_def
  by (auto simp: end_routes_invocations [OF assms] split: prod.splits sum.splits)
    (simp_all add: invocations_def)

lemma end_sources_invocations:
  assumes "\<forall>k. v k \<noteq> i"
  shows "invocations i (snd (end_sources h v t late as sv)) = invocations i sv"
  by (induction as arbitrary: sv)
    (simp_all add: Let_def case_prod_beta end_source_until_invocations [OF assms])

lemma service_drain_invocations:
  assumes "\<forall>k. v k \<noteq> i"
  shows "invocations i (snd (service_drain h v t late drained overdue sv)) = invocations i sv"
proof -
  have "invocations i (snd (end_sources h v t late as (service_begin_drain sv))) = invocations i sv" for as
    using end_sources_invocations [OF assms, of h t late as "service_begin_drain sv"]
    by (simp add: invocations_def)
  then show ?thesis
    unfolding service_drain_def Let_def case_prod_beta by (auto simp: invocations_def split: option.splits)
qed

section \<open>One operation\<close>

fun call_in_period :: "millis \<Rightarrow> millis \<Rightarrow> ServiceCall \<Rightarrow> bool" where
  "call_in_period since period (Execute w to_vec sha h v ck a c now) \<longleftrightarrow>
     in_period since period now \<and> in_period since period (ck_transition ck) \<and>
     in_period since period (ck_completed ck)"
| "call_in_period since period (RecordLifecycle now t a ev) \<longleftrightarrow> in_period since period t"
| "call_in_period since period (AcknowledgeLifecycle a ack) \<longleftrightarrow> True"
| "call_in_period since period (EndSource h v t late a) \<longleftrightarrow> in_period since period t"
| "call_in_period since period (Drain h v t late drained overdue) \<longleftrightarrow> in_period since period t"

text \<open>The random identifiers that the operation draws differ from \<open>i\<close>.\<close>

fun draws_other_than :: "uuid \<Rightarrow> ServiceCall \<Rightarrow> bool" where
  "draws_other_than i (Execute w to_vec sha h v ck a c now) \<longleftrightarrow> v \<noteq> i"
| "draws_other_than i (RecordLifecycle now t a ev) \<longleftrightarrow> True"
| "draws_other_than i (AcknowledgeLifecycle a ack) \<longleftrightarrow> True"
| "draws_other_than i (EndSource h v t late a) \<longleftrightarrow> (\<forall>k. v k \<noteq> i)"
| "draws_other_than i (Drain h v t late drained overdue) \<longleftrightarrow> (\<forall>k. v k \<noteq> i)"

text \<open>How \<open>execute\<close> ends: before the durable claim, or in \<open>execute_claimed\<close>.\<close>

lemma service_execute_result:
  fixes w to_vec sha h v ck a c now sv
  defines "swept_replay \<equiv> sweep_replay (ck_replay ck) (cfg_replay_ttl (sv_config sv)) (sv_replay sv)"
    and "sv0 \<equiv> sweep_terminal_routes (ck_sweep ck) sv"
  shows "(\<exists>x. service_execute w to_vec sha h v ck a c now sv = (x, sv0)) \<or>
    (\<exists>x. service_execute w to_vec sha h v ck a c now sv = (x, sv0\<lparr>sv_replay := swept_replay\<rparr>)) \<or>
    (\<exists>d. command_validate w c now = Inr () \<and> command_digest to_vec sha c = Inr d \<and>
       cmd_worker c = auth_worker a \<and> cmd_source c = auth_source a \<and>
       map_of (rs_entries swept_replay) (cmd_command_id c) = None \<and>
       service_execute w to_vec sha h v ck a c now sv =
         execute_claimed h v ck a c d now
           (set_replay (cmd_command_id c)
              \<lparr>rp_digest = d, rp_created_at = ck_created ck, rp_response = None\<rparr>
              (sv0\<lparr>sv_replay := swept_replay\<rparr>)))"
  unfolding service_execute_def Let_def swept_replay_def sv0_def
  by (auto split: sum.splits option.splits)

lemma service_execute_cases:
  fixes w to_vec sha h v ck a c now sv
  defines "sv' \<equiv> snd (service_execute w to_vec sha h v ck a c now sv)"
  obtains (stopped) "sv_invoked sv' = sv_invoked sv" "sv_state_store sv' = sv_state_store sv"
      "sv_epoch sv' = sv_epoch sv" "sv_config sv' = sv_config sv"
      "\<And>j. entry_of j sv' = entry_of j sv \<or> entry_of j sv' =
         map_of (rs_entries (sweep_replay (ck_replay ck) (cfg_replay_ttl (sv_config sv)) (sv_replay sv))) j"
  | (claimed) d sv1 where "service_execute w to_vec sha h v ck a c now sv =
        execute_claimed h v ck a c d now sv1"
      "sv_invoked sv1 = sv_invoked sv" "sv_state_store sv1 = sv_state_store sv"
      "sv_epoch sv1 = sv_epoch sv" "sv_config sv1 = sv_config sv"
      "sv_draining sv1 = sv_draining sv"
      "sv_routes sv1 = sv_routes (sweep_terminal_routes (ck_sweep ck) sv)"
      "command_validate w c now = Inr ()" "command_digest to_vec sha c = Inr d"
      "cmd_worker c = auth_worker a" "cmd_source c = auth_source a"
      "entry_of (cmd_command_id c) sv1 = Some \<lparr>rp_digest = d, rp_created_at = ck_created ck, rp_response = None\<rparr>"
      "map_of (rs_entries (sweep_replay (ck_replay ck) (cfg_replay_ttl (sv_config sv)) (sv_replay sv)))
         (cmd_command_id c) = None"
      "\<And>j. j \<noteq> cmd_command_id c \<Longrightarrow> entry_of j sv1 =
         map_of (rs_entries (sweep_replay (ck_replay ck) (cfg_replay_ttl (sv_config sv)) (sv_replay sv))) j"
  using service_execute_result [of w to_vec sha h v ck a c now sv]
proof (elim disjE exE conjE)
  fix x
  assume "service_execute w to_vec sha h v ck a c now sv = (x, sweep_terminal_routes (ck_sweep ck) sv)"
  then show thesis by (intro stopped) (simp_all add: sv'_def entry_of_def)
next
  fix x
  assume "service_execute w to_vec sha h v ck a c now sv =
    (x, (sweep_terminal_routes (ck_sweep ck) sv)\<lparr>sv_replay :=
       sweep_replay (ck_replay ck) (cfg_replay_ttl (sv_config sv)) (sv_replay sv)\<rparr>)"
  then show thesis by (intro stopped) (simp_all add: sv'_def entry_of_def)
next
  fix d
  assume "command_validate w c now = Inr ()" "command_digest to_vec sha c = Inr d"
    "cmd_worker c = auth_worker a" "cmd_source c = auth_source a"
    "map_of (rs_entries (sweep_replay (ck_replay ck) (cfg_replay_ttl (sv_config sv)) (sv_replay sv)))
       (cmd_command_id c) = None"
    and exec: "service_execute w to_vec sha h v ck a c now sv =
       execute_claimed h v ck a c d now
         (set_replay (cmd_command_id c)
            \<lparr>rp_digest = d, rp_created_at = ck_created ck, rp_response = None\<rparr>
            ((sweep_terminal_routes (ck_sweep ck) sv)\<lparr>sv_replay :=
               sweep_replay (ck_replay ck) (cfg_replay_ttl (sv_config sv)) (sv_replay sv)\<rparr>))"
  then show thesis by (intro claimed [OF exec]) (simp_all add: entry_of_def set_replay_def)
qed

lemma service_call_trace:
  assumes "call_in_period since period call"
  shows "store_trace since period (sv_state_store sv) (sv_state_store (service_call sv call))"
    and "sv_epoch (service_call sv call) = sv_epoch sv"
    and "sv_config (service_call sv call) = sv_config sv"
proof -
  let ?kept = "\<lambda>sv'. sv_epoch sv' = sv_epoch sv \<and> sv_config sv' = sv_config sv \<and>
    store_trace since period (sv_state_store sv) (sv_state_store sv')"
  have "?kept (service_call sv call)"
  proof (cases call)
    case (Execute w to_vec sha h v ck a c now)
    show ?thesis
    proof (cases rule: service_execute_cases [of w to_vec sha h v ck a c now sv])
      case stopped
      then show ?thesis using Execute by simp
    next
      case (claimed d sv1)
      then show ?thesis
        using Execute assms execute_claimed_executed [of since period now ck c sv1 h v a d]
        by (simp add: executed_def)
    qed
  qed (use assms record_lifecycle_kept acknowledge_lifecycle_kept end_source_until_kept
      service_drain_kept in \<open>auto simp: kept_def\<close>)
  then show "store_trace since period (sv_state_store sv) (sv_state_store (service_call sv call))"
    "sv_epoch (service_call sv call) = sv_epoch sv" "sv_config (service_call sv call) = sv_config sv"
    by blast+
qed

lemma retained_trace:
  assumes "store_ok st" "command_retained since g i st" "store_trace since (ttl_ms st) st st'"
  shows "command_retained since g i st'"
  using assms retained.run unfolding store_trace_def by blast

lemma trace_ok: "store_ok st \<Longrightarrow> store_trace since period st st' \<Longrightarrow> store_ok st'"
  unfolding store_trace_def using egress_run_ok by blast

lemma trace_ttl: "store_trace since period st st' \<Longrightarrow> ttl_ms st' = ttl_ms st"
  unfolding store_trace_def by auto

lemma handed_over_invocations:
  "handed_over v c sv sv' \<Longrightarrow> v \<noteq> i \<Longrightarrow>
     invocations i sv' = invocations i sv + (if cmd_command_id c = i then 1 else 0)"
  by (auto simp: handed_over_def invocations_def end_command_def)

lemma acquired_claim:
  assumes ok: "store_ok st" and claim: "claim_command st e i d t = (Inr Acquired, st1)"
    and time: "in_period since (ttl_ms st) t"
  shows "\<not> command_retained since (ge_gateway_id e) i st" "command_retained since (ge_gateway_id e) i st1"
    "store_ok st1" "ttl_ms st1 = ttl_ms st"
proof -
  let ?c = "ClaimCommand e i d t"
  have acq: "acquires (ge_gateway_id e) i ?c (fst (egress_call st ?c))" using claim by simp
  have "in_window since (ttl_ms st) ?c" using time by (simp add: in_window_def in_period_def)
  then show "\<not> command_retained since (ge_gateway_id e) i st"
    using retained_not_acquired [OF ok] acq by blast
  show "command_retained since (ge_gateway_id e) i st1"
    using acquired_retained [OF ok acq] claim by simp
  show "store_ok st1" using egress_call_ok [OF ok, of ?c] claim by simp
  show "ttl_ms st1 = ttl_ms st" using ttl_ms_call [of st ?c] claim by simp
qed

lemma service_call_invocations:
  assumes ok: "store_ok (sv_state_store sv)"
    and time: "call_in_period since (ttl_ms (sv_state_store sv)) call"
    and draws: "draws_other_than i call" and g: "ge_gateway_id (sv_epoch sv) = g"
  shows "invocations i (service_call sv call) = invocations i sv \<or>
    (invocations i (service_call sv call) = Suc (invocations i sv) \<and>
     \<not> command_retained since g i (sv_state_store sv) \<and>
     command_retained since g i (sv_state_store (service_call sv call)))"
proof (cases call)
  case (Execute w to_vec sha h v ck a c now)
  let ?sv = "service_call sv call" let ?ttl = "ttl_ms (sv_state_store sv)"
  show ?thesis
  proof (cases rule: service_execute_cases [of w to_vec sha h v ck a c now sv])
    case stopped
    then show ?thesis using Execute by (simp add: invocations_def)
  next
    case (claimed d sv1)
    obtain claim st where cl: "claim_command (sv_state_store sv) (sv_epoch sv) (cmd_command_id c) d now = (claim, st)"
      by fastforce
    have "sv_invoked ?sv = sv_invoked sv \<or>
      (claim = Inr Acquired \<and> handed_over v c sv ?sv \<and> store_trace since ?ttl st (sv_state_store ?sv))"
      using execute_claimed_invoked [of since ?ttl ck ?sv h v a c d now sv1 claim st] claimed cl time Execute
      by (auto simp: handed_over_def)
    then consider "sv_invoked ?sv = sv_invoked sv"
      | "claim = Inr Acquired" "handed_over v c sv ?sv" "store_trace since ?ttl st (sv_state_store ?sv)"
      by blast
    then show ?thesis
    proof cases
      case 2
      have t: "in_period since ?ttl now" using time Execute by simp
      note acq = acquired_claim [OF ok cl [unfolded 2(1)] t]
      have "command_retained since (ge_gateway_id (sv_epoch sv)) (cmd_command_id c) (sv_state_store ?sv)"
        using retained_trace [OF acq(3,2)] 2(3) acq(4) by simp
      with acq(1) g handed_over_invocations [OF 2(2), of i] draws Execute show ?thesis
        by (cases "cmd_command_id c = i") simp_all
    qed (simp add: invocations_def)
  qed
next
  case (RecordLifecycle now t a ev)
  then show ?thesis by (simp add: invocations_def)
next
  case (AcknowledgeLifecycle a ack)
  then show ?thesis by (simp add: invocations_def)
next
  case (EndSource h v t late a)
  then show ?thesis using draws by (simp add: end_source_until_invocations)
next
  case (Drain h v t late drained overdue)
  then show ?thesis using draws by (simp add: service_drain_invocations)
qed

section \<open>A fleet of instances on one store\<close>

record Fleet =
  fl_store :: store
  fl_services :: "PrivateEgressCommandService list"

datatype FleetStep =
  Start "PrivateEgressRouteAuthority \<Rightarrow> PrivateEgressTarget \<Rightarrow> uuid \<Rightarrow> bool" millis
    PrivateEgressServiceConfig PrivateEgressGatewayEpoch
| Serve nat ServiceCall

fun fleet_step :: "Fleet \<Rightarrow> FleetStep \<Rightarrow> Fleet" where
  "fleet_step f (Start recover t config epoch) =
     (case service_new_with_state_store recover t config epoch (fl_store f) of
        (Inl _, st) \<Rightarrow> f\<lparr>fl_store := st\<rparr>
      | (Inr sv, st) \<Rightarrow> f\<lparr>fl_store := st, fl_services := fl_services f @ [sv]\<rparr>)"
| "fleet_step f (Serve n call) =
     (if n < length (fl_services f)
      then let sv = service_call (set_store (fl_store f) (fl_services f ! n)) call
           in f\<lparr>fl_store := sv_state_store sv, fl_services := (fl_services f)[n := sv]\<rparr>
      else f)"

definition fleet_run :: "Fleet \<Rightarrow> FleetStep list \<Rightarrow> Fleet" where
  "fleet_run f steps = foldl fleet_step f steps"

lemma fleet_run_simps [simp]:
  "fleet_run f [] = f" "fleet_run f (s # steps) = fleet_run (fleet_step f s) steps"
  by (simp_all add: fleet_run_def)

definition fleet_invocations :: "uuid \<Rightarrow> Fleet \<Rightarrow> nat" where
  "fleet_invocations i f = sum_list (map (invocations i) (fl_services f))"

fun step_in_period :: "millis \<Rightarrow> millis \<Rightarrow> FleetStep \<Rightarrow> bool" where
  "step_in_period since period (Start recover t config epoch) \<longleftrightarrow> in_period since period t"
| "step_in_period since period (Serve n call) \<longleftrightarrow> call_in_period since period call"

fun step_draws_other_than :: "uuid \<Rightarrow> FleetStep \<Rightarrow> bool" where
  "step_draws_other_than i (Start recover t config epoch) \<longleftrightarrow> True"
| "step_draws_other_than i (Serve n call) \<longleftrightarrow> draws_other_than i call"

fun step_of_gateway :: "rstr \<Rightarrow> FleetStep \<Rightarrow> bool" where
  "step_of_gateway g (Start recover t config epoch) \<longleftrightarrow> ge_gateway_id epoch = g"
| "step_of_gateway g (Serve n call) \<longleftrightarrow> True"

definition fleet_ok :: "rstr \<Rightarrow> Fleet \<Rightarrow> bool" where
  "fleet_ok g f \<longleftrightarrow>
     store_ok (fl_store f) \<and> (\<forall>sv \<in> set (fl_services f). ge_gateway_id (sv_epoch sv) = g)"

lemma some_period: "\<exists>since period. call_in_period since period call"
proof (cases call)
  case (Execute w to_vec sha h v ck a c now)
  let ?times = "{now, ck_transition ck, ck_completed ck}"
  have "call_in_period (Min ?times) (Max ?times - Min ?times + 1) call"
    using Execute by (auto simp: in_period_def min_def max_def)
  then show ?thesis by blast
next
  case (RecordLifecycle now t a ev)
  then have "call_in_period t 1 call" by (simp add: in_period_def)
  then show ?thesis by blast
next
  case (EndSource h v t late a)
  then have "call_in_period t 1 call" by (simp add: in_period_def)
  then show ?thesis by blast
next
  case (Drain h v t late drained overdue)
  then have "call_in_period t 1 call" by (simp add: in_period_def)
  then show ?thesis by blast
qed simp

lemma recover_routes_trace:
  "store_trace since period st (snd (recover_routes recover e st rs))"
proof (induction rs arbitrary: st)
  case (Cons r rs)
  have "store_trace since period st (snd (recover_routes recover e st1 rs))"
    if "complete_route_recovery st e (rec_key r) = (x, st1)" for x st1
    by (rule store_trace_trans [OF trace_steps(3) [OF that] Cons.IH])
  then show ?case by (auto split: prod.splits sum.splits intro: trace_steps)
qed simp

lemma start_effect:
  assumes "service_new_with_state_store recover t config epoch st = (x, st')"
  shows "in_period since period t \<Longrightarrow> store_trace since period st st'"
    and "x = Inr sv \<Longrightarrow> sv_invoked sv = [] \<and> sv_epoch sv = epoch"
proof -
  have rec: "store_trace since period st st2"
    if "in_period since period t" "begin_epoch st epoch t = (y, st1)"
      "recover_routes recover epoch st1 rs = (z, st2)" for y st1 rs z st2
    using store_trace_trans [OF timed_trace_steps(6) [OF that(1,2)]] recover_routes_trace that(3)
    by (metis snd_conv)
  then show "in_period since period t \<Longrightarrow> store_trace since period st st'"
    using assms timed_trace_steps(6)
    by (fastforce simp: service_new_with_state_store_def split: sum.splits prod.splits)
  show "x = Inr sv \<Longrightarrow> sv_invoked sv = [] \<and> sv_epoch sv = epoch"
    using assms
    by (auto simp: service_new_with_state_store_def service_build_def split: sum.splits prod.splits)
qed

lemma start_any:
  assumes "service_new_with_state_store recover t config epoch st = (x, st')" "store_ok st"
  shows "store_ok st'"
  using trace_ok [OF assms(2) start_effect(1) [OF assms(1), of t 1]] by (simp add: in_period_def)

lemma fleet_step_ok:
  assumes "fleet_ok g f" "step_of_gateway g s"
  shows "fleet_ok g (fleet_step f s)"
proof (cases s)
  case (Start recover t config epoch)
  obtain x st where new: "service_new_with_state_store recover t config epoch (fl_store f) = (x, st)"
    by fastforce
  have "store_ok st" using start_any [OF new] assms(1) by (simp add: fleet_ok_def)
  then show ?thesis
    using Start new start_effect(2) [OF new] assms by (auto simp: fleet_ok_def split: sum.splits)
next
  case (Serve n call)
  let ?sv = "set_store (fl_store f) (fl_services f ! n)"
  obtain since period where "call_in_period since period call" using some_period by blast
  note trace = service_call_trace [OF this, of ?sv]
  have "store_ok (sv_state_store (service_call ?sv call))"
    using trace_ok [OF _ trace(1)] assms(1) by (simp add: fleet_ok_def)
  moreover have "ge_gateway_id (sv_epoch (service_call ?sv call)) = g" if "n < length (fl_services f)"
    using trace(2) assms(1) that by (simp add: fleet_ok_def)
  ultimately show ?thesis
    using Serve assms(1) by (auto simp: fleet_ok_def Let_def dest!: set_update_subset_insert [THEN subsetD])
qed

lemma fleet_run_ok:
  "fleet_ok g f \<Longrightarrow> \<forall>s \<in> set steps. step_of_gateway g s \<Longrightarrow> fleet_ok g (fleet_run f steps)"
  by (induction steps arbitrary: f) (simp_all add: fleet_step_ok)

lemma fleet_invocations_update:
  "n < length (fl_services f) \<Longrightarrow>
     fleet_invocations i (f\<lparr>fl_store := st, fl_services := (fl_services f)[n := sv]\<rparr>) +
       invocations i (fl_services f ! n) = fleet_invocations i f + invocations i sv"
  by (simp add: fleet_invocations_def map_update sum_list_update)
    (metis add.commute elem_le_sum_list le_add_diff_inverse2 length_map nth_map trans_le_add1)

text \<open>
  One step either hands the command to no handler and keeps its record, or hands it to one handler
  when the store did not hold the record and leaves it there.
\<close>

lemma fleet_step_invocations:
  assumes ok: "fleet_ok g f" and time: "step_in_period since (ttl_ms (fl_store f)) s"
    and draws: "step_draws_other_than i s"
  shows "ttl_ms (fl_store (fleet_step f s)) = ttl_ms (fl_store f)"
    and "command_retained since g i (fl_store f) \<Longrightarrow> command_retained since g i (fl_store (fleet_step f s))"
    and "fleet_invocations i (fleet_step f s) = fleet_invocations i f \<or>
      (fleet_invocations i (fleet_step f s) = Suc (fleet_invocations i f) \<and>
       \<not> command_retained since g i (fl_store f) \<and> command_retained since g i (fl_store (fleet_step f s)))"
proof -
  have st: "store_ok (fl_store f)" using ok by (simp add: fleet_ok_def)
  have "store_trace since (ttl_ms (fl_store f)) (fl_store f) (fl_store (fleet_step f s)) \<and>
    (fleet_invocations i (fleet_step f s) = fleet_invocations i f \<or>
      (fleet_invocations i (fleet_step f s) = Suc (fleet_invocations i f) \<and>
       \<not> command_retained since g i (fl_store f) \<and> command_retained since g i (fl_store (fleet_step f s))))"
  proof (cases s)
    case (Start recover t config epoch)
    obtain x st' where new: "service_new_with_state_store recover t config epoch (fl_store f) = (x, st')"
      by fastforce
    have "invocations i sv = 0" if "x = Inr sv" for sv
      using start_effect(2) [OF new that] by (simp add: invocations_def)
    then show ?thesis
      using Start new start_effect(1) [OF new] time by (auto simp: fleet_invocations_def split: sum.splits)
  next
    case (Serve n call)
    let ?sv = "set_store (fl_store f) (fl_services f ! n)"
    show ?thesis
    proof (cases "n < length (fl_services f)")
      case True
      have same: "invocations i ?sv = invocations i (fl_services f ! n)" by (simp add: invocations_def)
      show ?thesis
        using service_call_invocations [of ?sv since call i g] service_call_trace(1) [of since _ call ?sv]
          fleet_invocations_update [OF True, where i = i and st = "sv_state_store (service_call ?sv call)" and sv = "service_call ?sv call"]
          True Serve st ok time draws same
        by (auto simp: fleet_ok_def Let_def)
    qed (use Serve in simp)
  qed
  then have trace: "store_trace since (ttl_ms (fl_store f)) (fl_store f) (fl_store (fleet_step f s))"
    and count: "fleet_invocations i (fleet_step f s) = fleet_invocations i f \<or>
      (fleet_invocations i (fleet_step f s) = Suc (fleet_invocations i f) \<and>
       \<not> command_retained since g i (fl_store f) \<and> command_retained since g i (fl_store (fleet_step f s)))"
    by blast+
  show "ttl_ms (fl_store (fleet_step f s)) = ttl_ms (fl_store f)" by (rule trace_ttl [OF trace])
  show "command_retained since g i (fl_store f) \<Longrightarrow> command_retained since g i (fl_store (fleet_step f s))"
    using retained_trace [OF st _ trace] .
  show "fleet_invocations i (fleet_step f s) = fleet_invocations i f \<or>
      (fleet_invocations i (fleet_step f s) = Suc (fleet_invocations i f) \<and>
       \<not> command_retained since g i (fl_store f) \<and> command_retained since g i (fl_store (fleet_step f s)))"
    by (rule count)
qed

lemma fleet_handles_once:
  assumes "fleet_ok g f" "\<forall>s \<in> set steps. step_of_gateway g s"
    and "\<forall>s \<in> set steps. step_in_period since (ttl_ms (fl_store f)) s \<and> step_draws_other_than i s"
  shows "fleet_invocations i (fleet_run f steps) \<le>
    fleet_invocations i f + (if command_retained since g i (fl_store f) then 0 else 1)"
  using assms
proof (induction steps arbitrary: f)
  case (Cons s steps)
  let ?f = "fleet_step f s"
  have step: "step_in_period since (ttl_ms (fl_store f)) s" "step_draws_other_than i s"
    using Cons.prems(3) by auto
  note eff = fleet_step_invocations [OF Cons.prems(1) step]
  have "fleet_invocations i (fleet_run ?f steps) \<le>
      fleet_invocations i ?f + (if command_retained since g i (fl_store ?f) then 0 else 1)"
    using Cons.prems eff(1) by (intro Cons.IH fleet_step_ok) auto
  with eff(2,3) show ?case by (auto split: if_splits)
qed simp

section \<open>The cached response of a command\<close>

definition response_cached ::
    "time \<Rightarrow> uuid \<Rightarrow> 256 word \<Rightarrow> PrivateEgressResponse \<Rightarrow> PrivateEgressCommandService \<Rightarrow> bool" where
  "response_cached created i d r sv \<longleftrightarrow>
     (\<exists>r0. entry_of i sv = Some \<lparr>rp_digest = d, rp_created_at = created, rp_response = Some r0\<rparr> \<and>
        r0\<lparr>resp_replayed := True\<rparr> = r\<lparr>resp_replayed := True\<rparr>)"

text \<open>The monotonic clock reading with which an operation sweeps the replay entries.\<close>

fun sweep_reading :: "ServiceCall \<Rightarrow> time option" where
  "sweep_reading (Execute w to_vec sha h v ck a c now) = Some (ck_replay ck)"
| "sweep_reading _ = None"

definition before_expiry :: "time \<Rightarrow> duration \<Rightarrow> ServiceCall \<Rightarrow> bool" where
  "before_expiry created ttl call \<longleftrightarrow>
     (case sweep_reading call of None \<Rightarrow> True | Some now \<Rightarrow> now < created + int ttl)"

lemma cached_not_expired:
  assumes "response_cached created i d r sv" "now < created + int ttl" "0 < ttl"
  shows "\<not> entry_expired now ttl (map_of (rs_entries (sv_replay sv)) i)"
  using assms by (auto simp: response_cached_def entry_of_def entry_expired_def)

lemma cached_swept:
  assumes "response_cached created i d r sv" "now < created + int ttl" "0 < ttl"
  shows "map_of (rs_entries (sweep_replay now ttl (sv_replay sv))) i = entry_of i sv"
  using sweep_keeps_live [OF cached_not_expired [OF assms]] by (simp add: entry_of_def)

lemma cached_execute:
  assumes cached: "response_cached created (cmd_command_id c) d r sv"
    and time: "ck_replay ck < created + int (cfg_replay_ttl (sv_config sv))" "0 < cfg_replay_ttl (sv_config sv)"
    and valid: "command_validate w c now = Inr ()" "cmd_worker c = auth_worker a" "cmd_source c = auth_source a"
    and digest: "command_digest to_vec sha c = Inr d"
    and room: "is_prepare (cmd_operation c) \<longrightarrow>
      length (sv_routes (sweep_terminal_routes (ck_sweep ck) sv)) <
        cfg_max_active_routes (sv_config sv) + cfg_max_replay_entries (sv_config sv)"
  shows "fst (service_execute w to_vec sha h v ck a c now sv) = Inr (r\<lparr>resp_replayed := True\<rparr>)"
    and "sv_invoked (snd (service_execute w to_vec sha h v ck a c now sv)) = sv_invoked sv"
    and "sv_state_store (snd (service_execute w to_vec sha h v ck a c now sv)) = sv_state_store sv"
proof -
  have entry: "map_of (rs_entries (sweep_replay (ck_replay ck) (cfg_replay_ttl (sv_config sv)) (sv_replay sv)))
      (cmd_command_id c) = entry_of (cmd_command_id c) sv"
    by (rule cached_swept [OF cached time])
  obtain r0 where r0: "entry_of (cmd_command_id c) sv =
      Some \<lparr>rp_digest = d, rp_created_at = created, rp_response = Some r0\<rparr>"
    "r0\<lparr>resp_replayed := True\<rparr> = r\<lparr>resp_replayed := True\<rparr>"
    using cached unfolding response_cached_def by blast
  show "fst (service_execute w to_vec sha h v ck a c now sv) = Inr (r\<lparr>resp_replayed := True\<rparr>)"
    "sv_invoked (snd (service_execute w to_vec sha h v ck a c now sv)) = sv_invoked sv"
    "sv_state_store (snd (service_execute w to_vec sha h v ck a c now sv)) = sv_state_store sv"
    using valid digest room entry r0 by (auto simp: service_execute_def Let_def)
qed

lemma cached_call:
  assumes cached: "response_cached created i d r sv" and ttl: "0 < cfg_replay_ttl (sv_config sv)"
    and time: "before_expiry created (cfg_replay_ttl (sv_config sv)) call"
  shows "response_cached created i d r (service_call sv call)"
proof -
  obtain since period where period: "call_in_period since period call" using some_period by blast
  show ?thesis
  proof (cases call)
    case (Execute w to_vec sha h v ck a c now)
    then have t: "ck_replay ck < created + int (cfg_replay_ttl (sv_config sv))"
      using time by (simp add: before_expiry_def)
    note swept = cached_swept [OF cached t ttl]
    show ?thesis
    proof (cases rule: service_execute_cases [of w to_vec sha h v ck a c now sv])
      case stopped
      then show ?thesis
        using stopped(5) [of i] swept cached Execute by (auto simp: response_cached_def)
    next
      case (claimed d' sv1)
      have i: "i \<noteq> cmd_command_id c" using claimed(13) swept cached by (auto simp: response_cached_def)
      then have "entry_of i (service_call sv call) = entry_of i sv1"
        using execute_claimed_executed [of since period now ck c sv1 h v a d'] claimed(1) period Execute
        by (simp add: executed_def)
      with claimed(14) [OF i] swept cached show ?thesis by (simp add: response_cached_def)
    qed
  next
    case (RecordLifecycle now t a ev)
    then show ?thesis
      using cached record_lifecycle_kept [of since period t sv now a ev] period
      by (simp add: response_cached_def entry_of_def kept_def)
  next
    case (AcknowledgeLifecycle a ack)
    then show ?thesis
      using cached acknowledge_lifecycle_kept [of since period sv a ack]
      by (simp add: response_cached_def entry_of_def kept_def)
  next
    case (EndSource h v t late a)
    then show ?thesis
      using cached end_source_until_kept [of since period t sv h v late a] period
      by (simp add: response_cached_def entry_of_def kept_def)
  next
    case (Drain h v t late drained overdue)
    then show ?thesis
      using cached service_drain_kept [of since period t sv h v late drained overdue] period
      by (simp add: response_cached_def entry_of_def kept_def)
  qed
qed

lemma service_call_config [simp]:
  "sv_config (service_call sv call) = sv_config sv" "sv_epoch (service_call sv call) = sv_epoch sv"
  using some_period [of call] service_call_trace(2,3) by blast+

lemma service_run_config [simp]: "sv_config (service_run sv calls) = sv_config sv"
  by (induction calls arbitrary: sv) simp_all

lemma cached_run:
  "response_cached created i d r sv \<Longrightarrow> 0 < cfg_replay_ttl (sv_config sv) \<Longrightarrow>
     \<forall>call \<in> set calls. before_expiry created (cfg_replay_ttl (sv_config sv)) call \<Longrightarrow>
     response_cached created i d r (service_run sv calls)"
  by (induction calls arbitrary: sv) (simp_all add: cached_call)

lemma executed_is_cached:
  assumes first: "service_execute w to_vec sha h v ck a c now sv = (Inr r, sv1)"
    and new: "entry_of (cmd_command_id c) sv = None"
    and digest: "command_digest to_vec sha c = Inr d"
  shows "response_cached (ck_created ck) (cmd_command_id c) d r sv1"
proof -
  have absent: "map_of (rs_entries (sweep_replay now' ttl (sv_replay sv))) (cmd_command_id c) = None" for now' ttl
    using sweep_keeps_absent new by (simp add: entry_of_def)
  let ?sv = "set_replay (cmd_command_id c) \<lparr>rp_digest = d, rp_created_at = ck_created ck, rp_response = None\<rparr>
    ((sweep_terminal_routes (ck_sweep ck) sv)\<lparr>sv_replay :=
       sweep_replay (ck_replay ck) (cfg_replay_ttl (sv_config sv)) (sv_replay sv)\<rparr>)"
  have claimed: "execute_claimed h v ck a c d now ?sv = (Inr r, sv1)"
    using first digest absent by (auto simp: service_execute_def Let_def split: sum.splits if_splits)
  have "entry_of (cmd_command_id c) ?sv =
      Some \<lparr>rp_digest = d, rp_created_at = ck_created ck, rp_response = None\<rparr>"
    by (simp add: entry_of_def set_replay_def)
  from execute_claimed_answer [OF claimed this] show ?thesis
    unfolding response_cached_def by (metis ReplayRecord.update_convs(3))
qed

end
