(* ===== verification/Egress_Service_Properties.thy ===== *)
theory Egress_Service_Properties
  imports Egress_Fleet
begin

text \<open>
  The properties of the gateway's command service, alone and as a fleet of instances on one store.
\<close>

section \<open>Capacity\<close>

text \<open>
  C32: no capacity is leaked. Whatever operations a service performs, and however its handler
  answers, the free permits and the routes that are prepared or active add up to the configured
  maximum; in particular there are never more of those routes than configured.
\<close>

theorem service_capacity_bounded:
  assumes "service_new new_v4 t config = Inr sv0"
  shows "sv_capacity (service_run sv0 calls) + active_routes (service_run sv0 calls) =
    cfg_max_active_routes config"
proof -
  have "sv_config sv0 = config"
    using assms by (auto simp: service_new_def service_build_def result_simps)
  then show ?thesis
    using service_run_ok [OF service_new_ok [OF assms], of calls] active_eq_held
    by (simp add: service_holding_def)
qed

definition sample_config :: PrivateEgressServiceConfig where
  "sample_config =
     \<lparr>cfg_max_active_routes = 2, cfg_max_replay_entries = 4, cfg_replay_ttl = 30000000000,
      cfg_operation_timeout = 1000000000\<rparr>"

definition sample_clock :: "time \<Rightarrow> clock_readings" where
  "sample_clock now =
     \<lparr>ck_sweep = now, ck_replay = now, ck_created = now, ck_retained = now, ck_transition = 2000,
      ck_completed = 2000\<rparr>"

definition sample_prepare :: PrivateEgressCommand where
  "sample_prepare = sample_command\<lparr>cmd_operation :=
     Prepare PrivateEgressTransport.Sip \<lparr>profile_id = [112], profile_revision = [49]\<rparr>
       \<lparr>codec_name = [111], codec_clock_rate_hz = 48000, codec_channels = 2\<rparr> (lit ''sip:a'') []\<rparr>"

definition sample_authority :: PrivateEgressRouteAuthority where
  "sample_authority = \<lparr>auth_worker = sample_lease, auth_source = sample_source\<rparr>"

definition sample_service :: PrivateEgressCommandService where
  "sample_service =
     service_build sample_config (epoch_standalone 1)
       \<lparr>st_max_entries = 4, st_ttl = 30000000000,
        st_state = egress_state_default\<lparr>es_active_epochs := [(lit ''standalone'', 1)]\<rparr>\<rparr>"

lemma sample_service_new: "service_new 1 1000 sample_config = Inr sample_service"
  by (simp add: service_new_def service_config_validate_def sample_config_def sample_service_def
      MemoryPrivateEgressStateStore_new_def MAX_COMMAND_LIFETIME_def activate_def begin_epoch_locked_def
      egress_state_default_def epoch_standalone_def Let_def)

definition sample_execute :: "time \<Rightarrow> PrivateEgressCommand \<Rightarrow> ServiceCall" where
  "sample_execute now c =
     Execute sample_wire (\<lambda>_. Some [1]) (\<lambda>_. 7) (\<lambda>_ _. Finished None) 99 (sample_clock now)
       sample_authority c 2000"

theorem service_capacity_bounded_witness:
  "sv_capacity (service_run sample_service [sample_execute 0 sample_prepare]) +
     active_routes (service_run sample_service [sample_execute 0 sample_prepare]) = 2"
  using service_capacity_bounded [OF sample_service_new, of "[sample_execute 0 sample_prepare]"]
  by (simp add: sample_config_def)

section \<open>Exactly one execution\<close>

text \<open>
  C31: an executed command is not executed again. After a service answered a command it had not
  seen, and after any further operations, the same command is answered with the same response,
  marked as replayed, as long as its replay entry has not expired and the command still passes its
  own check; for a Prepare command the route table must also have room. The handler is not called
  and the store is not touched.
\<close>

theorem executed_command_is_answered_from_cache:
  assumes "service_execute w to_vec sha h v ck a c now sv = (Inr r, sv1)"
    and "entry_of (cmd_command_id c) sv = None"
    and "service_config_validate (sv_config sv) = Inr ()"
    and "\<forall>call \<in> set calls. before_expiry (ck_created ck) (cfg_replay_ttl (sv_config sv)) call"
    and "sv2 = service_run sv1 calls"
    and "command_validate w c now' = Inr ()"
    and "ck_replay ck' < ck_created ck + int (cfg_replay_ttl (sv_config sv))"
    and "is_prepare (cmd_operation c) \<longrightarrow>
      length (sv_routes (sweep_terminal_routes (ck_sweep ck') sv2)) <
        cfg_max_active_routes (sv_config sv) + cfg_max_replay_entries (sv_config sv)"
  shows "fst (service_execute w to_vec sha h' v' ck' a c now' sv2) = Inr (r\<lparr>resp_replayed := True\<rparr>) \<and>
    sv_invoked (snd (service_execute w to_vec sha h' v' ck' a c now' sv2)) = sv_invoked sv2 \<and>
    sv_state_store (snd (service_execute w to_vec sha h' v' ck' a c now' sv2)) = sv_state_store sv2"
proof -
  have ttl: "0 < cfg_replay_ttl (sv_config sv)"
    using assms(3) by (auto simp: service_config_validate_def MAX_COMMAND_LIFETIME_def split: if_splits)
  have own: "cmd_worker c = auth_worker a" "cmd_source c = auth_source a"
    using assms(1) by (auto simp: service_execute_def Let_def split: sum.splits if_splits)
  obtain d where d: "command_digest to_vec sha c = Inr d"
    using assms(1) by (auto simp: service_execute_def Let_def split: sum.splits if_splits)
  have config: "sv_config sv1 = sv_config sv"
    using service_call_config(1) [of sv "Execute w to_vec sha h v ck a c now"] assms(1) by simp
  have "response_cached (ck_created ck) (cmd_command_id c) d r sv1"
    by (rule executed_is_cached [OF assms(1,2) d])
  then have "response_cached (ck_created ck) (cmd_command_id c) d r sv2"
    using cached_run assms(4,5) ttl config by simp
  from cached_execute [OF this, of ck' w now' a to_vec sha h' v'] show ?thesis
    using assms(5-8) ttl own d config by simp
qed

lemmas service_eval =
  service_execute_def sweep_terminal_routes_def command_digest_def execute_claimed_def execute_once_def
  run_handler_def finish_transition_def record_response_def set_replay_def set_store_def set_cell_def
  cell_content_def assert_epoch_def expected_state_def is_prepare_def release_permit_def

definition sample_prepared :: PrivateEgressResponse where
  "sample_prepared =
     \<lparr>resp_version = PROTOCOL_VERSION, resp_command_id = 40, resp_accepted = True,
      resp_replayed = False, resp_state = Some Prepared, resp_failure_code = None,
      resp_external_reference = None\<rparr>"

lemmas sample_service_eval =
  sample_service_def service_build_def sample_clock_def sample_authority_def sample_config_def
  epoch_standalone_def egress_state_default_def sample_prepare_def sample_command_def
  sample_prepared_def

lemma sample_prepare_valid: "command_validate sample_wire sample_prepare 2000 = Inr ()"
  by (simp add: command_validate_def sample_prepare_def sample_command_def PROTOCOL_VERSION_def
      checked_i64_def I64_MAX_def I64_MIN_def as_millis_def MAX_COMMAND_LIFETIME_def MAX_CLOCK_SKEW_def
      sat_i64_def MAX_PROFILE_ID_BYTES_def MAX_PROFILE_REVISION_BYTES_def valid_component_def
      component_byte_def codec_ok_def context_ok_def MAX_CONTEXT_ENTRIES_def MAX_TARGET_BYTES_def
      starts_with_def utf8_char_len_def ascii_alphanumeric_def ascii_lowercase_def ascii_uppercase_def
      ascii_digit_def is_control_def lit_def)

lemma sample_prepare_answer:
  "fst (service_execute sample_wire (\<lambda>_. Some [1]) (\<lambda>_. 7) (\<lambda>_ _. Finished None) 99 (sample_clock 0)
     sample_authority sample_prepare 2000 sample_service) = Inr sample_prepared"
  unfolding service_execute_def sample_prepare_valid
  by (simp add: service_eval egress_eval sweep_replay_step sample_service_eval)

lemma service_drain_routes:
  "sv_routes (snd (service_drain h v t late drained overdue sv)) = []"
  "sv_terminal_routes (snd (service_drain h v t late drained overdue sv)) = []"
  unfolding service_drain_def Let_def case_prod_beta by (auto split: option.splits)

theorem executed_command_is_answered_from_cache_witness:
  "\<exists>sv1. service_execute sample_wire (\<lambda>_. Some [1]) (\<lambda>_. 7) (\<lambda>_ _. Finished None) 99 (sample_clock 0)
       sample_authority sample_prepare 2000 sample_service = (Inr sample_prepared, sv1) \<and>
     fst (service_execute sample_wire (\<lambda>_. Some [1]) (\<lambda>_. 7) (\<lambda>_ _. TimedOut) 98 (sample_clock 20)
       sample_authority sample_prepare 2000
       (service_run sv1 [Drain (\<lambda>_ _. TimedOut) (\<lambda>_. 97) 2000 (\<lambda>_. False) (Inr ()) False])) =
     Inr (sample_prepared\<lparr>resp_replayed := True\<rparr>)"
proof -
  obtain sv1 where first: "service_execute sample_wire (\<lambda>_. Some [1]) (\<lambda>_. 7) (\<lambda>_ _. Finished None) 99
      (sample_clock 0) sample_authority sample_prepare 2000 sample_service = (Inr sample_prepared, sv1)"
    using sample_prepare_answer by (metis prod.collapse)
  let ?calls = "[Drain (\<lambda>_ _. TimedOut) (\<lambda>_. 97) 2000 (\<lambda>_. False) (Inr ()) False]"
  have config: "sv_config sample_service = sample_config"
    by (simp add: sample_service_def service_build_def)
  have "entry_of (cmd_command_id sample_prepare) sample_service = None"
    by (simp add: sample_service_def service_build_def entry_of_def)
  moreover have "service_config_validate (sv_config sample_service) = Inr ()"
    by (simp add: config service_config_validate_def sample_config_def MAX_COMMAND_LIFETIME_def)
  moreover have "length (sv_routes (sweep_terminal_routes n (service_run sv1 ?calls))) = 0" for n
    by (simp add: sweep_terminal_routes_def service_drain_routes)
  ultimately have "fst (service_execute sample_wire (\<lambda>_. Some [1]) (\<lambda>_. 7) (\<lambda>_ _. TimedOut) 98 (sample_clock 20)
       sample_authority sample_prepare 2000 (service_run sv1 ?calls)) = Inr (sample_prepared\<lparr>resp_replayed := True\<rparr>)"
    using executed_command_is_answered_from_cache [OF first, of ?calls "service_run sv1 ?calls" 2000 "sample_clock 20"]
    by (simp add: before_expiry_def config sample_prepare_valid sample_clock_def sample_config_def)
  with first show ?thesis by blast
qed

text \<open>
  C29: a command is handled once. Over all instances of a gateway that share a store, restarted and
  superseded ones included, and all operations they perform, at most one handler call with a given
  command identifier happens in any period of the store's retention time, provided the random
  identifiers that the services draw for their own End commands differ from it.
\<close>

theorem command_handled_once:
  assumes "MemoryPrivateEgressStateStore_new max_entries ttl = Inr st"
    and "f = fleet_run \<lparr>fl_store = st, fl_services = []\<rparr> earlier"
    and "\<forall>s \<in> set (earlier @ steps). step_of_gateway gateway s"
    and "\<forall>s \<in> set steps. step_in_period since (ttl_ms (fl_store f)) s \<and> step_draws_other_than command_id s"
  shows "fleet_invocations command_id (fleet_run f steps) \<le> fleet_invocations command_id f + 1"
proof -
  have "fleet_ok gateway \<lparr>fl_store = st, fl_services = []\<rparr>"
    using new_store_ok [OF assms(1)] by (simp add: fleet_ok_def)
  then have "fleet_ok gateway f" using fleet_run_ok assms(2,3) by simp
  from fleet_handles_once [OF this _ assms(4)] assms(3) show ?thesis by (auto split: if_splits)
qed

theorem command_handled_once_witness:
  "fleet_invocations 40
     (fleet_run \<lparr>fl_store = sample_egress_store, fl_services = []\<rparr>
        [Start (\<lambda>_ _ _. True) 1998 sample_config first_instance, Serve 0 (sample_execute 0 sample_prepare),
         Start (\<lambda>_ _ _. True) 2001 sample_config second_instance, Serve 1 (sample_execute 9 sample_prepare),
         Serve 0 (sample_execute 9 sample_prepare)]) \<le> 1"
  using command_handled_once [OF sample_store_new refl, of "[]"
      "[Start (\<lambda>_ _ _. True) 1998 sample_config first_instance, Serve 0 (sample_execute 0 sample_prepare),
         Start (\<lambda>_ _ _. True) 2001 sample_config second_instance, Serve 1 (sample_execute 9 sample_prepare),
         Serve 0 (sample_execute 9 sample_prepare)]" "[103]" 1998 40]
  by (simp add: sample_ttl first_instance_def second_instance_def sample_execute_def sample_clock_def
      in_period_def fleet_invocations_def)

text \<open>
  C30: only admitted commands reach the handler. If executing a command calls the handler at all,
  then the command was valid and came from its owner, no response of it was cached, the store
  acquired it for this call, the gateway instance was live, a Prepare came before draining, and the
  operation was legal in the state of its route; and the handler was given exactly this command,
  followed at most by the End command that cleans up its route.
\<close>

theorem only_admitted_commands_reach_the_handler:
  "let sv' = snd (service_execute w to_vec sha h v ck a c now sv)
   in sv_invoked sv' = sv_invoked sv \<or>
     (command_validate w c now = Inr () \<and> cmd_worker c = auth_worker a \<and> cmd_source c = auth_source a \<and>
      (\<exists>d. command_digest to_vec sha c = Inr d \<and>
         fst (claim_command (sv_state_store sv) (sv_epoch sv) (cmd_command_id c) d now) = Inr Acquired) \<and>
      entry_of (cmd_command_id c)
        (sv\<lparr>sv_replay := sweep_replay (ck_replay ck) (cfg_replay_ttl (sv_config sv)) (sv_replay sv)\<rparr>) = None \<and>
      admitted_by (sweep_terminal_routes (ck_sweep ck) sv) c \<and> handed_over v c sv sv')"
proof -
  let ?call = "Execute w to_vec sha h v ck a c now"
  obtain since period where "call_in_period since period ?call" using some_period by blast
  then have period: "in_period since period (ck_transition ck)" "in_period since period (ck_completed ck)"
    by simp_all
  show ?thesis
  proof (cases rule: service_execute_cases [of w to_vec sha h v ck a c now sv])
    case stopped
    then show ?thesis by (simp add: Let_def)
  next
    case (claimed d sv1)
    obtain claim st where cl: "claim_command (sv_state_store sv) (sv_epoch sv) (cmd_command_id c) d now = (claim, st)"
      by fastforce
    have "admitted_by sv1 c = admitted_by (sweep_terminal_routes (ck_sweep ck) sv) c"
      using claimed(3-7) by (simp add: admitted_by_def)
    with execute_claimed_invoked [OF period, of "snd (execute_claimed h v ck a c d now sv1)" h v a c d now sv1 claim st]
      cl claimed
    show ?thesis unfolding Let_def by (auto simp: handed_over_def entry_of_def)
  qed
qed

text \<open>
  C33: the sweep of the replay entries ends, and when it does it has removed exactly the longest
  prefix of the completion queue whose entries have expired, and their entries, and nothing else.
\<close>

theorem sweep_replay_terminates:
  "rs_completed (sweep_replay now ttl s) =
     dropWhile (\<lambda>i. entry_expired now ttl (map_of (rs_entries s) i)) (rs_completed s) \<and>
   map_of (rs_entries (sweep_replay now ttl s)) =
     (\<lambda>i. if i \<in> set (takeWhile (\<lambda>i. entry_expired now ttl (map_of (rs_entries s) i)) (rs_completed s))
           then None else map_of (rs_entries s) i)"
  by (simp add: sweep_replay_result)

section \<open>A replay entry that is never swept\<close>

text \<open>
  When the durable completion of a command fails, its replay entry gets a response but is not put on
  the completion queue; no sweep removes such an entry, however late it runs.
\<close>

lemma failed_completion_is_not_queued:
  assumes "claim_command (sv_state_store sv) (sv_epoch sv) (cmd_command_id c) d now = (Inr Acquired, st)"
    and "execute_once handler v ck a c (set_store st sv) = (result, sv1)"
    and "complete_command (sv_state_store sv1) (sv_epoch sv1) (cmd_command_id c) d
      (case result of Inr r \<Rightarrow> r | Inl e \<Rightarrow> response_rejected (cmd_command_id c) e) (ck_completed ck) =
      (Inl error, st2)"
    and "entry_of (cmd_command_id c) sv = Some x" "cmd_command_id c \<notin> set (rs_completed (sv_replay sv))"
  defines "sv' \<equiv> snd (execute_claimed handler v ck a c d now sv)"
  shows "entry_of (cmd_command_id c) sv' =
      Some (x\<lparr>rp_response := Some (response_rejected (cmd_command_id c) error)\<rparr>)"
    and "map_of (rs_entries (sweep_replay later ttl (sv_replay sv'))) (cmd_command_id c) =
      entry_of (cmd_command_id c) sv'"
proof -
  have "kept (ck_transition ck) 1 (set_store st sv) sv1"
    using execute_once_kept [of "ck_transition ck" 1 ck "set_store st sv" handler v a c] assms(2)
    by (simp add: in_period_def)
  then have replay: "sv_replay sv1 = sv_replay sv" by (simp add: kept_def)
  then have entry: "map_of (rs_entries (sv_replay sv1)) (cmd_command_id c) = Some x"
    using assms(4) by (simp add: entry_of_def)
  have sv': "sv_replay sv' = (sv_replay sv)\<lparr>rs_entries := AList.update (cmd_command_id c)
      (x\<lparr>rp_response := Some (response_rejected (cmd_command_id c) error)\<rparr>) (rs_entries (sv_replay sv))\<rparr>"
    using assms(1-3) entry replay
    by (simp add: sv'_def execute_claimed_def Let_def record_response_def set_replay_def)
  then show entry': "entry_of (cmd_command_id c) sv' =
      Some (x\<lparr>rp_response := Some (response_rejected (cmd_command_id c) error)\<rparr>)"
    by (simp add: entry_of_def)
  show "map_of (rs_entries (sweep_replay later ttl (sv_replay sv'))) (cmd_command_id c) =
      entry_of (cmd_command_id c) sv'"
    using assms(5) sv' by (auto simp: sweep_replay_result(2) entry_of_def dest: set_takeWhileD)
qed

end
