(* ===== verification/Broadcast_Commands.thy ===== *)
theory Broadcast_Commands
  imports Coord_Model Assoc_Map
begin

text \<open>
  The durable queue of broadcast commands between gateways and workers
  (\<open>src/broadcast/commands.rs\<close>) with its standalone repository: a gateway enqueues the start or the
  stop of a broadcast under an idempotency key, the worker that owns the broadcast claims the
  commands for a limited time and completes them, and stale workers are failed. Each operation takes
  the state behind the mutex and returns its result with the state it leaves, also when it fails.
  Hash maps are association lists; clock readings and random identifiers are arguments. The parser
  of UUIDs belongs to an external library and is an argument too; JSON values are a type parameter.
\<close>

declare map_of_eq_Some_iff [simp del]

section \<open>Data\<close>

definition BROADCAST_MAX_CLAIM_TTL :: duration where
  "BROADCAST_MAX_CLAIM_TTL = 5 * 60 * 1000000000"
definition MAX_BATCH :: nat where "MAX_BATCH = 64"

datatype DurableBroadcastTransport = Moqt | UctpQuic

record DurableBroadcastSpec =
  spec_broadcast_id :: rstr
  spec_tenant_id :: TenantId
  spec_call_id :: CallId
  spec_source_leg_id :: LegId
  spec_source_binding_generation :: BindingGeneration
  spec_worker :: WorkerLease
  spec_transport :: DurableBroadcastTransport
  spec_language :: "rstr option"
  spec_sanitized_events :: bool
  spec_expires_at :: time

record 'v DurableBroadcastRuntime =
  run_endpoint :: 'v
  run_protocol :: 'v
  run_lifecycle :: 'v
  run_health :: 'v
  run_sanitized_events :: bool
  run_grant_generation :: "uuid option"

datatype DurableBroadcastState = Pending | Active | Deleting | Deleted | Failed

record 'v DurableBroadcastRecord =
  br_specification :: DurableBroadcastSpec
  br_state :: DurableBroadcastState
  br_runtime :: "'v DurableBroadcastRuntime option"
  br_failure_code :: "rstr option"
  br_created_at :: time
  br_updated_at :: time

record BroadcastOperationIdentity =
  oi_idempotency_digest :: "256 word"
  oi_request_digest :: "256 word"

record 'v BroadcastEnqueueOutcome =
  eo_record :: "'v DurableBroadcastRecord"
  eo_replayed :: bool

datatype DurableBroadcastCommandKind = Start | Stop

record 'v ClaimedBroadcastCommand =
  cb_command_id :: uuid
  cb_kind :: DurableBroadcastCommandKind
  cb_claim_generation :: u64
  cb_record :: "'v DurableBroadcastRecord"

datatype 'v BroadcastCommandResult =
  Started "'v DurableBroadcastRuntime"
| Stopped
| Failed rstr

datatype BroadcastCommandError =
  Unavailable
| InvalidData
| NotFound
| IdempotencyConflict
| CapacityExceeded
| InvalidTransition
| StaleClaim

datatype MemoryCommandState = Pending | Claimed | Succeeded | Failed

record MemoryBroadcastCommand =
  mc_command_id :: uuid
  mc_broadcast_id :: rstr
  mc_worker :: WorkerLease
  mc_kind :: DurableBroadcastCommandKind
  mc_available_at :: time
  mc_claim_generation :: u64
  mc_claim_expires_at :: "time option"
  mc_state :: MemoryCommandState

record 'v MemoryBroadcastState =
  mb_records :: "(rstr \<times> 'v DurableBroadcastRecord) list"
  mb_create_receipts :: "((TenantId \<times> 256 word) \<times> (256 word \<times> rstr)) list"
  mb_delete_receipts :: "((TenantId \<times> 256 word) \<times> (256 word \<times> rstr)) list"
  mb_commands :: "(uuid \<times> MemoryBroadcastCommand) list"

type_synonym ('v, 'a) broadcast_reply = "(BroadcastCommandError, 'a) result \<times> 'v MemoryBroadcastState"

definition MemoryBroadcastCommandRepository_new :: "'v MemoryBroadcastState" where
  "MemoryBroadcastCommandRepository_new =
     \<lparr>mb_records = [], mb_create_receipts = [], mb_delete_receipts = [], mb_commands = []\<rparr>"

fun transport_database_value :: "DurableBroadcastTransport \<Rightarrow> rstr" where
  "transport_database_value Moqt = lit ''moqt''"
| "transport_database_value UctpQuic = lit ''uctp_quic''"

definition state_parse :: "rstr \<Rightarrow> (BroadcastCommandError, DurableBroadcastState) result" where
  "state_parse v =
     (if v = lit ''pending'' then Inr DurableBroadcastState.Pending
      else if v = lit ''active'' then Inr Active
      else if v = lit ''deleting'' then Inr Deleting
      else if v = lit ''deleted'' then Inr Deleted
      else if v = lit ''failed'' then Inr DurableBroadcastState.Failed
      else Inl InvalidData)"

definition kind_parse :: "rstr \<Rightarrow> (BroadcastCommandError, DurableBroadcastCommandKind) result" where
  "kind_parse v =
     (if v = lit ''start'' then Inr Start else if v = lit ''stop'' then Inr Stop else Inl InvalidData)"

section \<open>Checks\<close>

definition validate_broadcast_id ::
    "(rstr \<Rightarrow> uuid option) \<Rightarrow> rstr \<Rightarrow> (BroadcastCommandError, unit) result" where
  "validate_broadcast_id parse_str v =
     (case parse_str v of
        Some i \<Rightarrow> if i \<noteq> 0 then Inr () else Inl InvalidData
      | None \<Rightarrow> Inl InvalidData)"

definition validate_specification ::
    "(rstr \<Rightarrow> uuid option) \<Rightarrow> time \<Rightarrow> DurableBroadcastSpec \<Rightarrow> (BroadcastCommandError, unit) result" where
  "validate_specification parse_str now spec =
     and_then (validate_broadcast_id parse_str (spec_broadcast_id spec)) (\<lambda>_.
       if spec_expires_at spec \<le> now \<or>
          (case spec_language spec of None \<Rightarrow> False
           | Some language \<Rightarrow> utf8_len language > 64 \<or> list_ex is_control language)
       then Inl InvalidData else Inr ())"

text \<open>The states in which a broadcast occupies its worker.\<close>

definition occupies :: "DurableBroadcastState \<Rightarrow> bool" where
  "occupies s \<longleftrightarrow> s = DurableBroadcastState.Pending \<or> s = Active \<or> s = Deleting"

definition active_count :: "WorkerLease \<Rightarrow> (rstr \<times> 'v DurableBroadcastRecord) list \<Rightarrow> nat" where
  "active_count worker records =
     length (filter (\<lambda>(_, r). spec_worker (br_specification r) = worker \<and> occupies (br_state r)) records)"

section \<open>Enqueueing\<close>

definition new_command ::
    "uuid \<Rightarrow> rstr \<Rightarrow> WorkerLease \<Rightarrow> DurableBroadcastCommandKind \<Rightarrow> time \<Rightarrow> MemoryBroadcastCommand" where
  "new_command command_id broadcast_id worker kind available_at =
     \<lparr>mc_command_id = command_id, mc_broadcast_id = broadcast_id, mc_worker = worker, mc_kind = kind,
      mc_available_at = available_at, mc_claim_generation = 0, mc_claim_expires_at = None,
      mc_state = MemoryCommandState.Pending\<rparr>"

text \<open>\<open>checked_at\<close> is the reading of the clock in the validation, \<open>now\<close> the one stored.\<close>

definition enqueue_start ::
    "(rstr \<Rightarrow> uuid option) \<Rightarrow> time \<Rightarrow> time \<Rightarrow> uuid \<Rightarrow> 'v MemoryBroadcastState \<Rightarrow> DurableBroadcastSpec \<Rightarrow>
     BroadcastOperationIdentity \<Rightarrow> nat \<Rightarrow> ('v, 'v BroadcastEnqueueOutcome) broadcast_reply" where
  "enqueue_start parse_str checked_at now new_v4 s spec identity max_active =
     (case validate_specification parse_str checked_at spec of
        Inl e \<Rightarrow> (Inl e, s)
      | Inr _ \<Rightarrow>
          let receipt_key = (spec_tenant_id spec, oi_idempotency_digest identity)
          in (case map_of (mb_create_receipts s) receipt_key of
                Some (request_digest, broadcast_id) \<Rightarrow>
                  if request_digest \<noteq> oi_request_digest identity then (Inl IdempotencyConflict, s)
                  else
                    (case map_of (mb_records s) broadcast_id of
                       None \<Rightarrow> (Inl InvalidData, s)
                     | Some record \<Rightarrow> (Inr \<lparr>eo_record = record, eo_replayed = True\<rparr>, s))
              | None \<Rightarrow>
                  if max_active = 0 \<or> active_count (spec_worker spec) (mb_records s) \<ge> max_active
                  then (Inl CapacityExceeded, s)
                  else
                    let record = \<lparr>br_specification = spec, br_state = DurableBroadcastState.Pending,
                                  br_runtime = None, br_failure_code = None, br_created_at = now,
                                  br_updated_at = now\<rparr>
                    in (Inr \<lparr>eo_record = record, eo_replayed = False\<rparr>,
                        s\<lparr>mb_create_receipts := AList.update receipt_key
                             (oi_request_digest identity, spec_broadcast_id spec) (mb_create_receipts s),
                          mb_records := AList.update (spec_broadcast_id spec) record (mb_records s),
                          mb_commands := AList.update new_v4
                             (new_command new_v4 (spec_broadcast_id spec) (spec_worker spec) Start now)
                             (mb_commands s)\<rparr>)))"

definition put_record ::
    "rstr \<Rightarrow> 'v DurableBroadcastRecord \<Rightarrow> 'v MemoryBroadcastState \<Rightarrow> 'v MemoryBroadcastState" where
  "put_record broadcast_id r s = s\<lparr>mb_records := AList.update broadcast_id r (mb_records s)\<rparr>"

definition put_command :: "uuid \<Rightarrow> MemoryBroadcastCommand \<Rightarrow> 'v MemoryBroadcastState \<Rightarrow> 'v MemoryBroadcastState" where
  "put_command command_id c s = s\<lparr>mb_commands := AList.update command_id c (mb_commands s)\<rparr>"

definition has_stop :: "rstr \<Rightarrow> 'v MemoryBroadcastState \<Rightarrow> bool" where
  "has_stop broadcast_id s \<longleftrightarrow>
     list_ex (\<lambda>(_, c). mc_broadcast_id c = broadcast_id \<and> mc_kind c = Stop) (mb_commands s)"

text \<open>\<open>now\<close> is stored with the record, \<open>available_at\<close> with a new command.\<close>

definition enqueue_stop ::
    "(rstr \<Rightarrow> uuid option) \<Rightarrow> time \<Rightarrow> time \<Rightarrow> uuid \<Rightarrow> 'v MemoryBroadcastState \<Rightarrow> TenantId \<Rightarrow> rstr \<Rightarrow>
     BroadcastOperationIdentity \<Rightarrow> ('v, 'v BroadcastEnqueueOutcome) broadcast_reply" where
  "enqueue_stop parse_str now available_at new_v4 s tenant_id broadcast_id identity =
     (case validate_broadcast_id parse_str broadcast_id of
        Inl e \<Rightarrow> (Inl e, s)
      | Inr _ \<Rightarrow>
          let receipt_key = (tenant_id, oi_idempotency_digest identity);
              receipt = (\<lambda>s. s\<lparr>mb_delete_receipts := AList.update receipt_key
                                 (oi_request_digest identity, broadcast_id) (mb_delete_receipts s)\<rparr>)
          in (case map_of (mb_delete_receipts s) receipt_key of
                Some (request_digest, retained_id) \<Rightarrow>
                  if request_digest \<noteq> oi_request_digest identity then (Inl IdempotencyConflict, s)
                  else
                    (case map_of (mb_records s) retained_id of
                       None \<Rightarrow> (Inl InvalidData, s)
                     | Some record \<Rightarrow>
                         if br_state record = DurableBroadcastState.Failed
                         then if br_runtime record \<noteq> None then (Inl InvalidTransition, s)
                              else let record1 = record\<lparr>br_state := Deleted, br_updated_at := now\<rparr>
                                   in (Inr \<lparr>eo_record = record1, eo_replayed = True\<rparr>,
                                       put_record retained_id record1 s)
                         else (Inr \<lparr>eo_record = record, eo_replayed = True\<rparr>, s))
              | None \<Rightarrow>
                  (case map_of (mb_records s) broadcast_id of
                     None \<Rightarrow> (Inl NotFound, s)
                   | Some record \<Rightarrow>
                       if spec_tenant_id (br_specification record) \<noteq> tenant_id then (Inl NotFound, s)
                       else if br_state record = DurableBroadcastState.Failed
                       then if br_runtime record \<noteq> None then (Inl InvalidTransition, s)
                            else let record1 = record\<lparr>br_state := Deleted, br_updated_at := now\<rparr>
                                 in (Inr \<lparr>eo_record = record1, eo_replayed = False\<rparr>,
                                     receipt (put_record broadcast_id record1 s))
                       else if br_state record \<noteq> Deleted
                       then let record1 = record\<lparr>br_state := Deleting, br_updated_at := now\<rparr>;
                                s1 = put_record broadcast_id record1 s;
                                s2 = (if has_stop broadcast_id s1 then s1
                                      else put_command new_v4
                                             (new_command new_v4 broadcast_id
                                                (spec_worker (br_specification record)) Stop available_at) s1)
                            in (Inr \<lparr>eo_record = record1, eo_replayed = False\<rparr>, receipt s2)
                       else (Inr \<lparr>eo_record = record, eo_replayed = False\<rparr>, receipt s))))"

definition broadcast_get ::
    "(rstr \<Rightarrow> uuid option) \<Rightarrow> 'v MemoryBroadcastState \<Rightarrow> TenantId \<Rightarrow> rstr \<Rightarrow>
     (BroadcastCommandError, 'v DurableBroadcastRecord option) result" where
  "broadcast_get parse_str s tenant_id broadcast_id =
     and_then (validate_broadcast_id parse_str broadcast_id) (\<lambda>_.
       Inr (case map_of (mb_records s) broadcast_id of
              None \<Rightarrow> None
            | Some r \<Rightarrow> if spec_tenant_id (br_specification r) = tenant_id then Some r else None))"

section \<open>Claims\<close>

definition ready_for_claim :: "WorkerLease \<Rightarrow> time \<Rightarrow> MemoryBroadcastCommand \<Rightarrow> bool" where
  "ready_for_claim worker now c \<longleftrightarrow>
     mc_worker c = worker \<and> mc_available_at c \<le> now \<and>
     (mc_state c = MemoryCommandState.Pending \<or>
      (mc_state c = Claimed \<and>
       (case mc_claim_expires_at c of None \<Rightarrow> False | Some expiry \<Rightarrow> expiry \<le> now)))"

text \<open>
  The identifiers of the ready_for_claim commands, sorted by the pairs of availability and identifier.
\<close>

definition claim_order :: "WorkerLease \<Rightarrow> time \<Rightarrow> (uuid \<times> MemoryBroadcastCommand) list \<Rightarrow> uuid list" where
  "claim_order worker now commands =
     map snd (sort_key fst (sort_key snd
       (map (\<lambda>(_, c). (mc_available_at c, mc_command_id c))
          (filter (\<lambda>(_, c). ready_for_claim worker now c) commands))))"

text \<open>The loop over the identifiers; \<open>- 1\<close> is \<open>u64::MAX\<close>.\<close>

fun claim_commands ::
    "time \<Rightarrow> uuid list \<Rightarrow> 'v MemoryBroadcastState \<Rightarrow> ('v, 'v ClaimedBroadcastCommand list) broadcast_reply" where
  "claim_commands expires_at [] s = (Inr [], s)"
| "claim_commands expires_at (command_id # ids) s =
     (case map_of (mb_commands s) command_id of
        None \<Rightarrow> (Inl InvalidData, s)
      | Some c \<Rightarrow>
          if mc_claim_generation c = - 1 then (Inl InvalidData, s)
          else
            let generation = mc_claim_generation c + 1;
                s1 = put_command command_id
                       (c\<lparr>mc_claim_generation := generation, mc_claim_expires_at := Some expires_at,
                          mc_state := Claimed\<rparr>) s
            in (case map_of (mb_records s1) (mc_broadcast_id c) of
                  None \<Rightarrow> (Inl InvalidData, s1)
                | Some r \<Rightarrow>
                    (case claim_commands expires_at ids s1 of
                       (Inl e, s2) \<Rightarrow> (Inl e, s2)
                     | (Inr claims, s2) \<Rightarrow>
                         (Inr (\<lparr>cb_command_id = command_id, cb_kind = mc_kind c,
                                cb_claim_generation = generation, cb_record = r\<rparr> # claims), s2))))"

definition broadcast_claim ::
    "chrono \<Rightarrow> time \<Rightarrow> 'v MemoryBroadcastState \<Rightarrow> WorkerLease \<Rightarrow> duration \<Rightarrow> nat \<Rightarrow>
     ('v, 'v ClaimedBroadcastCommand list) broadcast_reply" where
  "broadcast_claim ch now s worker claim_ttl limit =
     (if claim_ttl = 0 \<or> claim_ttl > BROADCAST_MAX_CLAIM_TTL \<or> limit = 0 \<or> limit > MAX_BATCH
      then (Inl InvalidData, s)
      else
        (case delta_from_std ch claim_ttl of
           None \<Rightarrow> (Inl InvalidData, s)
         | Some delta \<Rightarrow>
             (case checked_add_signed ch now delta of
                None \<Rightarrow> (Inl InvalidData, s)
              | Some expires_at \<Rightarrow>
                  claim_commands expires_at (take limit (claim_order worker now (mb_commands s))) s)))"

definition completion ::
    "DurableBroadcastCommandKind \<Rightarrow> 'v BroadcastCommandResult \<Rightarrow>
     (MemoryCommandState \<times> DurableBroadcastState \<times> 'v DurableBroadcastRuntime option \<times> rstr option) option" where
  "completion kind result =
     (case result of
        Started runtime \<Rightarrow>
          if kind = Start then Some (Succeeded, Active, Some runtime, None) else None
      | Stopped \<Rightarrow> if kind = Stop then Some (Succeeded, Deleted, None, None) else None
      | BroadcastCommandResult.Failed code \<Rightarrow>
          Some (MemoryCommandState.Failed, DurableBroadcastState.Failed, None, Some code))"

definition broadcast_complete ::
    "time \<Rightarrow> 'v MemoryBroadcastState \<Rightarrow> 'v ClaimedBroadcastCommand \<Rightarrow> 'v BroadcastCommandResult \<Rightarrow>
     ('v, 'v DurableBroadcastRecord) broadcast_reply" where
  "broadcast_complete now s claim result =
     (case map_of (mb_commands s) (cb_command_id claim) of
        None \<Rightarrow> (Inl StaleClaim, s)
      | Some c \<Rightarrow>
          if mc_state c \<noteq> Claimed \<or> mc_claim_generation c \<noteq> cb_claim_generation claim \<or>
             mc_kind c \<noteq> cb_kind claim
          then (Inl StaleClaim, s)
          else
            (case completion (cb_kind claim) result of
               None \<Rightarrow> (Inl InvalidTransition, s)
             | Some (command_state, record_state, runtime, failure) \<Rightarrow>
                 let s1 = put_command (cb_command_id claim)
                            (c\<lparr>mc_state := command_state, mc_claim_expires_at := None\<rparr>) s
                 in (case map_of (mb_records s1) (mc_broadcast_id c) of
                       None \<Rightarrow> (Inl InvalidData, s1)
                     | Some r \<Rightarrow>
                         let r1 = r\<lparr>br_state := record_state, br_runtime := runtime,
                                    br_failure_code := failure, br_updated_at := now\<rparr>
                         in (Inr r1, put_record (mc_broadcast_id c) r1 s1))))"

section \<open>Failing workers\<close>

text \<open>
  The loops over the commands and the records; \<open>clock\<close> gives the reading stored with each record.
\<close>

definition unfinished :: "MemoryBroadcastCommand \<Rightarrow> bool" where
  "unfinished c \<longleftrightarrow> mc_state c = MemoryCommandState.Pending \<or> mc_state c = Claimed"

definition fail_commands ::
    "(WorkerLease \<Rightarrow> bool) \<Rightarrow> (uuid \<times> MemoryBroadcastCommand) list \<Rightarrow> (uuid \<times> MemoryBroadcastCommand) list" where
  "fail_commands of_worker =
     map (\<lambda>(i, c). (i, if of_worker (mc_worker c) \<and> unfinished c
                        then c\<lparr>mc_state := MemoryCommandState.Failed, mc_claim_expires_at := None\<rparr> else c))"

definition fail_worker_broadcasts ::
    "(rstr \<Rightarrow> time) \<Rightarrow> 'v MemoryBroadcastState \<Rightarrow> WorkerLease \<Rightarrow> rstr \<Rightarrow> ('v, unit) broadcast_reply" where
  "fail_worker_broadcasts clock s worker code =
     (Inr (),
      s\<lparr>mb_commands := fail_commands (\<lambda>w. w = worker) (mb_commands s),
        mb_records := map (\<lambda>(b, r).
          (b, if spec_worker (br_specification r) = worker \<and> occupies (br_state r)
              then r\<lparr>br_state := DurableBroadcastState.Failed, br_failure_code := Some code,
                     br_updated_at := clock b\<rparr> else r)) (mb_records s)\<rparr>)"

definition other_incarnation :: "WorkerLease \<Rightarrow> WorkerLease \<Rightarrow> bool" where
  "other_incarnation current w \<longleftrightarrow>
     lease_worker_id w = lease_worker_id current \<and> lease_fence w \<noteq> lease_fence current"

definition STALE_WORKER_FENCE :: rstr where "STALE_WORKER_FENCE = lit ''stale_worker_fence''"

definition stale_record :: "WorkerLease \<Rightarrow> 'v DurableBroadcastRecord \<Rightarrow> bool" where
  "stale_record current r \<longleftrightarrow>
     other_incarnation current (spec_worker (br_specification r)) \<and>
     (occupies (br_state r) \<or> (br_failure_code r = Some STALE_WORKER_FENCE \<and> br_runtime r \<noteq> None))"

text \<open>The loop over the collected identifiers.\<close>

fun fail_records ::
    "(rstr \<Rightarrow> time) \<Rightarrow> rstr list \<Rightarrow> 'v MemoryBroadcastState \<Rightarrow> ('v, unit) broadcast_reply" where
  "fail_records clock [] s = (Inr (), s)"
| "fail_records clock (b # bs) s =
     (case map_of (mb_records s) b of
        None \<Rightarrow> (Inl InvalidData, s)
      | Some r \<Rightarrow>
          fail_records clock bs
            (put_record b (r\<lparr>br_state := DurableBroadcastState.Failed,
                             br_failure_code := Some STALE_WORKER_FENCE, br_updated_at := clock b\<rparr>) s))"

fun collect_records ::
    "rstr list \<Rightarrow> 'v MemoryBroadcastState \<Rightarrow>
     (BroadcastCommandError, 'v DurableBroadcastRecord list) result" where
  "collect_records [] s = Inr []"
| "collect_records (b # bs) s =
     (case map_of (mb_records s) b of
        None \<Rightarrow> Inl InvalidData
      | Some r \<Rightarrow> and_then (collect_records bs s) (\<lambda>rs. Inr (r # rs)))"

definition fail_stale_worker_broadcasts ::
    "(rstr \<Rightarrow> time) \<Rightarrow> 'v MemoryBroadcastState \<Rightarrow> WorkerLease \<Rightarrow>
     ('v, 'v DurableBroadcastRecord list) broadcast_reply" where
  "fail_stale_worker_broadcasts clock s current =
     (let stale_ids = map (\<lambda>(_, r). spec_broadcast_id (br_specification r))
                        (filter (\<lambda>(_, r). stale_record current r) (mb_records s));
          s1 = s\<lparr>mb_commands := fail_commands (other_incarnation current) (mb_commands s)\<rparr>
      in (case fail_records clock stale_ids s1 of
            (Inl e, s2) \<Rightarrow> (Inl e, s2)
          | (Inr _, s2) \<Rightarrow> (collect_records stale_ids s2, s2)))"

section \<open>Reconciliation\<close>

definition grant_of :: "'v DurableBroadcastRecord \<Rightarrow> uuid option" where
  "grant_of r = (case br_runtime r of None \<Rightarrow> None | Some runtime \<Rightarrow> run_grant_generation runtime)"

definition reconcile_terminal ::
    "(rstr \<Rightarrow> uuid option) \<Rightarrow> time \<Rightarrow> 'v MemoryBroadcastState \<Rightarrow> rstr \<Rightarrow> WorkerLease \<Rightarrow> BindingGeneration \<Rightarrow>
     uuid option \<Rightarrow> rstr \<Rightarrow> ('v, bool) broadcast_reply" where
  "reconcile_terminal parse_str now s broadcast_id worker source_binding_generation grant_generation
       code =
     (case validate_broadcast_id parse_str broadcast_id of
        Inl e \<Rightarrow> (Inl e, s)
      | Inr _ \<Rightarrow>
          (case map_of (mb_records s) broadcast_id of
             None \<Rightarrow> (Inr False, s)
           | Some r \<Rightarrow>
               if br_state r \<noteq> Active \<or> spec_worker (br_specification r) \<noteq> worker \<or>
                  spec_source_binding_generation (br_specification r) \<noteq> source_binding_generation \<or>
                  grant_of r \<noteq> grant_generation
               then (Inr False, s)
               else (Inr True,
                     put_record broadcast_id
                       (r\<lparr>br_state := DurableBroadcastState.Failed, br_runtime := None,
                          br_failure_code := Some code, br_updated_at := now\<rparr>) s)))"

definition finalize_failed_cleanup ::
    "(rstr \<Rightarrow> uuid option) \<Rightarrow> time \<Rightarrow> 'v MemoryBroadcastState \<Rightarrow> rstr \<Rightarrow> WorkerLease \<Rightarrow> uuid option \<Rightarrow>
     ('v, bool) broadcast_reply" where
  "finalize_failed_cleanup parse_str now s broadcast_id worker grant_generation =
     (case validate_broadcast_id parse_str broadcast_id of
        Inl e \<Rightarrow> (Inl e, s)
      | Inr _ \<Rightarrow>
          (case map_of (mb_records s) broadcast_id of
             None \<Rightarrow> (Inr False, s)
           | Some r \<Rightarrow>
               if br_state r \<noteq> DurableBroadcastState.Failed \<or> spec_worker (br_specification r) \<noteq> worker \<or>
                  grant_of r \<noteq> grant_generation
               then (Inr False, s)
               else (Inr True,
                     put_record broadcast_id (r\<lparr>br_runtime := None, br_updated_at := now\<rparr>) s)))"

end
