(* ===== verification/Broadcast_Invariant.thy ===== *)
theory Broadcast_Invariant
  imports Broadcast_Commands
begin

text \<open>
  The invariant of the broadcast repository, and what every call keeps. \<open>broadcast_call\<close> performs one
  operation, \<open>broadcast_run\<close> a sequence of them in the order in which they took the mutex.
  \<open>fresh_run\<close> states that the random identifiers drawn along the sequence are new: of a broadcast
  when its start is enqueued, and of every command.
\<close>

abbreviation records_in :: "'v MemoryBroadcastState \<Rightarrow> rstr \<Rightarrow> 'v DurableBroadcastRecord option" where
  "records_in s \<equiv> map_of (mb_records s)"

abbreviation queue_of :: "'v MemoryBroadcastState \<Rightarrow> uuid \<Rightarrow> MemoryBroadcastCommand option" where
  "queue_of s \<equiv> map_of (mb_commands s)"

section \<open>Calls\<close>

datatype 'v BroadcastCall =
  EnqueueStart "rstr \<Rightarrow> uuid option" time time uuid DurableBroadcastSpec BroadcastOperationIdentity nat
| EnqueueStop "rstr \<Rightarrow> uuid option" time time uuid TenantId rstr BroadcastOperationIdentity
| Claim chrono time WorkerLease duration nat
| Complete time "'v ClaimedBroadcastCommand" "'v BroadcastCommandResult"
| FailWorker "rstr \<Rightarrow> time" WorkerLease rstr
| FailStaleWorker "rstr \<Rightarrow> time" WorkerLease
| ReconcileTerminal "rstr \<Rightarrow> uuid option" time rstr WorkerLease BindingGeneration "uuid option" rstr
| FinalizeCleanup "rstr \<Rightarrow> uuid option" time rstr WorkerLease "uuid option"

fun broadcast_call :: "'v MemoryBroadcastState \<Rightarrow> 'v BroadcastCall \<Rightarrow> 'v MemoryBroadcastState" where
  "broadcast_call s (EnqueueStart p t now v spec identity n) = snd (enqueue_start p t now v s spec identity n)"
| "broadcast_call s (EnqueueStop p now t v tenant b identity) = snd (enqueue_stop p now t v s tenant b identity)"
| "broadcast_call s (Claim ch now w ttl n) = snd (broadcast_claim ch now s w ttl n)"
| "broadcast_call s (Complete now claim result) = snd (broadcast_complete now s claim result)"
| "broadcast_call s (FailWorker clock w reason) = snd (fail_worker_broadcasts clock s w reason)"
| "broadcast_call s (FailStaleWorker clock w) = snd (fail_stale_worker_broadcasts clock s w)"
| "broadcast_call s (ReconcileTerminal p now b w g grant reason) =
     snd (reconcile_terminal p now s b w g grant reason)"
| "broadcast_call s (FinalizeCleanup p now b w grant) = snd (finalize_failed_cleanup p now s b w grant)"

definition broadcast_run :: "'v MemoryBroadcastState \<Rightarrow> 'v BroadcastCall list \<Rightarrow> 'v MemoryBroadcastState" where
  "broadcast_run s calls = foldl broadcast_call s calls"

fun fresh_call :: "'v MemoryBroadcastState \<Rightarrow> 'v BroadcastCall \<Rightarrow> bool" where
  "fresh_call s (EnqueueStart p t now v spec identity n) \<longleftrightarrow>
     records_in s (spec_broadcast_id spec) = None \<and> queue_of s v = None"
| "fresh_call s (EnqueueStop p now t v tenant b identity) \<longleftrightarrow> queue_of s v = None"
| "fresh_call s _ = True"

fun fresh_run :: "'v MemoryBroadcastState \<Rightarrow> 'v BroadcastCall list \<Rightarrow> bool" where
  "fresh_run s [] = True"
| "fresh_run s (c # cs) \<longleftrightarrow> fresh_call s c \<and> fresh_run (broadcast_call s c) cs"

lemma broadcast_run_simps [simp]:
  "broadcast_run s [] = s" "broadcast_run s (c # cs) = broadcast_run (broadcast_call s c) cs"
  by (simp_all add: broadcast_run_def)

lemma broadcast_run_append: "broadcast_run s (cs @ ds) = broadcast_run (broadcast_run s cs) ds"
  by (simp add: broadcast_run_def)

lemma fresh_run_append: "fresh_run s (cs @ ds) \<longleftrightarrow> fresh_run s cs \<and> fresh_run (broadcast_run s cs) ds"
  by (induction cs arbitrary: s) auto

section \<open>The invariant\<close>

definition queued_ok :: "uuid \<Rightarrow> MemoryBroadcastCommand \<Rightarrow> bool" where
  "queued_ok i c \<longleftrightarrow>
     mc_command_id c = i \<and> (mc_state c = Claimed \<longleftrightarrow> mc_claim_expires_at c \<noteq> None) \<and>
     (mc_state c = MemoryCommandState.Pending \<longrightarrow> mc_claim_generation c = 0)"

definition queue_ok :: "'v MemoryBroadcastState \<Rightarrow> bool" where
  "queue_ok s \<longleftrightarrow>
     (\<forall>i c. queue_of s i = Some c \<longrightarrow>
        queued_ok i c \<and>
        (\<exists>r. records_in s (mc_broadcast_id c) = Some r \<and> spec_worker (br_specification r) = mc_worker c)) \<and>
     (\<forall>i c j d. queue_of s i = Some c \<longrightarrow> queue_of s j = Some d \<longrightarrow>
        mc_broadcast_id c = mc_broadcast_id d \<longrightarrow> mc_kind c = mc_kind d \<longrightarrow> i = j)"

text \<open>How the state of a record goes with its runtime and its failure code.\<close>

definition runtime_ok :: "'v DurableBroadcastRecord \<Rightarrow> bool" where
  "runtime_ok r \<longleftrightarrow>
     (br_state r = DurableBroadcastState.Pending \<longrightarrow> br_runtime r = None) \<and>
     (br_state r = Active \<longrightarrow> br_runtime r \<noteq> None) \<and>
     (br_state r = Deleted \<longrightarrow> br_runtime r = None) \<and>
     (br_state r = DurableBroadcastState.Failed \<longrightarrow> br_failure_code r \<noteq> None)"

definition record_ok :: "'v MemoryBroadcastState \<Rightarrow> bool" where
  "record_ok s \<longleftrightarrow>
     (\<forall>b r. records_in s b = Some r \<longrightarrow>
        spec_broadcast_id (br_specification r) = b \<and> runtime_ok r \<and> (br_state r = Deleting \<longrightarrow> has_stop b s))"

definition receipts_ok :: "'v MemoryBroadcastState \<Rightarrow> bool" where
  "receipts_ok s \<longleftrightarrow>
     (\<forall>t k d b. map_of (mb_create_receipts s) (t, k) = Some (d, b) \<longrightarrow>
        (\<exists>r. records_in s b = Some r \<and> spec_tenant_id (br_specification r) = t)) \<and>
     (\<forall>t k d b. map_of (mb_delete_receipts s) (t, k) = Some (d, b) \<longrightarrow>
        (\<exists>r. records_in s b = Some r \<and> spec_tenant_id (br_specification r) = t))"

definition broadcast_ok :: "'v MemoryBroadcastState \<Rightarrow> bool" where
  "broadcast_ok s \<longleftrightarrow>
     keys_distinct (mb_records s) \<and> keys_distinct (mb_commands s) \<and>
     keys_distinct (mb_create_receipts s) \<and> keys_distinct (mb_delete_receipts s) \<and>
     queue_ok s \<and> record_ok s \<and> receipts_ok s"

lemma queue_unique:
  assumes "queue_ok s" "queue_of s i = Some c" "queue_of s j = Some d"
    "mc_broadcast_id c = mc_broadcast_id d" "mc_kind c = mc_kind d"
  shows "i = j"
  using assms unfolding queue_ok_def by blast

lemma has_stop_iff:
  "keys_distinct (mb_commands s) \<Longrightarrow>
     has_stop b s \<longleftrightarrow> (\<exists>i c. queue_of s i = Some c \<and> mc_broadcast_id c = b \<and> mc_kind c = Stop)"
  unfolding has_stop_def list_ex_iff by (auto simp: in_map_of [symmetric])

section \<open>Steps of commands and records\<close>

text \<open>What a call can do to a command: nothing, claim it, or finish it.\<close>

inductive command_step :: "MemoryBroadcastCommand \<Rightarrow> MemoryBroadcastCommand \<Rightarrow> bool" where
  same: "command_step c c"
| claimed: "unfinished c \<Longrightarrow> mc_claim_generation c \<noteq> - 1 \<Longrightarrow>
    command_step c (c\<lparr>mc_claim_generation := mc_claim_generation c + 1, mc_claim_expires_at := Some e,
                      mc_state := Claimed\<rparr>)"
| finished: "unfinished c \<Longrightarrow> st = Succeeded \<or> st = MemoryCommandState.Failed \<Longrightarrow>
    command_step c (c\<lparr>mc_state := st, mc_claim_expires_at := None\<rparr>)"

lemma command_step_keeps:
  assumes "command_step c c'"
  shows "mc_command_id c' = mc_command_id c" "mc_broadcast_id c' = mc_broadcast_id c"
    "mc_worker c' = mc_worker c" "mc_kind c' = mc_kind c" "mc_available_at c' = mc_available_at c"
  using assms by (auto elim: command_step.cases)

lemma command_step_ok: "command_step c c' \<Longrightarrow> queued_ok i c \<Longrightarrow> queued_ok i c'"
  by (auto elim!: command_step.cases simp: queued_ok_def)

lemma command_step_finished: "command_step c c' \<Longrightarrow> \<not> unfinished c \<Longrightarrow> c' = c"
  by (auto elim: command_step.cases)

lemma command_steps_keep:
  assumes "command_step\<^sup>*\<^sup>* c c'"
  shows "mc_command_id c' = mc_command_id c" "mc_broadcast_id c' = mc_broadcast_id c"
    "mc_worker c' = mc_worker c" "mc_kind c' = mc_kind c" "mc_available_at c' = mc_available_at c"
  using assms by (induction rule: rtranclp_induct) (simp_all add: command_step_keeps)

lemma command_steps_ok: "command_step\<^sup>*\<^sup>* c c' \<Longrightarrow> queued_ok i c \<Longrightarrow> queued_ok i c'"
  by (induction rule: rtranclp_induct) (simp_all add: command_step_ok)

lemma command_steps_finished: "command_step\<^sup>*\<^sup>* c c' \<Longrightarrow> \<not> unfinished c \<Longrightarrow> c' = c"
  by (induction rule: rtranclp_induct) (auto dest: command_step_finished)

text \<open>
  A call advances the state: the commands that were there make steps, the records keep their
  specification, and the receipts stay.
\<close>

definition broadcast_advances :: "'v MemoryBroadcastState \<Rightarrow> 'v MemoryBroadcastState \<Rightarrow> bool" where
  "broadcast_advances s s' \<longleftrightarrow>
     (\<forall>i c. queue_of s i = Some c \<longrightarrow> (\<exists>c'. queue_of s' i = Some c' \<and> command_step\<^sup>*\<^sup>* c c')) \<and>
     (\<forall>b r. records_in s b = Some r \<longrightarrow>
        (\<exists>r'. records_in s' b = Some r' \<and> br_specification r' = br_specification r)) \<and>
     (\<forall>k v. map_of (mb_create_receipts s) k = Some v \<longrightarrow> map_of (mb_create_receipts s') k = Some v) \<and>
     (\<forall>k v. map_of (mb_delete_receipts s) k = Some v \<longrightarrow> map_of (mb_delete_receipts s') k = Some v)"

lemma broadcast_advances_refl [simp]: "broadcast_advances s s"
  by (auto simp: broadcast_advances_def)

lemma broadcast_advances_queue:
  assumes "broadcast_advances s s'" "queue_of s i = Some c"
  obtains c' where "queue_of s' i = Some c'" "command_step\<^sup>*\<^sup>* c c'"
  using assms unfolding broadcast_advances_def by blast

lemma broadcast_advances_record:
  assumes "broadcast_advances s s'" "records_in s b = Some r"
  obtains r' where "records_in s' b = Some r'" "br_specification r' = br_specification r"
  using assms unfolding broadcast_advances_def by blast

lemma broadcast_advances_trans:
  assumes "broadcast_advances s s1" "broadcast_advances s1 s2"
  shows "broadcast_advances s s2"
proof -
  have "\<exists>c2. queue_of s2 i = Some c2 \<and> command_step\<^sup>*\<^sup>* c c2" if "queue_of s i = Some c" for i c
    using broadcast_advances_queue [OF assms(1) that] broadcast_advances_queue [OF assms(2)] by (metis rtranclp_trans)
  moreover have "\<exists>r2. records_in s2 b = Some r2 \<and> br_specification r2 = br_specification r"
    if "records_in s b = Some r" for b r
    using broadcast_advances_record [OF assms(1) that] broadcast_advances_record [OF assms(2)] by metis
  ultimately show ?thesis using assms unfolding broadcast_advances_def by blast
qed

text \<open>The two ways in which calls other than the enqueue operations change the state.\<close>

lemma queue_change:
  assumes ok: "broadcast_ok s" and dist: "keys_distinct (mb_commands s')"
    and step: "\<And>i c. queue_of s i = Some c \<Longrightarrow> \<exists>c'. queue_of s' i = Some c' \<and> command_step c c'"
    and none: "\<And>i. queue_of s i = None \<Longrightarrow> queue_of s' i = None"
    and rest: "mb_records s' = mb_records s" "mb_create_receipts s' = mb_create_receipts s"
      "mb_delete_receipts s' = mb_delete_receipts s"
  shows "broadcast_ok s' \<and> broadcast_advances s s'"
proof -
  have prior: "\<exists>c. queue_of s i = Some c \<and> command_step c c'" if "queue_of s' i = Some c'" for i c'
    using step [of i] none [of i] that by (cases "queue_of s i") auto
  have qok: "queue_ok s" using ok by (simp add: broadcast_ok_def)
  have "queued_ok i c' \<and> (\<exists>r. records_in s (mc_broadcast_id c') = Some r \<and>
      spec_worker (br_specification r) = mc_worker c')" if q: "queue_of s' i = Some c'" for i c'
  proof -
    obtain c where c: "queue_of s i = Some c" "command_step c c'" using prior [OF q] by blast
    then show ?thesis
      using qok command_step_ok [OF c(2)] command_step_keeps [OF c(2)] unfolding queue_ok_def by metis
  qed
  moreover have "i = j" if q: "queue_of s' i = Some c'" "queue_of s' j = Some d'"
    and eq: "mc_broadcast_id c' = mc_broadcast_id d'" "mc_kind c' = mc_kind d'" for i c' j d'
  proof -
    obtain c where c: "queue_of s i = Some c" "command_step c c'" using prior [OF q(1)] by blast
    obtain d where d: "queue_of s j = Some d" "command_step d d'" using prior [OF q(2)] by blast
    have "mc_broadcast_id c = mc_broadcast_id d" "mc_kind c = mc_kind d"
      using command_step_keeps [OF c(2)] command_step_keeps [OF d(2)] eq by simp_all
    with c(1) d(1) show ?thesis by (rule queue_unique [OF qok])
  qed
  ultimately have "queue_ok s'" unfolding queue_ok_def rest by blast
  moreover have "has_stop b s'" if "has_stop b s" for b
  proof -
    have "keys_distinct (mb_commands s)" using ok by (simp add: broadcast_ok_def)
    with that obtain i c where "queue_of s i = Some c" "mc_broadcast_id c = b" "mc_kind c = Stop"
      by (auto simp: has_stop_iff)
    moreover from this(1) obtain c' where c': "queue_of s' i = Some c'" "command_step c c'" using step by blast
    ultimately show ?thesis
      unfolding has_stop_iff [OF dist] using command_step_keeps [OF c'(2)] by auto
  qed
  ultimately have "broadcast_ok s'"
    using ok dist by (auto simp: broadcast_ok_def record_ok_def receipts_ok_def rest)
  moreover have "broadcast_advances s s'" unfolding broadcast_advances_def rest using step by blast
  ultimately show ?thesis by blast
qed

lemma record_change:
  assumes ok: "broadcast_ok s" and dist: "keys_distinct (mb_records s')"
    and step: "\<And>b r. records_in s b = Some r \<Longrightarrow> \<exists>r'. records_in s' b = Some r' \<and>
      br_specification r' = br_specification r \<and> (runtime_ok r \<longrightarrow> runtime_ok r') \<and>
      (br_state r' = Deleting \<longrightarrow> br_state r = Deleting \<or> has_stop b s)"
    and none: "\<And>b. records_in s b = None \<Longrightarrow> records_in s' b = None"
    and rest: "mb_commands s' = mb_commands s" "mb_create_receipts s' = mb_create_receipts s"
      "mb_delete_receipts s' = mb_delete_receipts s"
  shows "broadcast_ok s' \<and> broadcast_advances s s'"
proof -
  have prior: "\<exists>r. records_in s b = Some r \<and> br_specification r' = br_specification r \<and>
      (runtime_ok r \<longrightarrow> runtime_ok r') \<and> (br_state r' = Deleting \<longrightarrow> br_state r = Deleting \<or> has_stop b s)" if "records_in s' b = Some r'" for b r'
    using step [of b] none [of b] that by (cases "records_in s b") auto
  have parts: "queue_ok s" "record_ok s" "receipts_ok s" using ok by (simp_all add: broadcast_ok_def)
  have kept: "\<exists>r. records_in s' b = Some r \<and> P (br_specification r)"
    if "\<exists>r. records_in s b = Some r \<and> P (br_specification r)" for b P
    using that step by (metis (no_types, lifting))
  have "queue_ok s'"
    using parts(1) kept [of _ "\<lambda>p. spec_worker p = w" for w] unfolding queue_ok_def rest by blast
  moreover have "record_ok s'"
  proof -
    have "has_stop b s' = has_stop b s" for b by (simp add: has_stop_def rest)
    then show ?thesis using parts(2) prior unfolding record_ok_def by metis
  qed
  moreover have "receipts_ok s'"
    using parts(3) kept [of _ "\<lambda>p. spec_tenant_id p = t" for t] unfolding receipts_ok_def rest by blast
  ultimately have "broadcast_ok s'" using ok dist by (simp add: broadcast_ok_def rest)
  moreover have "broadcast_advances s s'" unfolding broadcast_advances_def rest using step by auto
  ultimately show ?thesis by blast
qed

lemma put_command:
  assumes ok: "broadcast_ok s" and c: "queue_of s i = Some c" "command_step c c'"
  shows "broadcast_ok (put_command i c' s) \<and> broadcast_advances s (put_command i c' s)"
proof (rule queue_change [OF ok])
  show "keys_distinct (mb_commands (put_command i c' s))" using ok by (simp add: put_command_def broadcast_ok_def)
  show "\<exists>d'. queue_of (put_command i c' s) j = Some d' \<and> command_step d d'" if "queue_of s j = Some d" for j d
    using that c by (auto simp: put_command_def intro: command_step.same)
  show "queue_of (put_command i c' s) j = None" if "queue_of s j = None" for j
    using that c by (auto simp: put_command_def)
qed (simp_all add: put_command_def)

lemma put_record:
  assumes ok: "broadcast_ok s" and r: "records_in s b = Some r" "br_specification r' = br_specification r"
    "runtime_ok r \<longrightarrow> runtime_ok r'" "br_state r' = Deleting \<longrightarrow> br_state r = Deleting \<or> has_stop b s"
  shows "broadcast_ok (put_record b r' s) \<and> broadcast_advances s (put_record b r' s)"
proof (rule record_change [OF ok])
  show "keys_distinct (mb_records (put_record b r' s))" using ok by (simp add: put_record_def broadcast_ok_def)
  show "\<exists>x'. records_in (put_record b r' s) d = Some x' \<and> br_specification x' = br_specification x \<and>
      (runtime_ok x \<longrightarrow> runtime_ok x') \<and> (br_state x' = Deleting \<longrightarrow> br_state x = Deleting \<or> has_stop d s)" if "records_in s d = Some x" for d x
    using that r by (auto simp: put_record_def)
  show "records_in (put_record b r' s) d = None" if "records_in s d = None" for d
    using that r by (auto simp: put_record_def)
qed (simp_all add: put_record_def)

section \<open>Insertions\<close>

lemma insert_command:
  assumes ok: "broadcast_ok s" and new: "queue_of s v = None" and r: "records_in s b = Some r"
    and first: "\<And>i c. queue_of s i = Some c \<Longrightarrow> mc_broadcast_id c = b \<Longrightarrow> mc_kind c \<noteq> kind"
  shows "broadcast_ok (put_command v (new_command v b (spec_worker (br_specification r)) kind t) s) \<and>
    broadcast_advances s (put_command v (new_command v b (spec_worker (br_specification r)) kind t) s)" (is "broadcast_ok ?s \<and> _")
proof -
  have parts: "queue_ok s" "record_ok s" "receipts_ok s" "keys_distinct (mb_commands s)"
    using ok by (simp_all add: broadcast_ok_def)
  have q: "queue_of ?s i = (if i = v then Some (new_command v b (spec_worker (br_specification r)) kind t)
      else queue_of s i)" for i by (simp add: put_command_def)
  have "queue_ok ?s"
    using parts(1) r first unfolding queue_ok_def q
    by (auto simp: put_command_def new_command_def queued_ok_def split: if_splits)
  moreover have "has_stop d ?s" if stop: "has_stop d s" for d
  proof -
    obtain i c where c: "queue_of s i = Some c" "mc_broadcast_id c = d" "mc_kind c = Stop"
      using stop parts(4) by (auto simp: has_stop_iff)
    then have "queue_of ?s i = Some c" using new by (auto simp: q)
    moreover have "keys_distinct (mb_commands ?s)" using parts(4) by (simp add: put_command_def)
    ultimately show ?thesis using c(2,3) has_stop_iff by blast
  qed
  then have "record_ok ?s" using parts(2) by (auto simp: record_ok_def put_command_def)
  moreover have "receipts_ok ?s" using parts(3) by (simp add: receipts_ok_def put_command_def)
  ultimately have "broadcast_ok ?s" using ok by (simp add: broadcast_ok_def put_command_def)
  moreover have "broadcast_advances s ?s"
    using new by (auto simp: broadcast_advances_def q) (auto simp: put_command_def)
  ultimately show ?thesis by blast
qed

lemma insert_record:
  assumes ok: "broadcast_ok s" and new: "records_in s b = None"
    and r: "spec_broadcast_id (br_specification r) = b" "runtime_ok r" "br_state r \<noteq> Deleting"
  shows "broadcast_ok (put_record b r s) \<and> broadcast_advances s (put_record b r s)"
proof -
  have parts: "queue_ok s" "record_ok s" "receipts_ok s" using ok by (simp_all add: broadcast_ok_def)
  have kept: "records_in (put_record b r s) d = Some x" if "records_in s d = Some x" for d x
    using that new by (auto simp: put_record_def)
  have same: "mb_commands (put_record b r s) = mb_commands s" "has_stop d (put_record b r s) = has_stop d s"
    "mb_create_receipts (put_record b r s) = mb_create_receipts s"
    "mb_delete_receipts (put_record b r s) = mb_delete_receipts s" for d
    by (simp_all add: put_record_def has_stop_def)
  have "queue_ok (put_record b r s)" using parts(1) kept unfolding queue_ok_def same by blast
  moreover have "record_ok (put_record b r s)"
    using parts(2) r unfolding record_ok_def same by (auto simp: put_record_def)
  moreover have "receipts_ok (put_record b r s)" using parts(3) kept unfolding receipts_ok_def same by blast
  ultimately have "broadcast_ok (put_record b r s)"
    using ok unfolding broadcast_ok_def same by (simp add: put_record_def)
  moreover have "broadcast_advances s (put_record b r s)" unfolding broadcast_advances_def same using kept by auto
  ultimately show ?thesis by blast
qed

lemma insert_receipt:
  assumes ok: "broadcast_ok s" and r: "records_in s b = Some r" "spec_tenant_id (br_specification r) = t"
  shows "map_of (mb_create_receipts s) (t, k) = None \<Longrightarrow>
      broadcast_ok (s\<lparr>mb_create_receipts := AList.update (t, k) (d, b) (mb_create_receipts s)\<rparr>) \<and>
      broadcast_advances s (s\<lparr>mb_create_receipts := AList.update (t, k) (d, b) (mb_create_receipts s)\<rparr>)"
    and "map_of (mb_delete_receipts s) (t, k) = None \<Longrightarrow>
      broadcast_ok (s\<lparr>mb_delete_receipts := AList.update (t, k) (d, b) (mb_delete_receipts s)\<rparr>) \<and>
      broadcast_advances s (s\<lparr>mb_delete_receipts := AList.update (t, k) (d, b) (mb_delete_receipts s)\<rparr>)"
  using ok r
  by (auto simp: broadcast_ok_def queue_ok_def record_ok_def receipts_ok_def has_stop_def broadcast_advances_def
      split: if_splits)

end
