(* ===== verification/Broadcast_Run.thy ===== *)
theory Broadcast_Run
  imports Broadcast_Invariant "HOL-Library.Multiset"
begin

text \<open>
  Every operation of the broadcast repository keeps the invariant and advances the state, and so does
  every sequence of calls.
\<close>

declare map_of_eq_Some_iff [simp del]

section \<open>Enqueue operations\<close>

lemma enqueue_start_run:
  assumes ok: "broadcast_ok s" and new: "records_in s (spec_broadcast_id spec) = None" "queue_of s v = None"
  shows "broadcast_ok (snd (enqueue_start p t now v s spec identity n)) \<and>
    broadcast_advances s (snd (enqueue_start p t now v s spec identity n))"
proof -
  let ?b = "spec_broadcast_id spec" and ?k = "(spec_tenant_id spec, oi_idempotency_digest identity)"
  define r :: "'a DurableBroadcastRecord" where
    "r = \<lparr>br_specification = spec, br_state = DurableBroadcastState.Pending, br_runtime = None,
          br_failure_code = None, br_created_at = now, br_updated_at = now\<rparr>"
  define s1 where "s1 = put_record ?b r s"
  define s2 where "s2 = put_command v (new_command v ?b (spec_worker (br_specification r)) Start now) s1"
  define s3 where "s3 = s2\<lparr>mb_create_receipts := AList.update ?k (oi_request_digest identity, ?b) (mb_create_receipts s2)\<rparr>"
  have s1: "broadcast_ok s1 \<and> broadcast_advances s s1"
    unfolding s1_def by (rule insert_record [OF ok new(1)]) (simp_all add: r_def runtime_ok_def)
  have "mc_broadcast_id c \<noteq> ?b" if "queue_of s i = Some c" for i c
    using that ok new(1) unfolding broadcast_ok_def queue_ok_def by fastforce
  then have s2: "broadcast_ok s2 \<and> broadcast_advances s1 s2"
    unfolding s2_def using s1 new(2)
    by (intro insert_command) (auto simp: s1_def put_record_def)
  have s3: "broadcast_ok s3 \<and> broadcast_advances s2 s3" if "map_of (mb_create_receipts s) ?k = None"
    unfolding s3_def using s2 that
    by (intro insert_receipt(1) [where r = r]) (auto simp: s2_def s1_def put_record_def put_command_def r_def)
  have "snd (enqueue_start p t now v s spec identity n) = s \<or>
      snd (enqueue_start p t now v s spec identity n) = s3 \<and> map_of (mb_create_receipts s) ?k = None"
    by (auto simp: enqueue_start_def Let_def s3_def s2_def s1_def put_record_def put_command_def r_def
        split: sum.splits option.splits)
  then show ?thesis
  proof
    assume "snd (enqueue_start p t now v s spec identity n) = s3 \<and> map_of (mb_create_receipts s) ?k = None"
    then show ?thesis using s1 s2 s3 broadcast_advances_trans by metis
  qed (simp add: ok)
qed

lemma enqueue_stop_deleting:
  fixes now t :: time
  assumes ok: "broadcast_ok s" and r: "records_in s b = Some r" and new: "queue_of s v = None"
  defines "r1 \<equiv> r\<lparr>br_state := Deleting, br_updated_at := now\<rparr>"
  defines "s2 \<equiv> if has_stop b (put_record b r1 s) then put_record b r1 s
      else put_command v (new_command v b (spec_worker (br_specification r)) Stop t) (put_record b r1 s)"
  shows "broadcast_ok s2 \<and> broadcast_advances s s2"
proof -
  have same: "has_stop b (put_record b r1 s) = has_stop b s" by (simp add: has_stop_def put_record_def)
  have kept: "br_specification r1 = br_specification r" "runtime_ok r1" by (simp_all add: r1_def runtime_ok_def)
  show ?thesis
  proof (cases "has_stop b s")
    case True
    then show ?thesis using put_record [OF ok r, of r1] kept by (simp add: s2_def same)
  next
    case False
    define s1 where "s1 = put_command v (new_command v b (spec_worker (br_specification r)) Stop t) s"
    have dist: "keys_distinct (mb_commands s)" using ok by (simp add: broadcast_ok_def)
    have s1: "broadcast_ok s1 \<and> broadcast_advances s s1"
      unfolding s1_def using ok new r False by (intro insert_command) (auto simp: has_stop_iff [OF dist])
    have "has_stop b s1"
      by (subst has_stop_iff) (auto simp: dist s1_def put_command_def new_command_def)
    then have "broadcast_ok (put_record b r1 s1) \<and> broadcast_advances s1 (put_record b r1 s1)"
      using s1 r kept by (intro put_record) (auto simp: s1_def put_command_def)
    moreover have "s2 = put_record b r1 s1"
      unfolding s2_def same using False by (simp add: s1_def put_record_def put_command_def)
    ultimately show ?thesis using s1 broadcast_advances_trans by metis
  qed
qed

lemma put_deleted:
  assumes "broadcast_ok s" "records_in s b = Some r" "br_runtime r = None"
  shows "broadcast_ok (put_record b (r\<lparr>br_state := Deleted, br_updated_at := now\<rparr>) s) \<and>
    broadcast_advances s (put_record b (r\<lparr>br_state := Deleted, br_updated_at := now\<rparr>) s)"
  using assms by (intro put_record) (auto simp: runtime_ok_def)

text \<open>What a first stop request does to the record and the queue.\<close>

definition stop_effect ::
    "time \<Rightarrow> time \<Rightarrow> uuid \<Rightarrow> rstr \<Rightarrow> 'v DurableBroadcastRecord \<Rightarrow> 'v MemoryBroadcastState \<Rightarrow> 'v MemoryBroadcastState" where
  "stop_effect now t v b r s =
     (if br_state r = DurableBroadcastState.Failed
      then put_record b (r\<lparr>br_state := Deleted, br_updated_at := now\<rparr>) s
      else if br_state r = Deleted then s
      else let s1 = put_record b (r\<lparr>br_state := Deleting, br_updated_at := now\<rparr>) s
           in if has_stop b s1 then s1
              else put_command v (new_command v b (spec_worker (br_specification r)) Stop t) s1)"

lemma stop_effect_run:
  assumes "broadcast_ok s" "records_in s b = Some r" "queue_of s v = None"
    "br_state r = DurableBroadcastState.Failed \<Longrightarrow> br_runtime r = None"
  shows "broadcast_ok (stop_effect now t v b r s) \<and> broadcast_advances s (stop_effect now t v b r s)"
  using assms put_deleted [OF assms(1,2)] enqueue_stop_deleting [OF assms(1-3), of now t]
  by (simp add: stop_effect_def Let_def)

lemma stop_effect_record:
  "records_in s b = Some r \<Longrightarrow>
     \<exists>r'. records_in (stop_effect now t v b r s) b = Some r' \<and> br_specification r' = br_specification r"
  by (simp add: stop_effect_def Let_def put_record_def put_command_def)

lemma stop_effect_receipts [simp]:
  "mb_create_receipts (stop_effect now t v b r s) = mb_create_receipts s"
  "mb_delete_receipts (stop_effect now t v b r s) = mb_delete_receipts s"
  by (simp_all add: stop_effect_def Let_def put_record_def put_command_def)

lemma enqueue_stop_result:
  assumes changed: "snd (enqueue_stop p now t v s tenant b identity) \<noteq> s"
  obtains (replayed) d r where "records_in s d = Some r" "br_runtime r = None"
      "br_state r = DurableBroadcastState.Failed"
      "snd (enqueue_stop p now t v s tenant b identity) =
         put_record d (r\<lparr>br_state := Deleted, br_updated_at := now\<rparr>) s"
    | (recorded) r where "map_of (mb_delete_receipts s) (tenant, oi_idempotency_digest identity) = None"
      "records_in s b = Some r" "spec_tenant_id (br_specification r) = tenant"
      "br_state r = DurableBroadcastState.Failed \<Longrightarrow> br_runtime r = None"
      "snd (enqueue_stop p now t v s tenant b identity) = (stop_effect now t v b r s)\<lparr>mb_delete_receipts :=
         AList.update (tenant, oi_idempotency_digest identity) (oi_request_digest identity, b)
           (mb_delete_receipts (stop_effect now t v b r s))\<rparr>"
proof (cases "validate_broadcast_id p b")
  case (Inl e)
  then show ?thesis using changed by (simp add: enqueue_stop_def)
next
  case valid: (Inr u)
  show ?thesis
  proof (cases "map_of (mb_delete_receipts s) (tenant, oi_idempotency_digest identity)")
    case None
    then show ?thesis
      using changed valid
      by (cases "records_in s b")
        (auto simp: enqueue_stop_def Let_def stop_effect_def intro!: recorded split: if_splits)
  next
    case (Some e)
    then show ?thesis
      using changed valid
      by (cases e; cases "records_in s (snd e)")
        (auto simp: enqueue_stop_def Let_def split: if_splits intro: replayed)
  qed
qed

lemma enqueue_stop_run:
  assumes ok: "broadcast_ok s" and new: "queue_of s v = None"
  shows "broadcast_ok (snd (enqueue_stop p now t v s tenant b identity)) \<and>
    broadcast_advances s (snd (enqueue_stop p now t v s tenant b identity))"
proof (cases "snd (enqueue_stop p now t v s tenant b identity) = s")
  case False
  then show ?thesis
  proof (cases rule: enqueue_stop_result)
    case (replayed d r)
    then show ?thesis using put_deleted [OF ok] by metis
  next
    case (recorded r)
    note run = stop_effect_run [OF ok recorded(2) new recorded(4), of now t]
    obtain r' where r': "records_in (stop_effect now t v b r s) b = Some r'" "br_specification r' = br_specification r"
      using stop_effect_record [OF recorded(2)] by blast
    have "broadcast_ok (snd (enqueue_stop p now t v s tenant b identity)) \<and>
        broadcast_advances (stop_effect now t v b r s) (snd (enqueue_stop p now t v s tenant b identity))"
      unfolding recorded(5) using run r' recorded(1,3) by (intro insert_receipt(2) [where r = r']) auto
    then show ?thesis using run broadcast_advances_trans by blast
  qed
qed (simp add: ok)

section \<open>Claims and completions\<close>

lemma claim_commands_run:
  assumes "broadcast_ok s" "distinct ids" "\<And>i c. i \<in> set ids \<Longrightarrow> queue_of s i = Some c \<Longrightarrow> unfinished c"
  shows "broadcast_ok (snd (claim_commands e ids s)) \<and> broadcast_advances s (snd (claim_commands e ids s))"
  using assms
proof (induction ids arbitrary: s)
  case Nil
  then show ?case by simp
next
  case (Cons i ids)
  show ?case
  proof (cases "queue_of s i")
    case (Some c)
    define c1 where "c1 = c\<lparr>mc_claim_generation := mc_claim_generation c + 1, mc_claim_expires_at := Some e,
      mc_state := Claimed\<rparr>"
    define s1 where "s1 = put_command i c1 s"
    have s1: "broadcast_ok s1 \<and> broadcast_advances s s1" if "mc_claim_generation c \<noteq> - 1"
      unfolding s1_def c1_def using Cons.prems(1,3) Some that
      by (intro put_command) (auto intro: command_step.claimed)
    have "broadcast_ok (snd (claim_commands e ids s1)) \<and> broadcast_advances s1 (snd (claim_commands e ids s1))"
      if "mc_claim_generation c \<noteq> - 1"
    proof (rule Cons.IH)
      show "unfinished d" if "j \<in> set ids" "queue_of s1 j = Some d" for j d
        using that Cons.prems(2,3) by (auto simp: s1_def put_command_def split: if_splits)
    qed (use s1 that Cons.prems in auto)
    then have "broadcast_ok (snd (claim_commands e ids s1)) \<and> broadcast_advances s (snd (claim_commands e ids s1))"
      if "mc_claim_generation c \<noteq> - 1" using that s1 broadcast_advances_trans by blast
    then show ?thesis
      using Some s1 Cons.prems(1)
      by (auto simp: Let_def s1_def [symmetric] c1_def [symmetric] split: option.splits prod.splits sum.splits)
  qed (simp add: Cons.prems)
qed

lemma claim_order_unfinished:
  assumes ok: "broadcast_ok s"
  shows "distinct (claim_order w now (mb_commands s))"
    and "i \<in> set (claim_order w now (mb_commands s)) \<longleftrightarrow>
      (\<exists>c. queue_of s i = Some c \<and> ready_for_claim w now c)"
proof -
  have dist: "keys_distinct (mb_commands s)" and q: "queue_ok s" using ok by (simp_all add: broadcast_ok_def)
  have id: "mc_command_id c = i" if m: "(i, c) \<in> set (mb_commands s)" for i c
  proof -
    have "queue_of s i = Some c" using m in_map_of [OF dist] by blast
    then have "queued_ok i c" using q unfolding queue_ok_def by blast
    then show ?thesis by (simp add: queued_ok_def)
  qed
  let ?l = "filter (\<lambda>(_, c). ready_for_claim w now c) (mb_commands s)"
  let ?p = "map (\<lambda>(_, c). (mc_available_at c, mc_command_id c)) ?l"
  have ids: "map snd ?p = map fst ?l" using id by auto
  have mset: "mset (claim_order w now (mb_commands s)) = mset (map fst ?l)"
    unfolding claim_order_def ids [symmetric] by (simp only: mset_map mset_sort)
  note perm = mset_eq_imp_distinct_iff [OF mset] mset_eq_setD [OF mset]
  show "distinct (claim_order w now (mb_commands s))" unfolding perm(1) by (rule keys_distinct_retain [OF dist])
  show "i \<in> set (claim_order w now (mb_commands s)) \<longleftrightarrow>
      (\<exists>c. queue_of s i = Some c \<and> ready_for_claim w now c)"
    unfolding perm(2) in_map_of [OF dist, symmetric] by force
qed

lemma ready_unfinished: "ready_for_claim w now c \<Longrightarrow> unfinished c"
  by (auto simp: ready_for_claim_def unfinished_def)

lemma broadcast_claim_run:
  assumes ok: "broadcast_ok s"
  shows "broadcast_ok (snd (broadcast_claim ch now s w ttl n)) \<and> broadcast_advances s (snd (broadcast_claim ch now s w ttl n))"
proof -
  let ?ids = "take n (claim_order w now (mb_commands s))"
  have "broadcast_ok (snd (claim_commands e ?ids s)) \<and> broadcast_advances s (snd (claim_commands e ?ids s))" for e
  proof (rule claim_commands_run [OF ok])
    show "distinct ?ids" by (simp add: claim_order_unfinished(1) [OF ok])
    show "unfinished c" if "i \<in> set ?ids" "queue_of s i = Some c" for i c
      using that claim_order_unfinished(2) [OF ok] ready_unfinished by (metis in_set_takeD option.inject)
  qed
  then show ?thesis using ok by (simp add: broadcast_claim_def split: option.split)
qed

lemma completion_result:
  assumes "completion kind result = Some (cs, rs, run, code)"
  shows "cs = Succeeded \<or> cs = MemoryCommandState.Failed" "rs \<noteq> Deleting"
    "runtime_ok (r\<lparr>br_state := rs, br_runtime := run, br_failure_code := code, br_updated_at := now\<rparr>)"
  using assms by (auto simp: completion_def runtime_ok_def split: BroadcastCommandResult.splits if_splits)

lemma broadcast_complete_result:
  assumes changed: "snd (broadcast_complete now s claim result) \<noteq> s" and ok: "broadcast_ok s"
  obtains c r cs rs run code where "queue_of s (cb_command_id claim) = Some c" "mc_state c = Claimed"
    "mc_claim_generation c = cb_claim_generation claim" "mc_kind c = cb_kind claim"
    "completion (mc_kind c) result = Some (cs, rs, run, code)" "records_in s (mc_broadcast_id c) = Some r"
    "broadcast_complete now s claim result =
       (let r1 = r\<lparr>br_state := rs, br_runtime := run, br_failure_code := code, br_updated_at := now\<rparr>
        in (Inr r1, put_record (mc_broadcast_id c) r1
              (put_command (cb_command_id claim) (c\<lparr>mc_state := cs, mc_claim_expires_at := None\<rparr>) s)))"
proof -
  obtain c where c: "queue_of s (cb_command_id claim) = Some c" "mc_state c = Claimed"
      "mc_claim_generation c = cb_claim_generation claim" "mc_kind c = cb_kind claim"
    using changed by (auto simp: broadcast_complete_def split: option.splits if_splits)
  moreover obtain cs rs run code where res: "completion (mc_kind c) result = Some (cs, rs, run, code)"
    using changed c by (cases "completion (mc_kind c) result") (auto simp: broadcast_complete_def)
  moreover obtain r where r: "records_in s (mc_broadcast_id c) = Some r"
    using ok c(1) unfolding broadcast_ok_def queue_ok_def by blast
  ultimately show ?thesis
    by (intro that) (auto simp: broadcast_complete_def Let_def put_command_def)
qed

lemma broadcast_complete_run:
  assumes ok: "broadcast_ok s"
  shows "broadcast_ok (snd (broadcast_complete now s claim result)) \<and>
    broadcast_advances s (snd (broadcast_complete now s claim result))"
proof (cases "snd (broadcast_complete now s claim result) = s")
  case False
  then show ?thesis
  proof (rule broadcast_complete_result [OF _ ok])
    fix c r cs rs run code
    assume c: "queue_of s (cb_command_id claim) = Some c" "mc_state c = Claimed"
      "completion (mc_kind c) result = Some (cs, rs, run, code)" "records_in s (mc_broadcast_id c) = Some r"
    define r1 where "r1 = r\<lparr>br_state := rs, br_runtime := run, br_failure_code := code, br_updated_at := now\<rparr>"
    define s1 where "s1 = put_command (cb_command_id claim) (c\<lparr>mc_state := cs, mc_claim_expires_at := None\<rparr>) s"
    assume "broadcast_complete now s claim result =
       (let r1 = r\<lparr>br_state := rs, br_runtime := run, br_failure_code := code, br_updated_at := now\<rparr>
        in (Inr r1, put_record (mc_broadcast_id c) r1
              (put_command (cb_command_id claim) (c\<lparr>mc_state := cs, mc_claim_expires_at := None\<rparr>) s)))"
    then have out: "snd (broadcast_complete now s claim result) = put_record (mc_broadcast_id c) r1 s1"
      by (simp add: Let_def r1_def s1_def)
    have s1: "broadcast_ok s1 \<and> broadcast_advances s s1"
      unfolding s1_def using completion_result(1) [OF c(3)] c(2)
      by (intro put_command [OF ok c(1)] command_step.finished) (auto simp: unfinished_def)
    have "broadcast_ok (put_record (mc_broadcast_id c) r1 s1) \<and> broadcast_advances s1 (put_record (mc_broadcast_id c) r1 s1)"
      using completion_result(2,3) [OF c(3)] c(4) s1
      by (intro put_record [where r = r]) (auto simp: r1_def s1_def put_command_def)
    then show ?thesis unfolding out using s1 broadcast_advances_trans by blast
  qed
qed (simp add: ok)

section \<open>Failing workers and reconciliation\<close>

lemma fail_commands_queue:
  "map_of (fail_commands of_worker m) i = map_option (\<lambda>c. if of_worker (mc_worker c) \<and> unfinished c
     then c\<lparr>mc_state := MemoryCommandState.Failed, mc_claim_expires_at := None\<rparr> else c) (map_of m i)"
  unfolding fail_commands_def by (subst map_of_map_snd) simp

lemma fail_commands_run:
  assumes ok: "broadcast_ok s"
  shows "broadcast_ok (s\<lparr>mb_commands := fail_commands w (mb_commands s)\<rparr>) \<and>
    broadcast_advances s (s\<lparr>mb_commands := fail_commands w (mb_commands s)\<rparr>)"
proof (rule queue_change [OF ok])
  have "map fst (fail_commands w m) = map fst m" for m by (simp add: fail_commands_def case_prod_beta)
  then show "keys_distinct (mb_commands (s\<lparr>mb_commands := fail_commands w (mb_commands s)\<rparr>))"
    using ok by (simp add: broadcast_ok_def)
qed (auto simp: fail_commands_queue intro: command_step.intros)

lemma fail_worker_run:
  assumes ok: "broadcast_ok s"
  shows "broadcast_ok (snd (fail_worker_broadcasts clock s w code)) \<and>
    broadcast_advances s (snd (fail_worker_broadcasts clock s w code))"
proof -
  let ?f = "\<lambda>b r. if spec_worker (br_specification r) = w \<and> occupies (br_state r)
    then r\<lparr>br_state := DurableBroadcastState.Failed, br_failure_code := Some code, br_updated_at := clock b\<rparr> else r"
  define s1 where "s1 = s\<lparr>mb_commands := fail_commands (\<lambda>v. v = w) (mb_commands s)\<rparr>"
  define s2 where "s2 = s1\<lparr>mb_records := map (\<lambda>(b, r). (b, ?f b r)) (mb_records s1)\<rparr>"
  have s1: "broadcast_ok s1 \<and> broadcast_advances s s1" unfolding s1_def by (rule fail_commands_run [OF ok])
  have records: "records_in s2 b = map_option (?f b) (records_in s1 b)" for b
    using map_of_map_snd [of ?f "mb_records s1" b] by (simp add: s2_def)
  have "broadcast_ok s2 \<and> broadcast_advances s1 s2"
  proof (rule record_change)
    show "keys_distinct (mb_records s2)"
      using s1 by (simp add: s2_def broadcast_ok_def comp_def case_prod_beta)
  qed (use s1 in \<open>auto simp: records runtime_ok_def\<close>, simp_all add: s2_def)
  moreover have "snd (fail_worker_broadcasts clock s w code) = s2"
    by (simp add: fail_worker_broadcasts_def s2_def s1_def)
  ultimately show ?thesis using s1 broadcast_advances_trans by metis
qed

lemma fail_records_run:
  "broadcast_ok s \<Longrightarrow> broadcast_ok (snd (fail_records clock bs s)) \<and> broadcast_advances s (snd (fail_records clock bs s))"
proof (induction bs arbitrary: s)
  case (Cons b bs)
  show ?case
  proof (cases "records_in s b")
    case (Some r)
    have "broadcast_ok (put_record b (r\<lparr>br_state := DurableBroadcastState.Failed,
        br_failure_code := Some STALE_WORKER_FENCE, br_updated_at := clock b\<rparr>) s) \<and>
      broadcast_advances s (put_record b (r\<lparr>br_state := DurableBroadcastState.Failed,
        br_failure_code := Some STALE_WORKER_FENCE, br_updated_at := clock b\<rparr>) s)"
      by (rule put_record [OF Cons.prems Some]) (simp_all add: runtime_ok_def)
    with Cons.IH show ?thesis using Some broadcast_advances_trans by simp blast
  qed (simp add: Cons.prems)
qed simp

lemma fail_stale_worker_run:
  assumes ok: "broadcast_ok s"
  shows "broadcast_ok (snd (fail_stale_worker_broadcasts clock s w)) \<and>
    broadcast_advances s (snd (fail_stale_worker_broadcasts clock s w))"
proof -
  define s1 where "s1 = s\<lparr>mb_commands := fail_commands (other_incarnation w) (mb_commands s)\<rparr>"
  have s1: "broadcast_ok s1 \<and> broadcast_advances s s1" unfolding s1_def by (rule fail_commands_run [OF ok])
  have "snd (fail_stale_worker_broadcasts clock s w) =
      snd (fail_records clock (map (\<lambda>(_, r). spec_broadcast_id (br_specification r))
        (filter (\<lambda>(_, r). stale_record w r) (mb_records s))) s1)"
    by (simp add: fail_stale_worker_broadcasts_def s1_def Let_def split: prod.split sum.split)
  then show ?thesis using s1 fail_records_run [of s1] broadcast_advances_trans by metis
qed

lemma reconcile_terminal_run:
  assumes ok: "broadcast_ok s"
  shows "broadcast_ok (snd (reconcile_terminal p now s b w g grant code)) \<and>
    broadcast_advances s (snd (reconcile_terminal p now s b w g grant code))"
  using ok
  by (auto simp: reconcile_terminal_def runtime_ok_def split: sum.splits option.splits
      intro!: put_record [THEN conjunct1] put_record [THEN conjunct2])

lemma finalize_cleanup_run:
  assumes ok: "broadcast_ok s"
  shows "broadcast_ok (snd (finalize_failed_cleanup p now s b w grant)) \<and>
    broadcast_advances s (snd (finalize_failed_cleanup p now s b w grant))"
  using ok
  by (auto simp: finalize_failed_cleanup_def runtime_ok_def split: sum.splits option.splits
      intro!: put_record [THEN conjunct1] put_record [THEN conjunct2])

section \<open>Sequences of calls\<close>

lemma broadcast_call_run:
  "broadcast_ok s \<Longrightarrow> fresh_call s c \<Longrightarrow> broadcast_ok (broadcast_call s c) \<and> broadcast_advances s (broadcast_call s c)"
  by (cases c)
    (simp_all add: enqueue_start_run enqueue_stop_run broadcast_claim_run broadcast_complete_run fail_worker_run
      fail_stale_worker_run reconcile_terminal_run finalize_cleanup_run)

lemma broadcast_run_ok:
  "broadcast_ok s \<Longrightarrow> fresh_run s cs \<Longrightarrow> broadcast_ok (broadcast_run s cs) \<and> broadcast_advances s (broadcast_run s cs)"
proof (induction cs arbitrary: s)
  case (Cons c cs)
  then show ?case using broadcast_call_run [of s c] broadcast_advances_trans by simp blast
qed simp

lemma new_broadcast_ok: "broadcast_ok MemoryBroadcastCommandRepository_new"
  by (simp add: MemoryBroadcastCommandRepository_new_def broadcast_ok_def queue_ok_def record_ok_def receipts_ok_def)

end
