(* ===== verification/Broadcast_Claims.thy ===== *)
theory Broadcast_Claims
  imports Broadcast_Run
begin

text \<open>
  What the calls of the broadcast repository do to claims, to finished commands and to deleted
  broadcasts. The locale \<open>broadcast_stable\<close> is the contract of a fact that every call keeps; such a
  fact holds along every sequence of calls. A finished command and a deleted broadcast without
  unfinished commands are its instances.
\<close>

declare map_of_eq_Some_iff [simp del]

section \<open>Facts that every call keeps\<close>

locale broadcast_stable =
  fixes P :: "'v MemoryBroadcastState \<Rightarrow> bool"
  assumes stable: "broadcast_ok s \<Longrightarrow> fresh_call s c \<Longrightarrow> P s \<Longrightarrow> P (broadcast_call s c)"
begin

lemma stable_run: "broadcast_ok s \<Longrightarrow> fresh_run s cs \<Longrightarrow> P s \<Longrightarrow> P (broadcast_run s cs)"
  by (induction cs arbitrary: s) (auto dest: broadcast_call_run intro: stable)

end

section \<open>Finished commands\<close>

definition finished_command :: "uuid \<Rightarrow> 'v MemoryBroadcastState \<Rightarrow> bool" where
  "finished_command i s \<longleftrightarrow> (\<exists>c. queue_of s i = Some c \<and> \<not> unfinished c)"

lemma finished_advances: "broadcast_advances s s' \<Longrightarrow> finished_command i s \<Longrightarrow> finished_command i s'"
  unfolding finished_command_def by (metis broadcast_advances_queue command_steps_finished)

interpretation finished: broadcast_stable "finished_command i"
  by unfold_locales (auto dest: broadcast_call_run intro: finished_advances)

lemma finished_is_stale:
  "finished_command (cb_command_id claim) s \<Longrightarrow> broadcast_complete now s claim result = (Inl StaleClaim, s)"
  by (auto simp: finished_command_def unfinished_def broadcast_complete_def)

section \<open>Claims\<close>

text \<open>The result of the claim loop: one claim per identifier, in order, each of the next generation.\<close>

definition claimed_as ::
    "time \<Rightarrow> 'v MemoryBroadcastState \<Rightarrow> 'v MemoryBroadcastState \<Rightarrow> 'v ClaimedBroadcastCommand \<Rightarrow> bool" where
  "claimed_as e s s' claim \<longleftrightarrow>
     (\<exists>c. queue_of s (cb_command_id claim) = Some c \<and> cb_kind claim = mc_kind c \<and>
        mc_claim_generation c \<noteq> - 1 \<and> cb_claim_generation claim = mc_claim_generation c + 1 \<and>
        map_option br_specification (records_in s (mc_broadcast_id c)) = Some (br_specification (cb_record claim)) \<and>
        queue_of s' (cb_command_id claim) = Some (c\<lparr>mc_claim_generation := mc_claim_generation c + 1,
          mc_claim_expires_at := Some e, mc_state := Claimed\<rparr>))"

lemma claim_commands_result:
  "claim_commands e ids s = (Inr claims, s') \<Longrightarrow> distinct ids \<Longrightarrow>
     map cb_command_id claims = ids \<and> (\<forall>claim \<in> set claims. claimed_as e s s' claim) \<and>
     (\<forall>i. i \<notin> set ids \<longrightarrow> queue_of s' i = queue_of s i)"
proof (induction ids arbitrary: s claims)
  case (Cons j ids)
  obtain c where c: "queue_of s j = Some c" "mc_claim_generation c \<noteq> - 1"
    using Cons.prems(1) by (cases "queue_of s j") (auto split: if_splits)
  define c1 where "c1 = c\<lparr>mc_claim_generation := mc_claim_generation c + 1, mc_claim_expires_at := Some e,
    mc_state := Claimed\<rparr>"
  define s1 where "s1 = put_command j c1 s"
  obtain r more where rest: "claim_commands e ids s1 = (Inr more, s')" "records_in s1 (mc_broadcast_id c) = Some r"
      "claims = \<lparr>cb_command_id = j, cb_kind = mc_kind c, cb_claim_generation = mc_claim_generation c + 1,
        cb_record = r\<rparr> # more"
    using Cons.prems(1) c
    by (auto simp: Let_def s1_def [symmetric] c1_def [symmetric] split: option.splits prod.splits sum.splits)
  have j: "j \<notin> set ids" "distinct ids" using Cons.prems(2) by simp_all
  have IH: "map cb_command_id more = ids" "\<forall>claim \<in> set more. claimed_as e s1 s' claim"
      "\<forall>i. i \<notin> set ids \<longrightarrow> queue_of s' i = queue_of s1 i"
    using Cons.IH [OF rest(1) j(2)] by blast+
  have same: "mb_records s1 = mb_records s" by (simp add: s1_def put_command_def)
  have q: "queue_of s1 i = (if i = j then Some c1 else queue_of s i)" for i by (simp add: s1_def put_command_def)
  have "claimed_as e s s' (hd claims)"
    using IH(3) j(1) rest(2) c by (simp add: rest(3) claimed_as_def q same c1_def)
  moreover have "claimed_as e s s' claim" if m: "claim \<in> set more" for claim
  proof -
    have "cb_command_id claim \<noteq> j" using m IH(1) j(1) by auto
    then show ?thesis using IH(2) m by (auto simp: claimed_as_def q same)
  qed
  ultimately show ?case using IH(1,3) rest(3) by (auto simp: q)
qed simp

lemma broadcast_claim_result:
  assumes ok: "broadcast_ok s" and claims: "broadcast_claim ch now s w ttl n = (Inr claims, s')"
  obtains delta e where "delta_from_std ch ttl = Some delta" "checked_add_signed ch now delta = Some e"
    "map cb_command_id claims = take n (claim_order w now (mb_commands s))"
    "\<And>claim. claim \<in> set claims \<Longrightarrow> claimed_as e s s' claim"
    "\<And>i. i \<notin> set (take n (claim_order w now (mb_commands s))) \<Longrightarrow> queue_of s' i = queue_of s i"
proof -
  let ?ids = "take n (claim_order w now (mb_commands s))"
  obtain delta e where "delta_from_std ch ttl = Some delta" "checked_add_signed ch now delta = Some e"
      and run: "claim_commands e ?ids s = (Inr claims, s')"
    using claims by (auto simp: broadcast_claim_def split: option.splits if_splits)
  moreover have "distinct ?ids" by (simp add: claim_order_unfinished(1) [OF ok])
  ultimately show ?thesis using that claim_commands_result [OF run] by blast
qed

lemma claimed_was_ready:
  assumes "broadcast_ok s" "broadcast_claim ch now s w ttl n = (Inr claims, s')" "claim \<in> set claims"
  obtains c where "queue_of s (cb_command_id claim) = Some c" "ready_for_claim w now c"
proof -
  let ?ids = "take n (claim_order w now (mb_commands s))"
  have "map cb_command_id claims = ?ids" by (rule broadcast_claim_result [OF assms(1,2)])
  then have "cb_command_id claim \<in> set ?ids" using assms(3) by (metis image_eqI list.set_map)
  then have "cb_command_id claim \<in> set (claim_order w now (mb_commands s))" by (rule in_set_takeD)
  then show ?thesis unfolding claim_order_unfinished(2) [OF assms(1)] using that by blast
qed

section \<open>Generations\<close>

lemma next_generation: "g \<noteq> - 1 \<Longrightarrow> unat (g + 1 :: u64) = Suc (unat g)"
  by (metis eq_neg_iff_add_eq_0 unatSuc add.commute)

lemma command_steps_generation:
  "command_step\<^sup>*\<^sup>* c c' \<Longrightarrow> unat (mc_claim_generation c) \<le> unat (mc_claim_generation c')"
proof (induction rule: rtranclp_induct)
  case (step c1 c2)
  have "unat (mc_claim_generation c1) \<le> unat (mc_claim_generation c2)"
    using step.hyps(2) by (cases rule: command_step.cases) (simp_all add: next_generation)
  with step.IH show ?case by simp
qed simp

section \<open>Deleted broadcasts\<close>

text \<open>A record that is deleted and whose commands are all finished.\<close>

definition deleted_for_good :: "rstr \<Rightarrow> 'v DurableBroadcastRecord \<Rightarrow> 'v MemoryBroadcastState \<Rightarrow> bool" where
  "deleted_for_good b r s \<longleftrightarrow>
     records_in s b = Some r \<and> br_state r = Deleted \<and>
     (\<forall>i c. queue_of s i = Some c \<longrightarrow> mc_broadcast_id c = b \<longrightarrow> \<not> unfinished c)"

lemma deleted_steps:
  assumes gone: "deleted_for_good b r s" and adv: "broadcast_advances s s'"
    and kept: "records_in s' b = Some r"
    and old: "\<And>i c. queue_of s' i = Some c \<Longrightarrow> mc_broadcast_id c = b \<Longrightarrow> queue_of s i \<noteq> None"
  shows "deleted_for_good b r s'"
proof -
  have "\<not> unfinished c'" if q: "queue_of s' i = Some c'" "mc_broadcast_id c' = b" for i c'
  proof -
    obtain c where c: "queue_of s i = Some c" using old [OF q] by blast
    obtain c1 where c1: "queue_of s' i = Some c1" "command_step\<^sup>*\<^sup>* c c1" using broadcast_advances_queue [OF adv c] .
    then have "c1 = c'" using q(1) by simp
    with c1(2) have steps: "command_step\<^sup>*\<^sup>* c c'" by simp
    then have "\<not> unfinished c"
      using gone c q(2) command_steps_keep(2) [OF steps] unfolding deleted_for_good_def by simp
    then show ?thesis using command_steps_finished [OF steps] by simp
  qed
  then show ?thesis using gone kept by (simp add: deleted_for_good_def)
qed

lemma claim_commands_state:
  "snd (claim_commands e (j # ids) s) =
     (case queue_of s j of
        None \<Rightarrow> s
      | Some c \<Rightarrow>
          if mc_claim_generation c = - 1 then s
          else let s1 = put_command j (c\<lparr>mc_claim_generation := mc_claim_generation c + 1,
                          mc_claim_expires_at := Some e, mc_state := Claimed\<rparr>) s
               in if records_in s1 (mc_broadcast_id c) = None then s1 else snd (claim_commands e ids s1))"
  by (simp add: Let_def split: option.split prod.split sum.split)

lemma claim_commands_same:
  "mb_records (snd (claim_commands e ids s)) = mb_records s"
  "queue_of s i = None \<Longrightarrow> queue_of (snd (claim_commands e ids s)) i = None"
proof (induction ids arbitrary: s)
  case (Cons j ids)
  { case 1 show ?case
      using Cons.IH(1) unfolding claim_commands_state by (simp add: Let_def put_command_def split: option.split)
  next
    case 2
    have "queue_of (put_command j c s) i = None" if "queue_of s j \<noteq> None" for c
      using that 2 by (auto simp: put_command_def)
    then show ?case
      using Cons.IH(2) 2 unfolding claim_commands_state by (auto simp: Let_def split: option.split) }
qed simp_all

lemma broadcast_claim_same:
  "mb_records (snd (broadcast_claim ch now s w ttl n)) = mb_records s"
  "queue_of s i = None \<Longrightarrow> queue_of (snd (broadcast_claim ch now s w ttl n)) i = None"
  by (simp_all add: broadcast_claim_def claim_commands_same split: option.split)

lemma fail_records_other:
  "b \<notin> set bs \<Longrightarrow> records_in (snd (fail_records clock bs s)) b = records_in s b"
  "mb_commands (snd (fail_records clock bs s)) = mb_commands s"
  by (induction bs arbitrary: s) (auto simp: put_record_def split: option.splits)

lemma deleted_enqueue_start:
  assumes "deleted_for_good b r s" "records_in s (spec_broadcast_id spec) = None"
  shows "records_in (snd (enqueue_start p t now v s spec identity n)) b = Some r"
    and "queue_of (snd (enqueue_start p t now v s spec identity n)) i = Some c \<Longrightarrow> mc_broadcast_id c = b \<Longrightarrow>
      queue_of s i \<noteq> None"
  using assms
  by (auto simp: enqueue_start_def Let_def deleted_for_good_def new_command_def
      split: sum.splits option.splits if_splits)

lemma deleted_enqueue_stop:
  assumes gone: "deleted_for_good b r s"
  shows "records_in (snd (enqueue_stop p now t v s tenant d identity)) b = Some r \<and>
    (queue_of (snd (enqueue_stop p now t v s tenant d identity)) i = Some c \<longrightarrow> mc_broadcast_id c = b \<longrightarrow>
      queue_of s i \<noteq> None)"
proof (cases "snd (enqueue_stop p now t v s tenant d identity) = s")
  case True
  then show ?thesis using gone by (auto simp: deleted_for_good_def)
next
  case False
  then show ?thesis
  proof (cases rule: enqueue_stop_result)
    case (replayed x y)
    then show ?thesis using gone by (auto simp: deleted_for_good_def put_record_def)
  next
    case (recorded y)
    then show ?thesis
      using gone
      by (auto simp: deleted_for_good_def stop_effect_def Let_def put_record_def put_command_def new_command_def
          split: if_splits)
  qed
qed

lemma deleted_broadcast_complete:
  assumes ok: "broadcast_ok s" and gone: "deleted_for_good b r s"
  shows "records_in (snd (broadcast_complete now s claim result)) b = Some r \<and>
    (queue_of (snd (broadcast_complete now s claim result)) i \<noteq> None \<longrightarrow> queue_of s i \<noteq> None)"
proof (cases "snd (broadcast_complete now s claim result) = s")
  case True
  then show ?thesis using gone by (auto simp: deleted_for_good_def)
next
  case False
  then show ?thesis
  proof (rule broadcast_complete_result [OF _ ok])
    fix c r1 cs rs run code
    assume c: "queue_of s (cb_command_id claim) = Some c" "mc_state c = Claimed"
      and out: "broadcast_complete now s claim result =
         (let r2 = r1\<lparr>br_state := rs, br_runtime := run, br_failure_code := code, br_updated_at := now\<rparr>
          in (Inr r2, put_record (mc_broadcast_id c) r2
                (put_command (cb_command_id claim) (c\<lparr>mc_state := cs, mc_claim_expires_at := None\<rparr>) s)))"
    have "mc_broadcast_id c \<noteq> b" using gone c unfolding deleted_for_good_def unfinished_def by blast
    then show ?thesis
      unfolding out using gone c(1) by (auto simp: Let_def put_record_def put_command_def deleted_for_good_def)
  qed
qed

lemma deleted_fail_stale:
  assumes ok: "broadcast_ok s" and gone: "deleted_for_good b r s"
  shows "records_in (snd (fail_stale_worker_broadcasts clock s w)) b = Some r \<and>
    (queue_of (snd (fail_stale_worker_broadcasts clock s w)) i \<noteq> None \<longrightarrow> queue_of s i \<noteq> None)"
proof -
  let ?bs = "map (\<lambda>(_, r). spec_broadcast_id (br_specification r)) (filter (\<lambda>(_, r). stale_record w r) (mb_records s))"
  let ?s = "s\<lparr>mb_commands := fail_commands (other_incarnation w) (mb_commands s)\<rparr>"
  have dist: "keys_distinct (mb_records s)" and rec: "record_ok s" using ok by (simp_all add: broadcast_ok_def)
  have r: "records_in s b = Some r" "br_state r = Deleted" using gone by (simp_all add: deleted_for_good_def)
  have "\<not> stale_record w r"
    using rec r by (auto simp: record_ok_def runtime_ok_def stale_record_def occupies_def)
  moreover have "x = r" if "(d, x) \<in> set (mb_records s)" "spec_broadcast_id (br_specification x) = b" for d x
    using that rec r in_map_of [OF dist] unfolding record_ok_def by (metis option.inject)
  ultimately have "b \<notin> set ?bs" by auto
  moreover have "snd (fail_stale_worker_broadcasts clock s w) = snd (fail_records clock ?bs ?s)"
    by (simp add: fail_stale_worker_broadcasts_def Let_def split: prod.split sum.split)
  ultimately show ?thesis
    using r by (simp add: fail_records_other fail_commands_queue)
qed

lemma deleted_call:
  assumes ok: "broadcast_ok s" and fresh: "fresh_call s c" and gone: "deleted_for_good b r s"
  shows "deleted_for_good b r (broadcast_call s c)"
proof -
  have r: "records_in s b = Some r" "br_state r = Deleted" using gone by (simp_all add: deleted_for_good_def)
  have "records_in (broadcast_call s c) b = Some r \<and>
      (\<forall>i d. queue_of (broadcast_call s c) i = Some d \<longrightarrow> mc_broadcast_id d = b \<longrightarrow> queue_of s i \<noteq> None)"
  proof (cases c)
    case (EnqueueStart p t now v spec identity n)
    then show ?thesis using deleted_enqueue_start [OF gone] fresh by auto
  next
    case (EnqueueStop p now t v tenant d identity)
    then show ?thesis using deleted_enqueue_stop [OF gone] by simp
  next
    case (Claim ch now w ttl n)
    then show ?thesis
      using r broadcast_claim_same(2) [of s _ ch now w ttl n] by (force simp: broadcast_claim_same(1))
  next
    case (Complete now claim result)
    then show ?thesis using deleted_broadcast_complete [OF ok gone, of now claim result] by auto
  next
    case (FailWorker clock w code)
    then show ?thesis
      using r by (simp add: fail_worker_broadcasts_def map_of_map_snd fail_commands_queue occupies_def) blast
  next
    case (FailStaleWorker clock w)
    then show ?thesis using deleted_fail_stale [OF ok gone, of clock w] by auto
  next
    case (ReconcileTerminal p now d w g grant code)
    then show ?thesis
      using r by (auto simp: reconcile_terminal_def put_record_def split: sum.splits option.splits)
  next
    case (FinalizeCleanup p now d w grant)
    then show ?thesis
      using r by (auto simp: finalize_failed_cleanup_def put_record_def split: sum.splits option.splits)
  qed
  then show ?thesis using broadcast_call_run [OF ok fresh] by (intro deleted_steps [OF gone]) blast+
qed

interpretation deleted: broadcast_stable "deleted_for_good b r"
  by unfold_locales (rule deleted_call)

end
