(* ===== verification/Broadcast_Properties.thy ===== *)
theory Broadcast_Properties
  imports Broadcast_Claims
begin

text \<open>
  What the broadcast repository promises over every sequence of calls: the invariant, idempotent
  starts, claims that serve what is ready and are exclusive, completions that take effect once, the
  fencing of other incarnations of a worker, and that a deleted broadcast stays deleted.
\<close>

declare map_of_eq_Some_iff [simp del]

section \<open>A concrete repository\<close>

definition sample_parse :: "rstr \<Rightarrow> uuid option" where
  "sample_parse v = (case v of [] \<Rightarrow> None | n # _ \<Rightarrow> Some (of_nat n))"

definition sample_broadcast_lease :: "u64 \<Rightarrow> WorkerLease" where
  "sample_broadcast_lease fence = \<lparr>lease_worker_id = WorkerId 3, lease_fence = WorkerFence fence\<rparr>"

definition sample_spec :: DurableBroadcastSpec where
  "sample_spec =
     \<lparr>spec_broadcast_id = [7], spec_tenant_id = TenantId [3], spec_call_id = CallId 1,
      spec_source_leg_id = LegId 2, spec_source_binding_generation = BindingGeneration 1,
      spec_worker = sample_broadcast_lease 1, spec_transport = Moqt, spec_language = None,
      spec_sanitized_events = False, spec_expires_at = 1000\<rparr>"

definition sample_identity :: "256 word \<Rightarrow> BroadcastOperationIdentity" where
  "sample_identity request = \<lparr>oi_idempotency_digest = 5, oi_request_digest = request\<rparr>"

definition sample_start :: "nat BroadcastCall" where
  "sample_start = EnqueueStart sample_parse 1 2 11 sample_spec (sample_identity 6) 2"

definition sample_stop :: "nat BroadcastCall" where
  "sample_stop = EnqueueStop sample_parse 20 21 12 (TenantId [3]) [7] (sample_identity 8)"

definition sample_time :: chrono where
  "sample_time = \<lparr>checked_add_signed = (\<lambda>t d. Some (t + d)), delta_from_std = (\<lambda>n. Some (int n))\<rparr>"

definition sample_claim :: "time \<Rightarrow> nat BroadcastCall" where
  "sample_claim now = Claim sample_time now (sample_broadcast_lease 1) 10 4"

definition sample_runtime :: "nat DurableBroadcastRuntime" where
  "sample_runtime =
     \<lparr>run_endpoint = 0, run_protocol = 0, run_lifecycle = 0, run_health = 0, run_sanitized_events = False,
      run_grant_generation = None\<rparr>"

definition sample_record ::
    "DurableBroadcastState \<Rightarrow> nat DurableBroadcastRuntime option \<Rightarrow> time \<Rightarrow> nat DurableBroadcastRecord" where
  "sample_record state runtime updated =
     \<lparr>br_specification = sample_spec, br_state = state, br_runtime = runtime, br_failure_code = None,
      br_created_at = 2, br_updated_at = updated\<rparr>"

definition sample_claimed ::
    "uuid \<Rightarrow> DurableBroadcastCommandKind \<Rightarrow> u64 \<Rightarrow> nat DurableBroadcastRecord \<Rightarrow> nat ClaimedBroadcastCommand" where
  "sample_claimed i kind generation r =
     \<lparr>cb_command_id = i, cb_kind = kind, cb_claim_generation = generation, cb_record = r\<rparr>"

definition sample_queued ::
    "uuid \<Rightarrow> DurableBroadcastCommandKind \<Rightarrow> time \<Rightarrow> u64 \<Rightarrow> time option \<Rightarrow> MemoryCommandState \<Rightarrow> MemoryBroadcastCommand" where
  "sample_queued i kind available generation expires state =
     \<lparr>mc_command_id = i, mc_broadcast_id = [7], mc_worker = sample_broadcast_lease 1, mc_kind = kind,
      mc_available_at = available, mc_claim_generation = generation, mc_claim_expires_at = expires,
      mc_state = state\<rparr>"

definition sample_repository ::
    "nat DurableBroadcastRecord \<Rightarrow> ((TenantId \<times> 256 word) \<times> (256 word \<times> rstr)) list \<Rightarrow>
     (uuid \<times> MemoryBroadcastCommand) list \<Rightarrow> nat MemoryBroadcastState" where
  "sample_repository r deletes commands =
     \<lparr>mb_records = [([7], r)], mb_create_receipts = [((TenantId [3], 5), (6, [7]))],
      mb_delete_receipts = deletes, mb_commands = commands\<rparr>"

lemmas sample_broadcast_defs =
  sample_parse_def sample_broadcast_lease_def sample_spec_def sample_identity_def sample_start_def sample_stop_def
  sample_time_def sample_claim_def sample_claimed_def sample_runtime_def sample_record_def sample_queued_def
  sample_repository_def

text \<open>The broadcast is started, claimed, activated, stopped, claimed again and deleted.\<close>

abbreviation sample_started :: "nat MemoryBroadcastState" where
  "sample_started \<equiv> sample_repository (sample_record DurableBroadcastState.Pending None 2) []
     [(11, sample_queued 11 Start 2 0 None MemoryCommandState.Pending)]"

abbreviation sample_starting :: "u64 \<Rightarrow> time \<Rightarrow> nat MemoryBroadcastState" where
  "sample_starting generation expires \<equiv> sample_repository (sample_record DurableBroadcastState.Pending None 2) []
     [(11, sample_queued 11 Start 2 generation (Some expires) Claimed)]"

abbreviation sample_running :: "nat MemoryBroadcastState" where
  "sample_running \<equiv> sample_repository (sample_record Active (Some sample_runtime) 4) []
     [(11, sample_queued 11 Start 2 1 None Succeeded)]"

abbreviation sample_stopping :: "u64 \<Rightarrow> time option \<Rightarrow> MemoryCommandState \<Rightarrow> nat MemoryBroadcastState" where
  "sample_stopping generation expires state \<equiv>
     sample_repository (sample_record Deleting (Some sample_runtime) 20) [((TenantId [3], 5), (8, [7]))]
       [(11, sample_queued 11 Start 2 1 None Succeeded), (12, sample_queued 12 Stop 21 generation expires state)]"

abbreviation sample_gone :: "nat MemoryBroadcastState" where
  "sample_gone \<equiv> sample_repository (sample_record Deleted None 24) [((TenantId [3], 5), (8, [7]))]
     [(11, sample_queued 11 Start 2 1 None Succeeded), (12, sample_queued 12 Stop 21 1 None Succeeded)]"

lemma sample_start_run:
  "enqueue_start sample_parse 1 2 11 MemoryBroadcastCommandRepository_new sample_spec (sample_identity 6) 2 =
     (Inr \<lparr>eo_record = sample_record DurableBroadcastState.Pending None 2, eo_replayed = False\<rparr>, sample_started)"
  by (simp add: enqueue_start_def MemoryBroadcastCommandRepository_new_def validate_specification_def
      validate_broadcast_id_def active_count_def new_command_def Let_def and_then_def sample_broadcast_defs)

lemma sample_claim_run:
  "broadcast_claim sample_time 3 sample_started (sample_broadcast_lease 1) 10 4 =
     (Inr [sample_claimed 11 Start 1 (sample_record DurableBroadcastState.Pending None 2)], sample_starting 1 13)"
  "broadcast_claim sample_time 15 (sample_starting 1 13) (sample_broadcast_lease 1) 10 4 =
     (Inr [sample_claimed 11 Start 2 (sample_record DurableBroadcastState.Pending None 2)], sample_starting 2 25)"
  "broadcast_claim sample_time 22 (sample_stopping 0 None MemoryCommandState.Pending) (sample_broadcast_lease 1) 10 4 =
     (Inr [sample_claimed 12 Stop 1 (sample_record Deleting (Some sample_runtime) 20)],
      sample_stopping 1 (Some 32) Claimed)"
  by (simp_all add: broadcast_claim_def BROADCAST_MAX_CLAIM_TTL_def MAX_BATCH_def claim_order_def ready_for_claim_def
      Let_def put_command_def sample_broadcast_defs)

lemma sample_complete_run:
  "broadcast_complete 4 (sample_starting 1 13) (sample_claimed 11 Start 1 r) (Started sample_runtime) =
     (Inr (sample_record Active (Some sample_runtime) 4), sample_running)"
  "broadcast_complete 24 (sample_stopping 1 (Some 32) Claimed) (sample_claimed 12 Stop 1 r) Stopped =
     (Inr (sample_record Deleted None 24), sample_gone)"
  by (simp_all add: broadcast_complete_def completion_def Let_def put_command_def put_record_def sample_broadcast_defs)

lemma sample_stop_run:
  "enqueue_stop sample_parse 20 21 12 sample_running (TenantId [3]) [7] (sample_identity 8) =
     (Inr \<lparr>eo_record = sample_record Deleting (Some sample_runtime) 20, eo_replayed = False\<rparr>,
      sample_stopping 0 None MemoryCommandState.Pending)"
  by (simp add: enqueue_stop_def validate_broadcast_id_def has_stop_def new_command_def Let_def put_command_def
      put_record_def sample_broadcast_defs)

lemma claim_run_ok:
  assumes "broadcast_ok s" "broadcast_claim ch now s w ttl n = (x, s1)" "fresh_run s1 cs"
  shows "broadcast_ok (broadcast_run s1 cs) \<and> broadcast_advances s1 (broadcast_run s1 cs)"
  using broadcast_claim_run [OF assms(1), of ch now w ttl n] assms(2,3) broadcast_run_ok by fastforce

lemma sample_started_ok: "broadcast_ok sample_started"
proof -
  have "broadcast_run MemoryBroadcastCommandRepository_new [sample_start] = sample_started \<and>
      fresh_run MemoryBroadcastCommandRepository_new [sample_start]"
    by (simp add: sample_start_def sample_start_run) (simp add: MemoryBroadcastCommandRepository_new_def)
  then show ?thesis using broadcast_run_ok [OF new_broadcast_ok, of "[sample_start]"] by simp
qed

lemma sample_starting_ok: "broadcast_ok (sample_starting 1 13)"
  using claim_run_ok [OF sample_started_ok sample_claim_run(1), of "[]"] by simp

definition sample_history :: "nat BroadcastCall list" where
  "sample_history =
     [sample_start, sample_claim 3, Complete 4 (sample_claimed 11 Start 1 (sample_record Active None 2))
      (Started sample_runtime), sample_stop, sample_claim 22,
      Complete 24 (sample_claimed 12 Stop 1 (sample_record Active None 2)) Stopped]"

lemma sample_history_run:
  "broadcast_run MemoryBroadcastCommandRepository_new sample_history = sample_gone \<and>
     fresh_run MemoryBroadcastCommandRepository_new sample_history"
  by (simp add: sample_history_def sample_start_def sample_claim_def sample_stop_def sample_start_run
      sample_claim_run sample_complete_run sample_stop_run)
    (simp add: MemoryBroadcastCommandRepository_new_def sample_repository_def)

section \<open>The invariant\<close>

text \<open>
  C34: starting from an empty repository, every sequence of calls whose random identifiers are new
  leaves a well-formed repository: every command is stored under its identifier, belongs to a
  record of the worker it is addressed to, and is claimed exactly while it has an expiry; a
  broadcast has at most one start and one stop command; a record that is being deleted has a stop
  command; an active record has a runtime, a pending or deleted one has none, a failed one has a
  failure code; and every receipt names a record of its tenant.
\<close>

theorem broadcast_invariant:
  assumes "fresh_run MemoryBroadcastCommandRepository_new cs"
  shows "broadcast_ok (broadcast_run MemoryBroadcastCommandRepository_new cs)"
  using broadcast_run_ok [OF new_broadcast_ok assms] by blast

theorem broadcast_invariant_witness: "broadcast_ok sample_gone"
  using broadcast_invariant [of sample_history] sample_history_run by simp

section \<open>Starting\<close>

text \<open>
  C35: a start that succeeded stays answered. After any later calls, a start of the same tenant
  under the same idempotency key changes nothing: with the same request it returns the record of
  the broadcast as it is then, with the specification the first start recorded, and with another
  request it is refused as a conflict.
\<close>

theorem start_is_idempotent:
  assumes "broadcast_ok s" "fresh_call s (EnqueueStart p t now v spec identity n)"
    "enqueue_start p t now v s spec identity n = (Inr out, s1)" "fresh_run s1 cs"
    "validate_specification p' t' spec' = Inr ()" "spec_tenant_id spec' = spec_tenant_id spec"
    "oi_idempotency_digest identity' = oi_idempotency_digest identity"
  shows "if oi_request_digest identity' = oi_request_digest identity
    then \<exists>r. enqueue_start p' t' now' v' (broadcast_run s1 cs) spec' identity' n' =
        (Inr \<lparr>eo_record = r, eo_replayed = True\<rparr>, broadcast_run s1 cs) \<and>
      br_specification r = br_specification (eo_record out)
    else enqueue_start p' t' now' v' (broadcast_run s1 cs) spec' identity' n' =
      (Inl IdempotencyConflict, broadcast_run s1 cs)"
proof -
  let ?k = "(spec_tenant_id spec, oi_idempotency_digest identity)" and ?s = "broadcast_run s1 cs"
  have "broadcast_ok s1" using broadcast_call_run [OF assms(1,2)] assms(3) by simp
  then have adv: "broadcast_advances s1 ?s" using broadcast_run_ok assms(4) by blast
  obtain b r where r: "map_of (mb_create_receipts s1) ?k = Some (oi_request_digest identity, b)"
      "records_in s1 b = Some r" "br_specification r = br_specification (eo_record out)"
    using assms(3) unfolding enqueue_start_def Let_def
    by (auto split: sum.splits option.splits if_splits)
  have "map_of (mb_create_receipts ?s) ?k = Some (oi_request_digest identity, b)"
    using adv r(1) unfolding broadcast_advances_def by blast
  moreover obtain r' where "records_in ?s b = Some r'" "br_specification r' = br_specification r"
    using broadcast_advances_record [OF adv r(2)] .
  ultimately show ?thesis using assms(5-7) r(3) by (simp add: enqueue_start_def Let_def)
qed

theorem start_is_idempotent_witness:
  "\<exists>r. enqueue_start sample_parse 30 31 40 sample_gone sample_spec (sample_identity 6) 1 =
     (Inr \<lparr>eo_record = r, eo_replayed = True\<rparr>, sample_gone) \<and> br_specification r = sample_spec"
proof -
  let ?cs = "[sample_claim 3, Complete 4 (sample_claimed 11 Start 1 (sample_record Active None 2))
    (Started sample_runtime), sample_stop, sample_claim 22,
    Complete 24 (sample_claimed 12 Stop 1 (sample_record Active None 2)) Stopped]"
  have run: "broadcast_run sample_started ?cs = sample_gone \<and> fresh_run sample_started ?cs"
    by (simp add: sample_claim_def sample_stop_def sample_claim_run sample_complete_run sample_stop_run)
      (simp add: sample_repository_def)
  have "validate_specification sample_parse 30 sample_spec = Inr ()"
    by (simp add: validate_specification_def validate_broadcast_id_def and_then_def sample_broadcast_defs)
  then show ?thesis
    using start_is_idempotent [OF new_broadcast_ok _ sample_start_run, of ?cs sample_parse 30 sample_spec
        "sample_identity 6" 31 40 1] run
    by (simp add: sample_record_def) (simp add: MemoryBroadcastCommandRepository_new_def)
qed

section \<open>Claims\<close>

lemma claim_commands_succeed:
  assumes "broadcast_ok s" "distinct ids"
    "\<And>i. i \<in> set ids \<Longrightarrow> \<exists>c. queue_of s i = Some c \<and> unfinished c \<and> mc_claim_generation c \<noteq> - 1"
  shows "\<exists>claims s'. claim_commands e ids s = (Inr claims, s')"
  using assms
proof (induction ids arbitrary: s)
  case (Cons i ids)
  obtain c where c: "queue_of s i = Some c" "unfinished c" "mc_claim_generation c \<noteq> - 1"
    using Cons.prems(3) [of i] by auto
  define c1 where "c1 = c\<lparr>mc_claim_generation := mc_claim_generation c + 1, mc_claim_expires_at := Some e,
    mc_state := Claimed\<rparr>"
  define s1 where "s1 = put_command i c1 s"
  have ok: "broadcast_ok s1"
    using put_command [OF Cons.prems(1) c(1) command_step.claimed [OF c(2,3), of e]] by (simp add: s1_def c1_def)
  have "mb_records s1 = mb_records s" by (simp add: s1_def put_command_def)
  then obtain r where r: "records_in s1 (mc_broadcast_id c) = Some r"
    using Cons.prems(1) c(1) unfolding broadcast_ok_def queue_ok_def by metis
  have "\<exists>claims s'. claim_commands e ids s1 = (Inr claims, s')"
    using Cons.prems(2,3) by (intro Cons.IH ok) (auto simp: s1_def put_command_def)
  then show ?case
    using c(1,3) r by (auto simp: Let_def s1_def [symmetric] c1_def [symmetric])
qed simp

text \<open>The order of service: the older command first, and of two equally old ones the one with the
  smaller identifier.\<close>

definition served_before :: "'v MemoryBroadcastState \<Rightarrow> uuid \<Rightarrow> uuid \<Rightarrow> bool" where
  "served_before s i j \<longleftrightarrow>
     (let a = mc_available_at (the (queue_of s i)); b = mc_available_at (the (queue_of s j))
      in a < b \<or> a = b \<and> i < j)"

lemma sorted_by_both:
  fixes xs :: "('a :: linorder \<times> 'b :: linorder) list"
  assumes "sorted (map fst xs)" "\<And>a. sorted_wrt (\<lambda>x y. snd x < snd y) (filter (\<lambda>x. fst x = a) xs)"
  shows "sorted_wrt (\<lambda>x y. fst x < fst y \<or> fst x = fst y \<and> snd x < snd y) xs"
  using assms
proof (induction xs)
  case (Cons x xs)
  have "sorted_wrt (\<lambda>x y. snd x < snd y) (filter (\<lambda>y. fst y = a) xs)" for a
    using Cons.prems(2) [of a] by (cases "fst x = a") simp_all
  moreover have "snd x < snd y" if "y \<in> set xs" "fst y = fst x" for y
    using Cons.prems(2) [of "fst x"] that by (cases y) simp
  ultimately show ?case using Cons.IH Cons.prems(1) by (auto simp: order.order_iff_strict)
qed simp

lemma claim_order_sorted:
  assumes ok: "broadcast_ok s"
  shows "sorted_wrt (served_before s) (claim_order w now (mb_commands s))"
proof -
  let ?l = "map (\<lambda>(_, c). (mc_available_at c, mc_command_id c))
    (filter (\<lambda>(_, c). ready_for_claim w now c) (mb_commands s))"
  let ?p = "sort_key fst (sort_key snd ?l)"
  have dist: "keys_distinct (mb_commands s)" and q: "queue_ok s" using ok by (simp_all add: broadcast_ok_def)
  have key: "mc_available_at (the (queue_of s (snd x))) = fst x" if x: "x \<in> set ?p" for x
  proof -
    obtain i c where c: "(i, c) \<in> set (mb_commands s)" "x = (mc_available_at c, mc_command_id c)" using x by auto
    then have "queue_of s i = Some c" using in_map_of [OF dist] by blast
    moreover from this have "mc_command_id c = i" using q unfolding queue_ok_def queued_ok_def by blast
    ultimately show ?thesis using c(2) by simp
  qed
  have order: "claim_order w now (mb_commands s) = map snd ?p" by (simp add: claim_order_def)
  have "mset (map snd (sort_key snd ?l)) = mset (map snd ?p)" by (simp only: mset_map mset_sort)
  note same = mset_eq_imp_distinct_iff [OF this]
  have "distinct (map snd (sort_key snd ?l))"
    unfolding same using claim_order_unfinished(1) [OF ok, of w now] unfolding order .
  then have "sorted_wrt (<) (map snd (sort_key snd ?l))"
    by (simp only: strict_sorted_iff sorted_sort_key simp_thms)
  then have "sorted_wrt (\<lambda>x y. snd x < snd y) (filter (\<lambda>x. fst x = a) ?p)" for a
    unfolding sort_key_stable by (simp only: sorted_wrt_map sorted_wrt_filter)
  then have "sorted_wrt (\<lambda>x y. fst x < fst y \<or> fst x = fst y \<and> snd x < snd y) ?p"
    by (rule sorted_by_both [OF sorted_sort_key])
  then have "sorted_wrt (\<lambda>x y. served_before s (snd x) (snd y)) ?p"
    by (rule sorted_wrt_mono_rel [rotated]) (use key in \<open>simp only: served_before_def Let_def\<close>)
  then show ?thesis unfolding order sorted_wrt_map .
qed

text \<open>
  C36: a claim within the limits succeeds as long as no claim counter is exhausted. It serves the
  worker's commands that are ready (pending, or claimed with an expired claim), the oldest ones
  first and equally old ones by their identifiers: the served commands are in this order, they come
  before every ready command that is left out, and one is left out only when the batch is full. Each
  served command enters its next claim generation and is held until the expiry.
\<close>

theorem claim_serves_ready_commands:
  assumes ok: "broadcast_ok s" and limits: "0 < ttl" "ttl \<le> BROADCAST_MAX_CLAIM_TTL" "0 < n" "n \<le> MAX_BATCH"
    and expiry: "delta_from_std ch ttl = Some d" "checked_add_signed ch now d = Some e"
    and counters: "\<forall>i c. queue_of s i = Some c \<longrightarrow> mc_claim_generation c \<noteq> - 1"
  shows "\<exists>claims s'. broadcast_claim ch now s w ttl n = (Inr claims, s') \<and>
    length claims \<le> n \<and> sorted_wrt (served_before s) (map cb_command_id claims) \<and>
    (\<forall>claim \<in> set claims. claimed_as e s s' claim \<and> ready_for_claim w now (the (queue_of s (cb_command_id claim)))) \<and>
    (\<forall>i c. queue_of s i = Some c \<longrightarrow> ready_for_claim w now c \<longrightarrow> i \<notin> cb_command_id ` set claims \<longrightarrow>
       length claims = n \<and> (\<forall>claim \<in> set claims. served_before s (cb_command_id claim) i))"
proof -
  let ?all = "claim_order w now (mb_commands s)"
  note order = claim_order_unfinished [OF ok]
  have "\<exists>c. queue_of s i = Some c \<and> unfinished c \<and> mc_claim_generation c \<noteq> - 1" if "i \<in> set (take n ?all)" for i
    using in_set_takeD [OF that] counters ready_unfinished unfolding order(2) by blast
  then obtain claims s' where run: "claim_commands e (take n ?all) s = (Inr claims, s')"
    using claim_commands_succeed [OF ok, of "take n ?all"] order(1) by (metis distinct_take)
  then have claim: "broadcast_claim ch now s w ttl n = (Inr claims, s')"
    using limits expiry by (simp add: broadcast_claim_def)
  note res = claim_commands_result [OF run distinct_take [OF order(1)]]
  have ids: "map cb_command_id claims = take n ?all" using res by blast
  have set: "cb_command_id ` set claims = set (take n ?all)" using ids by (metis list.set_map)
  have len: "length claims = min (length ?all) n" using arg_cong [OF ids, of length] by simp
  have sorted: "sorted_wrt (served_before s) (take n ?all @ drop n ?all)"
    using claim_order_sorted [OF ok, of w now] by simp
  have "ready_for_claim w now (the (queue_of s (cb_command_id claim)))" if c: "claim \<in> set claims" for claim
    using claimed_was_ready [OF ok claim c] by (metis option.sel)
  moreover have "length claims = n \<and> (\<forall>claim \<in> set claims. served_before s (cb_command_id claim) i)"
    if i: "queue_of s i = Some c" "ready_for_claim w now c" "i \<notin> cb_command_id ` set claims" for i c
  proof -
    have "i \<in> set (take n ?all) \<union> set (drop n ?all)"
      using i(1,2) order(2) by (metis append_take_drop_id set_append)
    then have left: "i \<in> set (drop n ?all)" using i(3) set by blast
    then have "length claims = n" using len by (cases "length ?all \<le> n") simp_all
    then show ?thesis
      using sorted left set unfolding sorted_wrt_append by (metis imageI)
  qed
  ultimately show ?thesis
    using claim res len sorted ids by (intro exI [of _ claims] exI [of _ s']) (simp add: sorted_wrt_append)
qed

theorem claim_serves_ready_commands_witness:
  "\<exists>claims s'. broadcast_claim sample_time 15 (sample_starting 1 13) (sample_broadcast_lease 1) 10 4 =
       (Inr claims, s') \<and> sorted_wrt (served_before (sample_starting 1 13)) (map cb_command_id claims) \<and>
     11 \<in> cb_command_id ` set claims"
proof -
  have "\<forall>i c. queue_of (sample_starting 1 13) i = Some c \<longrightarrow> mc_claim_generation c \<noteq> - 1"
    by (simp add: sample_broadcast_defs)
  moreover have "delta_from_std sample_time 10 = Some 10" "checked_add_signed sample_time 15 10 = Some 25"
    by (simp_all add: sample_time_def)
  ultimately obtain claims s' where
    "broadcast_claim sample_time 15 (sample_starting 1 13) (sample_broadcast_lease 1) 10 4 = (Inr claims, s')"
    "sorted_wrt (served_before (sample_starting 1 13)) (map cb_command_id claims)"
    using claim_serves_ready_commands [OF sample_starting_ok, of 10 4 sample_time 10 15 25 "sample_broadcast_lease 1"]
    by (simp add: BROADCAST_MAX_CLAIM_TTL_def MAX_BATCH_def) blast
  then show ?thesis
    by (auto simp: sample_claim_run sample_claimed_def)
qed

lemma claimed_generation:
  assumes "broadcast_ok s" "broadcast_claim ch now s w ttl n = (Inr claims, s1)" "claim \<in> set claims"
  obtains c c1 where "queue_of s (cb_command_id claim) = Some c" "queue_of s1 (cb_command_id claim) = Some c1"
    "unat (cb_claim_generation claim) = Suc (unat (mc_claim_generation c))"
    "mc_claim_generation c1 = cb_claim_generation claim"
proof -
  obtain e where "claimed_as e s s1 claim" using broadcast_claim_result [OF assms(1,2)] assms(3) by metis
  then show ?thesis using that unfolding claimed_as_def by (auto simp: next_generation)
qed

text \<open>
  C37: a claim is superseded for good. When a command that a worker claimed is claimed again later,
  after any calls in between, the second claim has a greater generation, and from then on
  completing the first claim is refused as stale and changes nothing.
\<close>

theorem superseded_claim_is_stale:
  assumes ok: "broadcast_ok s"
    and first: "broadcast_claim ch now s w ttl n = (Inr claims, s1)" "claim \<in> set claims" "fresh_run s1 cs"
    and second: "broadcast_claim ch' now' (broadcast_run s1 cs) w' ttl' n' = (Inr claims', s2)" "claim' \<in> set claims'"
      "cb_command_id claim' = cb_command_id claim" "fresh_run s2 ds"
  shows "unat (cb_claim_generation claim) < unat (cb_claim_generation claim') \<and>
    broadcast_complete t (broadcast_run s2 ds) claim result = (Inl StaleClaim, broadcast_run s2 ds)"
proof -
  let ?i = "cb_command_id claim" and ?s = "broadcast_run s1 cs" and ?t = "broadcast_run s2 ds"
  note run = claim_run_ok [OF ok first(1,3)]
  obtain c1 where c1: "queue_of s1 ?i = Some c1" "mc_claim_generation c1 = cb_claim_generation claim"
    using claimed_generation [OF ok first(1,2)] .
  obtain c2 c3 where c2: "queue_of ?s ?i = Some c2" "queue_of s2 ?i = Some c3"
      "unat (cb_claim_generation claim') = Suc (unat (mc_claim_generation c2))"
      "mc_claim_generation c3 = cb_claim_generation claim'"
    using claimed_generation [OF conjunct1 [OF run] second(1,2)] second(3) by metis
  have "command_step\<^sup>*\<^sup>* c1 c2" using broadcast_advances_queue [OF conjunct2 [OF run] c1(1)] c2(1) by (metis option.inject)
  then have less: "unat (cb_claim_generation claim) < unat (cb_claim_generation claim')"
    using command_steps_generation c1(2) c2(3) by fastforce
  obtain c4 where c4: "queue_of ?t ?i = Some c4" "command_step\<^sup>*\<^sup>* c3 c4"
    using broadcast_advances_queue [OF conjunct2 [OF claim_run_ok [OF conjunct1 [OF run] second(1,4)]] c2(2)] .
  then have "mc_claim_generation c4 \<noteq> cb_claim_generation claim"
    using command_steps_generation [OF c4(2)] less c2(4) by auto
  then show ?thesis using less c4(1) by (simp add: broadcast_complete_def)
qed

theorem superseded_claim_is_stale_witness:
  "broadcast_complete 16 (sample_starting 2 25) (sample_claimed 11 Start 1 (sample_record DurableBroadcastState.Pending None 2))
     (Started sample_runtime) = (Inl StaleClaim, sample_starting 2 25)"
  using superseded_claim_is_stale [OF sample_started_ok sample_claim_run(1), of _ "[]" sample_time 15
      "sample_broadcast_lease 1" 10 4
      "[sample_claimed 11 Start 2 (sample_record DurableBroadcastState.Pending None 2)]" "sample_starting 2 25"
      "sample_claimed 11 Start 2 (sample_record DurableBroadcastState.Pending None 2)" "[]" 16 "Started sample_runtime"]
  by (simp add: sample_claim_run) (simp add: sample_claimed_def)

section \<open>Completions\<close>

text \<open>
  C38: a command takes effect once. After a completion succeeded, and after any later calls, every
  completion of that command is refused as stale and changes nothing, whatever claim it presents,
  and no claim returns the command again.
\<close>

theorem completion_takes_effect_once:
  assumes ok: "broadcast_ok s" and done1: "broadcast_complete now s claim result = (Inr r, s1)" and run: "fresh_run s1 cs"
    and later: "cb_command_id claim' = cb_command_id claim"
  shows "broadcast_complete now' (broadcast_run s1 cs) claim' result' = (Inl StaleClaim, broadcast_run s1 cs) \<and>
    (\<forall>ch t w ttl n claims s2. broadcast_claim ch t (broadcast_run s1 cs) w ttl n = (Inr claims, s2) \<longrightarrow>
       cb_command_id claim \<notin> cb_command_id ` set claims)"
proof -
  let ?s = "broadcast_run s1 cs" and ?i = "cb_command_id claim"
  have ok1: "broadcast_ok s1" using broadcast_complete_run [OF ok, of now claim result] done1 by simp
  have "finished_command ?i s1"
    using done1
    by (auto simp: broadcast_complete_def finished_command_def unfinished_def completion_def Let_def put_record_def
        put_command_def split: option.splits if_splits prod.splits BroadcastCommandResult.splits)
  then have gone: "finished_command ?i ?s" by (rule finished.stable_run [OF ok1 run])
  have "?i \<notin> cb_command_id ` set claims" if c: "broadcast_claim ch t ?s w ttl n = (Inr claims, s2)" for ch t w ttl n claims s2
  proof
    assume "?i \<in> cb_command_id ` set claims"
    then obtain x where x: "x \<in> set claims" "cb_command_id x = ?i" by auto
    have "broadcast_ok ?s" using broadcast_run_ok [OF ok1 run] by blast
    then obtain d where "queue_of ?s ?i = Some d" "unfinished d"
      using claimed_was_ready [OF _ c x(1)] x(2) ready_unfinished by metis
    then show False using gone by (simp add: finished_command_def)
  qed
  then show ?thesis using finished_is_stale gone later by metis
qed

theorem completion_takes_effect_once_witness:
  "broadcast_complete 5 sample_running (sample_claimed 11 Start 1 (sample_record DurableBroadcastState.Pending None 2))
     (BroadcastCommandResult.Failed []) = (Inl StaleClaim, sample_running)"
  using completion_takes_effect_once [OF sample_starting_ok sample_complete_run(1), of "[]"
      "sample_claimed 11 Start 1 (sample_record DurableBroadcastState.Pending None 2)"]
  by (simp add: sample_claimed_def)

section \<open>Other incarnations of a worker\<close>

definition failed_record :: "time \<Rightarrow> 'v DurableBroadcastRecord \<Rightarrow> 'v DurableBroadcastRecord" where
  "failed_record t r = r\<lparr>br_state := DurableBroadcastState.Failed,
     br_failure_code := Some STALE_WORKER_FENCE, br_updated_at := t\<rparr>"

lemma fail_records_result:
  "\<forall>b \<in> set bs. records_in s b \<noteq> None \<Longrightarrow>
     fst (fail_records clock bs s) = Inr () \<and>
     records_in (snd (fail_records clock bs s)) b =
       (if b \<in> set bs then map_option (failed_record (clock b)) (records_in s b) else records_in s b)"
proof (induction bs arbitrary: s)
  case (Cons d bs)
  then obtain r where r: "records_in s d = Some r" by auto
  let ?s = "put_record d (failed_record (clock d) r) s"
  have q: "records_in ?s x = (if x = d then Some (failed_record (clock d) r) else records_in s x)" for x
    by (simp add: put_record_def)
  have "\<forall>x \<in> set bs. records_in ?s x \<noteq> None" using Cons.prems by (simp add: q)
  then have "fst (fail_records clock bs ?s) = Inr () \<and> records_in (snd (fail_records clock bs ?s)) b =
      (if b \<in> set bs then map_option (failed_record (clock b)) (records_in ?s b) else records_in ?s b)"
    by (rule Cons.IH)
  moreover have "fail_records clock (d # bs) s = fail_records clock bs ?s" using r by (simp add: failed_record_def)
  moreover have "failed_record t (failed_record t r) = failed_record t r" for t by (simp add: failed_record_def)
  ultimately show ?case using r by (simp add: q del: fail_records.simps)
qed simp

lemma collect_records_result:
  "\<forall>b \<in> set bs. records_in s b \<noteq> None \<Longrightarrow> collect_records bs s = Inr (map (\<lambda>b. the (records_in s b)) bs)"
  by (induction bs) (auto simp: and_then_def)

text \<open>The call for the current incarnation of a worker, record by record.\<close>

lemma fail_stale_result:
  fixes s :: "'v MemoryBroadcastState" and w :: WorkerLease and clock :: "rstr \<Rightarrow> time"
  assumes ok: "broadcast_ok s"
  defines "bs \<equiv> map (\<lambda>(_, r). spec_broadcast_id (br_specification r))
    (filter (\<lambda>(_, r). stale_record w r) (mb_records s))"
  defines "s2 \<equiv> snd (fail_stale_worker_broadcasts clock s w)"
  shows "fst (fail_stale_worker_broadcasts clock s w) = Inr (map (\<lambda>b. the (records_in s2 b)) bs)"
    and "mb_commands s2 = fail_commands (other_incarnation w) (mb_commands s)"
    and "records_in s2 b = map_option (\<lambda>r. if stale_record w r then failed_record (clock b) r else r) (records_in s b)"
    and "b \<in> set bs \<longleftrightarrow> (\<exists>r. records_in s b = Some r \<and> stale_record w r)"
proof -
  let ?s = "s\<lparr>mb_commands := fail_commands (other_incarnation w) (mb_commands s)\<rparr>"
  have dist: "keys_distinct (mb_records s)" and rec: "record_ok s" using ok by (simp_all add: broadcast_ok_def)
  have id: "spec_broadcast_id (br_specification r) = d" if "(d, r) \<in> set (mb_records s)" for d r
    using that rec in_map_of [OF dist] unfolding record_ok_def by blast
  have "bs = map fst (filter (\<lambda>(_, r). stale_record w r) (mb_records s))"
    unfolding bs_def using id by (auto intro!: map_cong)
  then show bs: "b \<in> set bs \<longleftrightarrow> (\<exists>r. records_in s b = Some r \<and> stale_record w r)" for b
    using in_map_of [OF dist] by force
  then have all: "\<forall>b \<in> set bs. records_in ?s b \<noteq> None" by auto
  note res = fail_records_result [OF all, of clock]
  have run: "fail_records clock bs ?s = (Inr (), snd (fail_records clock bs ?s))" using res by (simp add: prod_eq_iff)
  have s2: "s2 = snd (fail_records clock bs ?s)"
    by (simp add: s2_def fail_stale_worker_broadcasts_def Let_def bs_def [symmetric] split: prod.split sum.split)
  show "mb_commands s2 = fail_commands (other_incarnation w) (mb_commands s)" by (simp add: s2 fail_records_other)
  show "records_in s2 b = map_option (\<lambda>r. if stale_record w r then failed_record (clock b) r else r) (records_in s b)"
    using res [of b] bs [of b] by (cases "records_in s b") (auto simp: s2)
  have "\<forall>b \<in> set bs. records_in s2 b \<noteq> None" using res all by (simp add: s2)
  then have "collect_records bs s2 = Inr (map (\<lambda>b. the (records_in s2 b)) bs)" by (rule collect_records_result)
  then show "fst (fail_stale_worker_broadcasts clock s w) = Inr (map (\<lambda>b. the (records_in s2 b)) bs)"
    unfolding fail_stale_worker_broadcasts_def Let_def bs_def [symmetric]
    by (subst run) (simp add: s2 [symmetric])
qed

text \<open>
  C39: a worker that comes back under a new fence shuts out its other incarnations, those with any
  other fence. The call succeeds and returns the records it failed; no broadcast of another
  incarnation occupies the worker any more, and whatever calls follow, completing one of
  their claims is refused as stale and changes nothing.
\<close>

theorem other_incarnations_are_fenced:
  assumes ok: "broadcast_ok s" and call: "fail_stale_worker_broadcasts clock s w = (out, s1)" and run: "fresh_run s1 cs"
  shows "(\<exists>rs. out = Inr rs \<and> (\<forall>r \<in> set rs. br_state r = DurableBroadcastState.Failed \<and>
        other_incarnation w (spec_worker (br_specification r)))) \<and>
    (\<forall>b r. records_in s1 b = Some r \<longrightarrow> other_incarnation w (spec_worker (br_specification r)) \<longrightarrow>
       \<not> occupies (br_state r)) \<and>
    (\<forall>c claim now result. queue_of s (cb_command_id claim) = Some c \<longrightarrow> other_incarnation w (mc_worker c) \<longrightarrow>
       broadcast_complete now (broadcast_run s1 cs) claim result = (Inl StaleClaim, broadcast_run s1 cs))"
proof -
  let ?bs = "map (\<lambda>(_, r). spec_broadcast_id (br_specification r)) (filter (\<lambda>(_, r). stale_record w r) (mb_records s))"
  note res = fail_stale_result(1-3) [OF ok, where w = w and clock = clock, unfolded call fst_conv snd_conv]
  note stale = fail_stale_result(4) [OF ok, where w = w]
  have ok1: "broadcast_ok s1" using fail_stale_worker_run [OF ok, of clock w] call by simp
  have "br_state r = DurableBroadcastState.Failed \<and> other_incarnation w (spec_worker (br_specification r))"
    if r: "r \<in> set (map (\<lambda>b. the (records_in s1 b)) ?bs)" for r
  proof -
    obtain b where "b \<in> set ?bs" "r = the (records_in s1 b)" using r unfolding set_map by blast
    moreover from this(1) obtain x where "records_in s b = Some x" "stale_record w x" unfolding stale by blast
    ultimately show ?thesis using res(3) [of b] by (simp add: failed_record_def stale_record_def)
  qed
  moreover have "\<not> occupies (br_state r)"
    if r: "records_in s1 b = Some r" "other_incarnation w (spec_worker (br_specification r))" for b r
  proof -
    obtain x where x: "r = (if stale_record w x then failed_record (clock b) x else x)"
      using r(1) res(3) [of b] by auto
    show ?thesis
    proof (cases "stale_record w x")
      case True
      then show ?thesis using x by (simp add: failed_record_def occupies_def)
    next
      case False
      then have "r = x" using x by simp
      then show ?thesis using False r(2) by (auto simp: stale_record_def)
    qed
  qed
  moreover have "broadcast_complete now (broadcast_run s1 cs) claim result = (Inl StaleClaim, broadcast_run s1 cs)"
    if c: "queue_of s (cb_command_id claim) = Some c" "other_incarnation w (mc_worker c)" for c claim now result
  proof -
    have "finished_command (cb_command_id claim) s1"
      using c by (auto simp: finished_command_def res(2) fail_commands_queue unfinished_def)
    then have "finished_command (cb_command_id claim) (broadcast_run s1 cs)" by (rule finished.stable_run [OF ok1 run])
    then show ?thesis by (rule finished_is_stale)
  qed
  ultimately show ?thesis using res(1) by blast
qed

theorem other_incarnations_are_fenced_witness:
  "broadcast_complete 5 (snd (fail_stale_worker_broadcasts (\<lambda>_. 4) (sample_starting 1 13) (sample_broadcast_lease 2)))
     (sample_claimed 11 Start 1 (sample_record DurableBroadcastState.Pending None 2)) (Started sample_runtime) =
     (Inl StaleClaim, snd (fail_stale_worker_broadcasts (\<lambda>_. 4) (sample_starting 1 13) (sample_broadcast_lease 2)))"
  using other_incarnations_are_fenced [OF sample_starting_ok surjective_pairing, where cs = "[]" and clock = "\<lambda>_. 4"
      and w = "sample_broadcast_lease 2"]
  by (simp add: other_incarnation_def sample_broadcast_defs)

section \<open>Deleted broadcasts\<close>

text \<open>
  C40: a broadcast that is deleted and has no unfinished command keeps its record exactly as it is,
  whatever calls follow, and a further stop of its tenant succeeds without changing it.
\<close>

theorem deleted_broadcast_stays_deleted:
  assumes ok: "broadcast_ok s" and gone: "deleted_for_good b r s" and run: "fresh_run s cs"
  shows "records_in (broadcast_run s cs) b = Some r \<and>
    (\<forall>p now t v identity. validate_broadcast_id p b = Inr () \<longrightarrow>
       map_of (mb_delete_receipts (broadcast_run s cs)) (spec_tenant_id (br_specification r), oi_idempotency_digest identity) = None \<longrightarrow>
       fst (enqueue_stop p now t v (broadcast_run s cs) (spec_tenant_id (br_specification r)) b identity) =
         Inr \<lparr>eo_record = r, eo_replayed = False\<rparr>)"
proof -
  have "deleted_for_good b r (broadcast_run s cs)" using gone by (rule deleted.stable_run [OF ok run])
  then show ?thesis by (simp add: deleted_for_good_def enqueue_stop_def Let_def)
qed

theorem deleted_broadcast_stays_deleted_witness:
  "records_in (broadcast_run sample_gone [sample_claim 40, FailWorker (\<lambda>_. 41) (sample_broadcast_lease 1) []]) [7] =
     Some (sample_record Deleted None 24)"
proof -
  have ok: "broadcast_ok sample_gone" using broadcast_run_ok [OF new_broadcast_ok, of sample_history] sample_history_run by simp
  have "deleted_for_good [7] (sample_record Deleted None 24) sample_gone"
    by (simp add: deleted_for_good_def unfinished_def sample_broadcast_defs)
  then show ?thesis
    using deleted_broadcast_stays_deleted [OF ok, of "[7]" _ "[sample_claim 40, FailWorker (\<lambda>_. 41) (sample_broadcast_lease 1) []]"]
    by (simp add: sample_claim_def)
qed

end
