(* ===== verification/Spec2Isabelle.thy ===== *)
theory Spec2Isabelle
  imports Call_Effects Coord_Projector Coord_Polling Egress_Service_Properties Broadcast_Properties
begin

text \<open>
  A verification of the state-keeping parts of bridgefu, a bridge that connects the two legs of a
  call between telephony providers and media gateways. All paths below are under \<open>src/src/\<close>.

  \<^bold>\<open>The parts and how they interact.\<close>
  A call is an aggregate that decides, for every command, the next state of the call and the effects
  a worker has to perform (\<open>call_engine/domain.rs\<close>). Durable facts about workers, call routes,
  attachments and replay digests leave the database as ordered events through an outbox and are
  projected into a coordinator, which selects workers, answers look-ups and wakes workers through
  streams with consumer groups (\<open>coordination/model.rs\<close>, \<open>memory.rs\<close>, \<open>outbox.rs\<close>). A worker
  reaches media on another host through the private egress protocol: it sends commands to a gateway,
  whose service executes each command once, keeps its routes in a state store, and reports lifecycle
  events that the worker acknowledges (\<open>private_egress.rs\<close>, \<open>private_egress_state.rs\<close>). Gateways
  hand the start and the stop of broadcasts to workers through a queue of commands
  (\<open>broadcast/commands.rs\<close>). The four parts share identifiers, counters and the clock, and no
  mutable state; each is modelled by a group of theories over \<open>Prelude\<close> and \<open>Assoc_Map\<close>.

  \<^bold>\<open>Conventions.\<close>
  A Rust struct is a record whose fields carry a prefix, an enum a datatype with the constructors of
  the source, a fallible function returns \<open>('e, 'a) result\<close>, an operation behind a mutex takes the
  protected state and returns the state it leaves together with its result, also when it fails.
  Integers of fixed width are words; the places where the source uses checked, saturating or
  panicking arithmetic are written out. Strings are lists of code points. A hash map is an
  association list with distinct keys, whose order stands for the unspecified order of iteration: the
  invariants and the properties hold for every order. Durations are natural numbers and instants are
  integers, in nanoseconds, milliseconds where the source counts so. Clock readings and random
  identifiers are arguments, one for each time the code reads them. The libraries \<open>chrono\<close>,
  \<open>serde_json\<close> and \<open>sha2\<close>, the parser of UUIDs, the media library's data message and the handler
  installed in the gateway are parameters; what a theorem needs of them is a hypothesis of it, such
  as \<open>chrono_laws\<close>, and its witness instantiates them.

  \<^bold>\<open>The call aggregate\<close> (\<open>call_engine/domain.rs\<close>).
  \<^item> \<open>Call_Types\<close>, \<open>Failure_Details\<close>: counters, leg and call states, deadlines, commands and
    effects; the sanitising constructors of failure details.
  \<^item> \<open>Call_Aggregate\<close>, \<open>Call_Decide\<close>: legs and the aggregate with construction and \<open>validate\<close>; the
    thirteen commands of \<open>apply_command\<close> with their helpers, and \<open>decide\<close>.
  \<^item> \<open>Call_Lemmas\<close>, \<open>Call_Step\<close>, \<open>Call_Invariant\<close>, \<open>Call_Validity\<close>: inversions of the handlers, the
    declarative step relation \<open>call_step\<close>, preservation of each conjunct of \<open>validate\<close>, and that only
    two conflicting leg reports can fail the final check of \<open>decide\<close>.
  \<^item> \<open>Call_Properties\<close> (C1 to C9): validity and monotonicity over histories, refinement of the step
    relation, the state graph, terminal states, fences, sticky failures, replacement of a leg, and
    that every call can be ended.
  \<^item> \<open>Call_Effects\<close> (C10, C11): a worker that performs the effects of every decision holds exactly
    the timers, routes and bridge the aggregate accounts for; the three resources are
    interpretations of the locale \<open>effect_refinement\<close>.

  \<^bold>\<open>Coordination\<close> (\<open>coordination/\<close>, \<open>call_engine/ids.rs\<close>).
  \<^item> \<open>Coord_Model\<close>, \<open>Coord_Memory\<close>, \<open>Coord_Wakeup\<close>: the data with its checks; the operations of
    \<open>MemoryCoordinator\<close> and of \<open>MemoryWakeupConsumer\<close>. A panic under the mutex poisons the
    coordinator, which then fails every call. A waiting \<open>poll\<close> is a list of rounds: what other tasks
    do until it is woken or its interval ends, and the time of its next pass.
  \<^item> \<open>Coord_Invariant\<close>, \<open>Coord_Hints\<close> (C12), \<open>Coord_Versions\<close> (C13, C14): the invariant, worker
    selection against a reference order on fractions, and the versioned tables, three interpretations
    of the locale \<open>versioned_table\<close>, which do not depend on the order of delivery.
  \<^item> \<open>Coord_Delivery\<close> (C15, C17), \<open>Coord_Polling\<close> (C16): reachable coordinators, stream identifiers,
    recovery of idle deliveries, and the order in which a group is handed new wakeups over every
    sequence of calls within one retention period.
  \<^item> \<open>Coord_Outbox\<close>, \<open>Coord_Projector\<close> (C18, C19): the outbox and the projector. The projector is
    proved over the locale \<open>ordered_outbox\<close>, interpreted on the standalone outbox, for any projection.

  \<^bold>\<open>Private egress\<close> (\<open>private_egress.rs\<close>, \<open>private_egress_state.rs\<close>).
  \<^item> \<open>Egress_Types\<close>, \<open>Egress_Store\<close>: commands, responses, events and acknowledgements with their
    checks and data messages; every operation of the standalone state store.
  \<^item> \<open>Egress_Invariant\<close>, \<open>Egress_Fencing\<close>, \<open>Egress_Journal\<close>: the invariant of the store over all
    sequences of calls; what stays true between calls, as interpretations of the locale
    \<open>call_stable\<close>; the journal of a route as an abstract queue.
  \<^item> \<open>Egress_Worker\<close>, \<open>Egress_Redelivery\<close>: the worker's receipts and message handlers, and
    redelivery after lost acknowledgements.
  \<^item> \<open>Egress_Properties\<close> (C20 to C28): the invariant, fencing of superseded instances, terminal
    routes, recovery, the journal as a numbered queue, acceptance of every event once and in order,
    completion by redelivery, and the wire format of commands.
  \<^item> \<open>Egress_Service\<close>, \<open>Egress_Capacity\<close>, \<open>Egress_Trace\<close>, \<open>Egress_Fleet\<close>,
    \<open>Egress_Service_Properties\<close> (C29 to C33): the command service with replay entries, route cells
    and permits, the permit invariant, and a fleet of instances that share one store.

  \<^bold>\<open>Broadcast commands\<close> (\<open>broadcast/commands.rs\<close>).
  \<^item> \<open>Broadcast_Commands\<close>: the data and every operation of \<open>MemoryBroadcastCommandRepository\<close>.
  \<^item> \<open>Broadcast_Invariant\<close>, \<open>Broadcast_Run\<close>, \<open>Broadcast_Claims\<close>: the invariant, its preservation by
    every sequence of calls, and facts that later calls cannot undo (locale \<open>broadcast_stable\<close>).
  \<^item> \<open>Broadcast_Properties\<close> (C34 to C40): idempotent starts, the order of service of claims, claims
    that supersede each other, completions that take effect once, fencing of the other incarnations
    of a worker, and deleted broadcasts.

  \<^bold>\<open>Limits of the statements.\<close>
  \<^item> No definition uses fuel. The one loop without structural recursion, \<open>sweep_replay\<close>, has a
    termination proof by the length of the completion queue (C33).
  \<^item> C13, C16, C22, C25, C26, C29 and C31 hold within the retention periods of the code, which appear
    as hypotheses on the times of the calls: tombstones, streams, routes, the 120 seconds after which
    a worker forgets an ended route, and replay entries.
  \<^item> C25 and C26 are about the events a worker accepts as new. Publishing an accepted event is a
    later step of the handler (\<open>handle_data_message\<close> and \<open>handle_staged_data_message\<close>) and may
    fail.
  \<^item> An operation of the command service is a run that no other operation of the same instance
    interleaves; its calls on the store are store calls, whose properties hold for all sequences.
  \<^item> Identifiers that the code draws at random are assumed fresh where a property needs it: C29 for the
    identifiers of internal End commands, the broadcast properties for the
    identifiers of broadcasts and commands (\<open>fresh_run\<close>).

  \<^bold>\<open>Not modelled.\<close>
  The SQL and Redis adapters and the in-memory tables of the call service, whose logic is the
  database's or which only store rows; the asynchronous execution of calls, providers, HTTP and
  media adapters, which are network input and output around the modelled decisions; configuration,
  recipes, tokens, metrics and process start-up. On the client side of private egress, sending a
  command and waiting for its answer is not modelled. Serialisation is modelled only as far as its
  checks: sizes, counters and the validation of decoded values.
\<close>

end
